(* ===== verification/Prelude.thy ===== *)
theory Prelude
  imports Main "HOL-Library.Word" "HOL-Library.Monad_Syntax"
begin

text \<open>
  Shared vocabulary of the development: the machine integers of the kernel sources, the Rust
  arithmetic the sources call by name (\<^verbatim>\<open>checked_add\<close>, \<^verbatim>\<open>saturating_sub\<close> and their
  companions), access to fixed-size arrays, and the lemmas on lists of optional slots that the
  tables of the kernel (processes, threads, file descriptors, pipes) have in common.

  A Rust operation that can panic (an index outside an array, a subtraction below zero on a
  \<^emph>\<open>usize\<close>) is an option: \<^term>\<open>None\<close> is the panic, and \<^term>\<open>Some\<close> carries the result. A
  theorem that such an operation returns \<^term>\<open>Some\<close> is a proof that the code does not panic.
\<close>

unbundle bit_operations_syntax

type_synonym u8 = "8 word"
type_synonym u16 = "16 word"
type_synonym u32 = "32 word"
type_synonym u64 = "64 word"

named_theorems table_simps \<open>rewrite rules on tables of optional slots\<close>

section \<open>Rust integer arithmetic\<close>

text \<open>The checked, wrapping and saturating operations of the Rust integer types, at any width.\<close>

definition checked_add :: "'a::len word \<Rightarrow> 'a word \<Rightarrow> 'a word option" where
  "checked_add a b = (if unat a + unat b < 2 ^ LENGTH('a) then Some (a + b) else None)"

definition checked_sub :: "'a::len word \<Rightarrow> 'a word \<Rightarrow> 'a word option" where
  "checked_sub a b = (if b \<le> a then Some (a - b) else None)"

definition checked_mul :: "'a::len word \<Rightarrow> 'a word \<Rightarrow> 'a word option" where
  "checked_mul a b = (if unat a * unat b < 2 ^ LENGTH('a) then Some (a * b) else None)"

definition saturating_add :: "'a::len word \<Rightarrow> 'a word \<Rightarrow> 'a word" where
  "saturating_add a b = (if unat a + unat b < 2 ^ LENGTH('a) then a + b else - 1)"

definition saturating_sub :: "'a::len word \<Rightarrow> 'a word \<Rightarrow> 'a word" where
  "saturating_sub a b = (if b \<le> a then a - b else 0)"

text \<open>Subtraction on a \<^emph>\<open>usize\<close> kept as a natural number: below zero is a panic.\<close>

definition usub :: "nat \<Rightarrow> nat \<Rightarrow> nat option" where
  "usub a b = (if b \<le> a then Some (a - b) else None)"

lemma unat_of_nat_small: "n < 2 ^ LENGTH('a) \<Longrightarrow> unat (of_nat n :: 'a::len word) = n"
  by (simp add: unat_of_nat)

lemma unat_u64_lt: "unat (w :: u64) < 2 ^ 64"
  using unsigned_less[of w] by simp

lemma checked_add_Some:
  fixes a b c :: "'a::len word"
  assumes "checked_add a b = Some c"
  shows "unat c = unat a + unat b" "a \<le> c" "b \<le> c"
proof -
  have lt: "unat a + unat b < 2 ^ LENGTH('a)" and c: "c = a + b"
    using assms by (auto simp: checked_add_def split: if_splits)
  show u: "unat c = unat a + unat b"
    using lt unfolding c by (simp add: unat_word_ariths)
  show "a \<le> c" "b \<le> c"
    using u by (simp_all add: word_le_nat_alt)
qed

lemma checked_sub_Some:
  fixes a b c :: "'a::len word"
  assumes "checked_sub a b = Some c"
  shows "unat c = unat a - unat b" "b \<le> a"
  using assms by (auto simp: checked_sub_def unat_sub split: if_splits)

lemma usub_eq_Some [simp]: "usub a b = Some c \<longleftrightarrow> b \<le> a \<and> c = a - b"
  by (auto simp: usub_def)

lemma usub_le [simp]: "b \<le> a \<Longrightarrow> usub a b = Some (a - b)"
  by (simp add: usub_def)

lemma and_not_disjoint:
  fixes a b :: "'a::len word"
  assumes "a AND b = 0"
  shows "a AND NOT b = a"
proof (rule bit_word_eqI)
  fix n
  have "\<not> (bit a n \<and> bit b n)" using assms by (metis bit_and_iff bit_0_eq bot_apply bot_bool_def)
  then show "n < LENGTH('a) \<Longrightarrow> bit (a AND NOT b) n = bit a n" by (auto simp: bit_and_iff bit_not_iff)
qed

section \<open>Arrays\<close>

text \<open>
  \<^emph>\<open>a[i]\<close> and \<^emph>\<open>a[i] = v\<close> on a Rust array or slice: both panic outside the bounds.
\<close>

definition array_get :: "'a list \<Rightarrow> nat \<Rightarrow> 'a option" where
  "array_get xs i = (if i < length xs then Some (xs ! i) else None)"

definition array_set :: "'a list \<Rightarrow> nat \<Rightarrow> 'a \<Rightarrow> 'a list option" where
  "array_set xs i v = (if i < length xs then Some (xs[i := v]) else None)"

lemma array_get_lt [simp]: "i < length xs \<Longrightarrow> array_get xs i = Some (xs ! i)"
  by (simp add: array_get_def)

lemma array_set_lt [simp]: "i < length xs \<Longrightarrow> array_set xs i v = Some (xs[i := v])"
  by (simp add: array_set_def)

text \<open>
  \<^emph>\<open>dst[..src.len()].copy_from_slice(src)\<close> once the bounds are known: the front of the target is
  replaced and the rest stays.
\<close>

definition overwrite_front :: "'a list \<Rightarrow> 'a list \<Rightarrow> 'a list" where
  "overwrite_front dst src = src @ drop (length src) dst"

lemma length_overwrite_front [simp]:
  "length src \<le> length dst \<Longrightarrow> length (overwrite_front dst src) = length dst"
  by (simp add: overwrite_front_def)

lemma take_overwrite_front [simp]:
  "n \<le> length src \<Longrightarrow> take n (overwrite_front dst src) = take n src"
  by (simp add: overwrite_front_def)

section \<open>Lists of options\<close>

lemma those_append: "those (xs @ ys) = (case those xs of None \<Rightarrow> None | Some as \<Rightarrow> map_option (\<lambda>bs. as @ bs) (those ys))"
  by (cases "those ys"; induction xs) (auto split: option.splits)

lemma those_map_Some: "those (map (\<lambda>i. Some (f i)) xs) = Some (map f xs)"
  by (induction xs) auto

lemma those_None: "those xs = None \<longleftrightarrow> None \<in> set xs"
  by (induction xs) (auto split: option.splits)

section \<open>Searching an array\<close>

text \<open>The index of the first element that satisfies a test: a \<^emph>\<open>for\<close> loop that returns early.\<close>

fun find_index_from :: "nat \<Rightarrow> ('a \<Rightarrow> bool) \<Rightarrow> 'a list \<Rightarrow> nat option" where
  "find_index_from i P [] = None"
| "find_index_from i P (x # xs) = (if P x then Some i else find_index_from (Suc i) P xs)"

definition find_index :: "('a \<Rightarrow> bool) \<Rightarrow> 'a list \<Rightarrow> nat option" where
  "find_index P xs = find_index_from 0 P xs"

lemma find_index_from_None: "find_index_from i P xs = None \<longleftrightarrow> (\<forall>x\<in>set xs. \<not> P x)"
  by (induction xs arbitrary: i) auto

lemma find_index_from_Some:
  "find_index_from i P xs = Some j \<longleftrightarrow>
    i \<le> j \<and> j - i < length xs \<and> P (xs ! (j - i)) \<and> (\<forall>k < j - i. \<not> P (xs ! k))"
proof (induction xs arbitrary: i)
  case (Cons x xs)
  show ?case
  proof (cases "P x")
    case True
    then show ?thesis by (auto simp: nth_Cons split: nat.splits)
  next
    case False
    have split0: "(\<forall>k < Suc n. \<not> P ((x # xs) ! k)) \<longleftrightarrow> (\<forall>k < n. \<not> P (xs ! k))" for n
      using False by (auto simp: less_Suc_eq_0_disj)
    show ?thesis
    proof (cases "i < j")
      case True
      then obtain d where "j = Suc (i + d)" using less_iff_Suc_add by auto
      then show ?thesis using Cons.IH False split0[of d] by simp
    next
      case nlt: False
      then show ?thesis using Cons.IH False by (cases "j = i") auto
    qed
  qed
qed simp

lemma find_index_None: "find_index P xs = None \<longleftrightarrow> (\<forall>x\<in>set xs. \<not> P x)"
  by (simp add: find_index_def find_index_from_None)

lemma find_index_Some:
  "find_index P xs = Some j \<longleftrightarrow> j < length xs \<and> P (xs ! j) \<and> (\<forall>k < j. \<not> P (xs ! k))"
  by (simp add: find_index_def find_index_from_Some)

section \<open>Tables of optional slots\<close>

definition occupied :: "'a option list \<Rightarrow> nat" where
  "occupied xs = length (filter (\<lambda>x. x \<noteq> None) xs)"

lemma occupied_replicate_None [table_simps]: "occupied (replicate n None) = 0"
  by (simp add: occupied_def)

lemma occupied_update:
  "i < length xs \<Longrightarrow>
    occupied (xs[i := v]) + (if xs ! i = None then 0 else 1) = occupied xs + (if v = None then 0 else 1)"
proof (induction xs arbitrary: i)
  case (Cons x xs)
  show ?case
  proof (cases i)
    case (Suc j)
    then show ?thesis using Cons.IH[of j] Cons.prems by (cases x) (simp_all add: occupied_def)
  qed (simp add: occupied_def)
qed simp

lemma occupied_insert [table_simps]:
  "\<lbrakk>i < length xs; xs ! i = None\<rbrakk> \<Longrightarrow> occupied (xs[i := Some v]) = Suc (occupied xs)"
  using occupied_update[of i xs "Some v"] by simp

lemma occupied_replace [table_simps]:
  "\<lbrakk>i < length xs; xs ! i = Some w\<rbrakk> \<Longrightarrow> occupied (xs[i := Some v]) = occupied xs"
  using occupied_update[of i xs "Some v"] by simp

lemma occupied_clear [table_simps]:
  "\<lbrakk>i < length xs; xs ! i = Some w\<rbrakk> \<Longrightarrow> Suc (occupied (xs[i := None])) = occupied xs"
  using occupied_update[of i xs None] by simp

lemma occupied_le_length: "occupied xs \<le> length xs"
  by (simp add: occupied_def)

lemma unat_occupied: "length xs \<le> 255 \<Longrightarrow> unat (of_nat (occupied xs) :: u64) = occupied xs"
  using occupied_le_length[of xs] by (simp add: unat_of_nat)

lemma occupied_full: "occupied xs = length xs \<longleftrightarrow> (\<forall>i < length xs. xs ! i \<noteq> None)"
proof -
  have "occupied xs = length xs \<longleftrightarrow> (\<forall>x\<in>set xs. x \<noteq> None)"
    unfolding occupied_def
    using length_filter_less[of _ xs "\<lambda>x. x \<noteq> None"] filter_True[of xs "\<lambda>x. x \<noteq> None"]
    by (metis less_irrefl)
  then show ?thesis by (auto simp: all_set_conv_all_nth)
qed

lemma free_slot_exists: "occupied xs < length xs \<Longrightarrow> \<exists>i < length xs. xs ! i = None"
  using occupied_full[of xs] by auto

lemma occupied_zero: "occupied xs = 0 \<longleftrightarrow> (\<forall>i < length xs. xs ! i = None)"
  by (auto simp: occupied_def filter_empty_conv all_set_conv_all_nth)

end
