(* ===== verification/Ring.thy ===== *)
theory Ring
  imports Prelude
begin

text \<open>
  Ring buffers. The kernel keeps three of them over fixed arrays: the \<^emph>\<open>Fifo\<close> of
  \<^verbatim>\<open>util/fifo.rs\<close>, the index queue of an IPC mailbox and the byte buffer of a pipe. This
  theory has what they share: the list a ring holds, the effect of a write at the tail and of a
  read at the head, and the interface \<^emph>\<open>bounded_queue\<close> with the refinement of any sequence of
  operations by a bounded list.
\<close>

section \<open>The list held by a ring\<close>

definition ring_slice :: "'a list \<Rightarrow> nat \<Rightarrow> nat \<Rightarrow> 'a list" where
  "ring_slice arr h n = map (\<lambda>i. arr ! ((h + i) mod length arr)) [0..<n]"

lemma length_ring_slice [simp]: "length (ring_slice arr h n) = n"
  by (simp add: ring_slice_def)

lemma ring_slice_0 [simp]: "ring_slice arr h 0 = []"
  by (simp add: ring_slice_def)

lemma nth_ring_slice: "i < n \<Longrightarrow> ring_slice arr h n ! i = arr ! ((h + i) mod length arr)"
  by (simp add: ring_slice_def)

lemma ring_index_neq:
  assumes "i < n" "n < (L::nat)"
  shows "(h + i) mod L \<noteq> (h + n) mod L"
proof
  assume "(h + i) mod L = (h + n) mod L"
  then have "L dvd (h + n) - (h + i)"
    using assms mod_eq_dvd_iff_nat[of "h + i" "h + n" L] by simp
  then have "L dvd n - i" by simp
  then show False using assms by (auto dest: dvd_imp_le)
qed

lemma ring_slice_write:
  assumes "n < length arr"
  shows "ring_slice (arr[(h + n) mod length arr := x]) h (Suc n) = ring_slice arr h n @ [x]"
proof -
  have "(h + n) mod length arr < length arr" using assms by (cases arr) auto
  then show ?thesis
    using assms by (auto simp: ring_slice_def nth_list_update dest!: ring_index_neq[of _ n "length arr" h])
qed

lemma ring_slice_write_outside:
  assumes "n < length arr"
  shows "ring_slice (arr[(h + n) mod length arr := x]) h n = ring_slice arr h n"
proof -
  have "take n (ring_slice (arr[(h + n) mod length arr := x]) h (Suc n)) = ring_slice arr h n"
    using ring_slice_write[OF assms] by simp
  then show ?thesis by (simp add: ring_slice_def)
qed

lemma ring_slice_Suc:
  "ring_slice arr h (Suc n) = arr ! (h mod length arr) # ring_slice arr (Suc h mod length arr) n"
proof -
  have "ring_slice arr h (Suc n) =
      arr ! (h mod length arr) # map (\<lambda>i. arr ! ((h + Suc i) mod length arr)) [0..<n]"
    by (simp add: ring_slice_def upt_rec[of 0 "Suc n"] map_Suc_upt[symmetric] comp_def del: upt_Suc)
  also have "(\<lambda>i. arr ! ((h + Suc i) mod length arr)) =
      (\<lambda>i. arr ! ((Suc h mod length arr + i) mod length arr))"
    by (simp add: mod_add_left_eq)
  finally show ?thesis by (simp add: ring_slice_def)
qed

lemma ring_slice_mod [simp]: "length arr = L \<Longrightarrow> ring_slice arr (h mod L) n = ring_slice arr h n"
  by (simp add: ring_slice_def mod_add_left_eq)

section \<open>The interface of a bounded queue\<close>

text \<open>
  A queue operation of the kernel returns \<^term>\<open>None\<close> when it panics, \<^term>\<open>Some (Inl e)\<close> when it
  refuses the element and \<^term>\<open>Some (Inr q)\<close> with the new queue. The observation of a push is
  whether it was accepted, that of a pop is what it returned.
\<close>

datatype 'a queue_op = Push 'a | Pop

datatype 'a queue_obs = Accepted | Refused | Popped "'a option"

fun run_queue ::
  "('q \<Rightarrow> 'a \<Rightarrow> ('e + 'q) option) \<Rightarrow> ('q \<Rightarrow> ('a option \<times> 'q) option) \<Rightarrow> 'q \<Rightarrow> 'a queue_op list \<Rightarrow>
    ('a queue_obs list \<times> 'q) option" where
  "run_queue enq deq q [] = Some ([], q)"
| "run_queue enq deq q (Push x # ops) = (case enq q x of
      None \<Rightarrow> None
    | Some (Inl e) \<Rightarrow> map_option (apfst (Cons Refused)) (run_queue enq deq q ops)
    | Some (Inr q') \<Rightarrow> map_option (apfst (Cons Accepted)) (run_queue enq deq q' ops))"
| "run_queue enq deq q (Pop # ops) = (case deq q of
      None \<Rightarrow> None
    | Some (r, q') \<Rightarrow> map_option (apfst (Cons (Popped r))) (run_queue enq deq q' ops))"

text \<open>The specification: a list of at most \<^emph>\<open>cap\<close> elements, pushed at the end, popped at the front.\<close>

fun run_bounded_list :: "nat \<Rightarrow> 'a list \<Rightarrow> 'a queue_op list \<Rightarrow> 'a queue_obs list \<times> 'a list" where
  "run_bounded_list cap xs [] = ([], xs)"
| "run_bounded_list cap xs (Push x # ops) =
    (if cap \<le> length xs then apfst (Cons Refused) (run_bounded_list cap xs ops)
     else apfst (Cons Accepted) (run_bounded_list cap (xs @ [x]) ops))"
| "run_bounded_list cap xs (Pop # ops) = (case xs of
      [] \<Rightarrow> apfst (Cons (Popped None)) (run_bounded_list cap [] ops)
    | y # ys \<Rightarrow> apfst (Cons (Popped (Some y))) (run_bounded_list cap ys ops))"

fun pushed :: "'a queue_op list \<Rightarrow> 'a list" where
  "pushed [] = []"
| "pushed (Push x # ops) = x # pushed ops"
| "pushed (Pop # ops) = pushed ops"

locale bounded_queue =
  fixes enq :: "'q \<Rightarrow> 'a \<Rightarrow> ('e + 'q) option"
    and deq :: "'q \<Rightarrow> ('a option \<times> 'q) option"
    and contents :: "'q \<Rightarrow> 'a list"
    and wf :: "'q \<Rightarrow> bool"
    and valid :: "'a \<Rightarrow> bool"
    and cap :: nat
  assumes bound: "wf q \<Longrightarrow> length (contents q) \<le> cap"
    and enq_full: "\<lbrakk>wf q; valid x; cap \<le> length (contents q)\<rbrakk> \<Longrightarrow> \<exists>e. enq q x = Some (Inl e)"
    and enq_room: "\<lbrakk>wf q; valid x; length (contents q) < cap\<rbrakk> \<Longrightarrow>
      \<exists>q'. enq q x = Some (Inr q') \<and> wf q' \<and> contents q' = contents q @ [x]"
    and deq_empty: "\<lbrakk>wf q; contents q = []\<rbrakk> \<Longrightarrow> deq q = Some (None, q)"
    and deq_nonempty: "\<lbrakk>wf q; contents q = y # ys\<rbrakk> \<Longrightarrow>
      \<exists>q'. deq q = Some (Some y, q') \<and> wf q' \<and> contents q' = ys"
begin

lemma run_refines:
  assumes "wf q" "\<forall>x\<in>set (pushed ops). valid x"
  shows "\<exists>q'. run_queue enq deq q ops = Some (fst (run_bounded_list cap (contents q) ops), q')
    \<and> wf q' \<and> contents q' = snd (run_bounded_list cap (contents q) ops)"
  using assms
proof (induction ops arbitrary: q)
  case (Cons op ops)
  show ?case
  proof (cases op)
    case (Push x)
    then have v: "valid x" using Cons.prems by simp
    show ?thesis
    proof (cases "cap \<le> length (contents q)")
      case True
      then obtain e where "enq q x = Some (Inl e)" using enq_full Cons.prems v by blast
      then show ?thesis using Cons.IH[of q] Cons.prems Push True by auto
    next
      case False
      then obtain q' where "enq q x = Some (Inr q')" "wf q'" "contents q' = contents q @ [x]"
        using enq_room Cons.prems v by (meson not_le)
      then show ?thesis using Cons.IH[of q'] Cons.prems Push False by auto
    qed
  next
    case Pop
    show ?thesis
    proof (cases "contents q")
      case Nil
      then show ?thesis using deq_empty Cons.IH[of q] Cons.prems Pop by auto
    next
      case (Cons y ys)
      then obtain q' where "deq q = Some (Some y, q')" "wf q'" "contents q' = ys"
        using deq_nonempty \<open>wf q\<close> by blast
      then show ?thesis using Cons.IH[of q'] Cons.prems Pop Cons by auto
    qed
  qed
qed simp

lemma fill_and_drain:
  assumes "wf q" "contents q = []" "length xs \<le> cap" "\<forall>x\<in>set xs. valid x"
  shows "\<exists>q'. run_queue enq deq q (map Push xs @ replicate (length xs) Pop) =
      Some (replicate (length xs) Accepted @ map (Popped \<circ> Some) xs, q') \<and> wf q' \<and> contents q' = []"
proof -
  have p: "pushed (map Push xs @ replicate n Pop) = xs" for n
  proof -
    have "pushed (replicate n Pop) = []" by (induction n) auto
    then show ?thesis by (induction xs) auto
  qed
  have drain: "run_bounded_list cap ys (replicate (length ys) Pop) = (map (Popped \<circ> Some) ys, [])" for ys
    by (induction ys) auto
  have fill: "length ys + length zs \<le> cap \<Longrightarrow>
      run_bounded_list cap ys (map Push zs @ ops) =
        apfst ((@) (replicate (length zs) Accepted)) (run_bounded_list cap (ys @ zs) ops)" for ys zs ops
    by (induction zs arbitrary: ys) (auto simp: apfst_def map_prod_def split: prod.splits)
  show ?thesis
    using run_refines[OF \<open>wf q\<close>, of "map Push xs @ replicate (length xs) Pop"] assms fill[of "[]" xs] drain[of xs]
    by (simp add: p)
qed

end

end
