(* ===== verification/Fifo.thy ===== *)
theory Fifo
  imports Ring
begin

text \<open>
  The interrupt-safe ring buffer of \<^verbatim>\<open>src/src/core/util/fifo.rs\<close>. \<^emph>\<open>Fifo<T, N>\<close> is a mutex
  around \<^emph>\<open>FifoInner<T, N>\<close>; every method locks it for its whole body, so a method is one atomic
  function on the inner record. The constant parameter \<^emph>\<open>N\<close> is the first argument of the
  operations that read it.
\<close>

section \<open>Operations\<close>

record 'a fifo =
  fifo_data :: "'a option list"
  fifo_write_pos :: nat
  fifo_read_pos :: nat
  fifo_count :: nat

definition fifo_new :: "nat \<Rightarrow> 'a fifo" where
  "fifo_new N = \<lparr>fifo_data = replicate N None, fifo_write_pos = 0, fifo_read_pos = 0, fifo_count = 0\<rparr>"

definition fifo_push :: "nat \<Rightarrow> 'a fifo \<Rightarrow> 'a \<Rightarrow> ('a + 'a fifo) option" where
  "fifo_push N f v =
    (if N \<le> fifo_count f then Some (Inl v)
     else do {
       d \<leftarrow> array_set (fifo_data f) (fifo_write_pos f) (Some v);
       Some (Inr (f\<lparr>fifo_data := d,
                    fifo_write_pos := (fifo_write_pos f + 1) mod N,
                    fifo_count := fifo_count f + 1\<rparr>))
     })"

definition fifo_pop :: "nat \<Rightarrow> 'a fifo \<Rightarrow> ('a option \<times> 'a fifo) option" where
  "fifo_pop N f =
    (if fifo_count f = 0 then Some (None, f)
     else do {
       v \<leftarrow> array_get (fifo_data f) (fifo_read_pos f);
       d \<leftarrow> array_set (fifo_data f) (fifo_read_pos f) None;
       Some (v, f\<lparr>fifo_data := d,
                  fifo_read_pos := (fifo_read_pos f + 1) mod N,
                  fifo_count := fifo_count f - 1\<rparr>)
     })"

definition fifo_is_empty :: "'a fifo \<Rightarrow> bool" where
  "fifo_is_empty f \<longleftrightarrow> fifo_count f = 0"

definition fifo_is_full :: "nat \<Rightarrow> 'a fifo \<Rightarrow> bool" where
  "fifo_is_full N f \<longleftrightarrow> N \<le> fifo_count f"

definition fifo_len :: "'a fifo \<Rightarrow> nat" where
  "fifo_len f = fifo_count f"

section \<open>Invariant and the list it stands for\<close>

definition fifo_slots :: "'a fifo \<Rightarrow> 'a option list" where
  "fifo_slots f = ring_slice (fifo_data f) (fifo_read_pos f) (fifo_count f)"

definition fifo_wf :: "nat \<Rightarrow> 'a fifo \<Rightarrow> bool" where
  "fifo_wf N f \<longleftrightarrow> 0 < N \<and> length (fifo_data f) = N \<and> fifo_read_pos f < N \<and> fifo_count f \<le> N
    \<and> fifo_write_pos f = (fifo_read_pos f + fifo_count f) mod N
    \<and> None \<notin> set (fifo_slots f)"

definition fifo_contents :: "'a fifo \<Rightarrow> 'a list" where
  "fifo_contents f = map the (fifo_slots f)"

lemma fifo_new_wf: "0 < N \<Longrightarrow> fifo_wf N (fifo_new N)" "fifo_contents (fifo_new N) = []"
  by (simp_all add: fifo_wf_def fifo_new_def fifo_slots_def fifo_contents_def)

lemma fifo_length_contents: "length (fifo_contents f) = fifo_count f"
  by (simp add: fifo_contents_def fifo_slots_def)

lemma fifo_push_room:
  assumes "fifo_wf N f" "fifo_count f < N"
  shows "\<exists>g. fifo_push N f v = Some (Inr g) \<and> fifo_wf N g \<and> fifo_contents g = fifo_contents f @ [v]"
proof -
  let ?g = "f\<lparr>fifo_data := (fifo_data f)[fifo_write_pos f := Some v],
              fifo_write_pos := (fifo_write_pos f + 1) mod N, fifo_count := fifo_count f + 1\<rparr>"
  have slots: "fifo_slots ?g = fifo_slots f @ [Some v]"
    using assms ring_slice_write[of "fifo_count f" "fifo_data f" "fifo_read_pos f" "Some v"]
    by (simp add: fifo_slots_def fifo_wf_def)
  have "fifo_push N f v = Some (Inr ?g)"
    using assms by (simp add: fifo_push_def fifo_wf_def)
  moreover have "fifo_wf N ?g"
    using assms slots by (simp add: fifo_wf_def mod_Suc_eq)
  moreover have "fifo_contents ?g = fifo_contents f @ [v]"
    using slots by (simp add: fifo_contents_def)
  ultimately show ?thesis by blast
qed

lemma fifo_pop_nonempty:
  assumes "fifo_wf N f" "fifo_contents f = y # ys"
  shows "\<exists>g. fifo_pop N f = Some (Some y, g) \<and> fifo_wf N g \<and> fifo_contents g = ys"
proof -
  obtain n where n: "fifo_count f = Suc n"
    using assms(2) fifo_length_contents[of f] by (cases "fifo_count f") auto
  let ?r = "fifo_read_pos f"
  let ?g = "f\<lparr>fifo_data := (fifo_data f)[?r := None],
              fifo_read_pos := (?r + 1) mod N, fifo_count := n\<rparr>"
  have wf: "length (fifo_data f) = N" "?r < N" "n < N" "None \<notin> set (fifo_slots f)"
    using assms(1) n by (simp_all add: fifo_wf_def)
  have split: "fifo_slots f = fifo_data f ! ?r # ring_slice (fifo_data f) (Suc ?r mod N) n"
    using ring_slice_Suc[of "fifo_data f" ?r n] wf n by (simp add: fifo_slots_def)
  have tl: "fifo_slots ?g = ring_slice (fifo_data f) (Suc ?r mod N) n"
  proof (rule nth_equalityI)
    fix i assume "i < length (fifo_slots ?g)"
    then have i: "i < n" by (simp add: fifo_slots_def)
    then have "(?r + Suc i) mod N \<noteq> ?r"
      using ring_index_neq[of 0 "Suc i" N ?r] wf by simp
    then show "fifo_slots ?g ! i = ring_slice (fifo_data f) (Suc ?r mod N) n ! i"
      using i wf by (simp add: fifo_slots_def nth_ring_slice mod_add_left_eq)
  qed (simp add: fifo_slots_def)
  have hd: "fifo_data f ! ?r = Some y" and ys: "map the (fifo_slots ?g) = ys"
    using assms(2) split tl wf(4) by (auto simp: fifo_contents_def)
  have "fifo_pop N f = Some (Some y, ?g)"
    using wf n hd by (simp add: fifo_pop_def)
  moreover have "fifo_wf N ?g"
    using assms(1) split tl wf n by (simp add: fifo_wf_def mod_add_left_eq)
  moreover have "fifo_contents ?g = ys"
    using ys by (simp add: fifo_contents_def)
  ultimately show ?thesis by blast
qed

interpretation fifo_queue: bounded_queue "fifo_push N" "fifo_pop N" fifo_contents "fifo_wf N" "\<lambda>_. True" N for N
proof
  fix q :: "'a fifo" and x :: 'a and y :: 'a and ys :: "'a list"
  show "fifo_wf N q \<Longrightarrow> length (fifo_contents q) \<le> N"
    by (simp add: fifo_length_contents fifo_wf_def)
  show "\<lbrakk>fifo_wf N q; True; N \<le> length (fifo_contents q)\<rbrakk> \<Longrightarrow> \<exists>e. fifo_push N q x = Some (Inl e)"
    by (simp add: fifo_length_contents fifo_push_def)
  show "\<lbrakk>fifo_wf N q; True; length (fifo_contents q) < N\<rbrakk> \<Longrightarrow>
      \<exists>q'. fifo_push N q x = Some (Inr q') \<and> fifo_wf N q' \<and> fifo_contents q' = fifo_contents q @ [x]"
    by (simp add: fifo_length_contents fifo_push_room)
  show "\<lbrakk>fifo_wf N q; fifo_contents q = []\<rbrakk> \<Longrightarrow> fifo_pop N q = Some (None, q)"
    using fifo_length_contents[of q] by (simp add: fifo_pop_def)
  show "\<lbrakk>fifo_wf N q; fifo_contents q = y # ys\<rbrakk> \<Longrightarrow>
      \<exists>q'. fifo_pop N q = Some (Some y, q') \<and> fifo_wf N q' \<and> fifo_contents q' = ys"
    by (rule fifo_pop_nonempty)
qed

section \<open>Properties\<close>

text \<open>
  C29. A \<^emph>\<open>Fifo\<close> of non-zero capacity refines a bounded list: for every sequence of pushes and
  pops starting from \<^emph>\<open>Fifo::new\<close>, no operation panics and every operation returns what the
  same operation on a list of at most N elements returns (a push into a full buffer is refused,
  a pop takes the oldest element), and the buffer ends holding that list.
\<close>

theorem fifo_refines_bounded_list:
  assumes "0 < N"
  shows "\<exists>f. run_queue (fifo_push N) (fifo_pop N) (fifo_new N) ops =
      Some (fst (run_bounded_list N [] ops), f)
    \<and> fifo_wf N f \<and> fifo_contents f = snd (run_bounded_list N [] ops)
    \<and> fifo_len f = length (snd (run_bounded_list N [] ops))"
  using fifo_queue.run_refines[of N "fifo_new N" ops] assms
  by (auto simp: fifo_new_wf fifo_len_def fifo_length_contents[symmetric])

theorem fifo_refines_bounded_list_witness:
  "\<exists>f. run_queue (fifo_push 2) (fifo_pop 2) (fifo_new 2) [Push (7::nat), Push 8, Push 9, Pop, Push 9, Pop] =
      Some ([Accepted, Accepted, Refused, Popped (Some 7), Accepted, Popped (Some 8)], f)
    \<and> fifo_contents f = [9]"
  using fifo_refines_bounded_list[of 2 "[Push (7::nat), Push 8, Push 9, Pop, Push 9, Pop]"]
  by auto

end
