(* ===== verification/Slot_Table.thy ===== *)
theory Slot_Table
  imports Prelude
begin

text \<open>
  Fixed arrays of optional records looked up by identifier: the shape of the process table and of the
  thread queue. The functions below are the loops both write over their arrays; the interface \<^emph>\<open>id_table\<close>
  states what the rest of the kernel relies on, over the partial map from identifiers to records.
\<close>

section \<open>Loops over an array of slots\<close>

text \<open>The records of a table in slot order: \<^emph>\<open>iter()\<close> of both tables.\<close>

fun live :: "'v option list \<Rightarrow> 'v list" where
  "live [] = []"
| "live (None # xs) = live xs"
| "live (Some v # xs) = v # live xs"

text \<open>\<^emph>\<open>find_map(|slot| slot.as_ref().filter(p))\<close>.\<close>

fun slot_find :: "('v \<Rightarrow> bool) \<Rightarrow> 'v option list \<Rightarrow> 'v option" where
  "slot_find P [] = None"
| "slot_find P (None # xs) = slot_find P xs"
| "slot_find P (Some v # xs) = (if P v then Some v else slot_find P xs)"

text \<open>A write through the mutable reference to the first record that matches.\<close>

fun slot_modify :: "('v \<Rightarrow> bool) \<Rightarrow> ('v \<Rightarrow> 'v) \<Rightarrow> 'v option list \<Rightarrow> 'v option list" where
  "slot_modify P f [] = []"
| "slot_modify P f (None # xs) = None # slot_modify P f xs"
| "slot_modify P f (Some v # xs) = (if P v then Some (f v) # xs else Some v # slot_modify P f xs)"

text \<open>\<^emph>\<open>slot.take()\<close> on the first record that matches.\<close>

fun slot_take :: "('v \<Rightarrow> bool) \<Rightarrow> 'v option list \<Rightarrow> ('v \<times> 'v option list) option" where
  "slot_take P [] = None"
| "slot_take P (None # xs) = map_option (apsnd (Cons None)) (slot_take P xs)"
| "slot_take P (Some v # xs) =
    (if P v then Some (v, None # xs) else map_option (apsnd (Cons (Some v))) (slot_take P xs))"

section \<open>Lemmas\<close>

lemma live_append [simp]: "live (xs @ ys) = live xs @ live ys"
  by (induction xs rule: live.induct) auto

lemma live_replicate_None [simp]: "live (replicate n None) = []"
  by (induction n) auto

lemma length_live: "length (live xs) = occupied xs"
  by (induction xs rule: live.induct) (auto simp: occupied_def)

lemma set_live: "v \<in> set (live xs) \<longleftrightarrow> Some v \<in> set xs"
  by (induction xs rule: live.induct) auto

lemma slot_find_live: "slot_find P xs = find P (live xs)"
  by (induction xs rule: live.induct) auto

lemma slot_find_None: "slot_find P xs = None \<longleftrightarrow> (\<forall>v\<in>set (live xs). \<not> P v)"
  by (induction xs rule: live.induct) auto

lemma slot_find_SomeD: "slot_find P xs = Some v \<Longrightarrow> P v \<and> v \<in> set (live xs)"
  by (induction xs rule: live.induct) (auto split: if_splits)

lemma length_slot_modify [simp]: "length (slot_modify P f xs) = length xs"
  by (induction P f xs rule: slot_modify.induct) auto

lemma occupied_slot_modify [simp]: "occupied (slot_modify P f xs) = occupied xs"
  by (induction P f xs rule: slot_modify.induct) (auto simp: occupied_def)

lemma slot_modify_miss: "slot_find P xs = None \<Longrightarrow> slot_modify P f xs = xs"
  by (induction P f xs rule: slot_modify.induct) (auto split: if_splits)

lemma nth_slot_modify_None: "i < length xs \<Longrightarrow> slot_modify P f xs ! i = None \<longleftrightarrow> xs ! i = None"
proof (induction P f xs arbitrary: i rule: slot_modify.induct)
  case (2 P f xs)
  then show ?case by (cases i) auto
next
  case (3 P f v xs)
  then show ?case by (cases i) auto
qed simp

lemma slot_take_None: "slot_take P xs = None \<longleftrightarrow> slot_find P xs = None"
  by (induction P xs rule: slot_take.induct) auto

lemma slot_take_Some:
  "slot_take P xs = Some (v, ys) \<Longrightarrow>
    slot_find P xs = Some v \<and> length ys = length xs \<and> Suc (occupied ys) = occupied xs
    \<and> (\<exists>i < length xs. xs ! i = Some v \<and> ys = xs[i := None] \<and> (\<forall>j < i. \<forall>w. xs ! j = Some w \<longrightarrow> \<not> P w))"
proof (induction P xs arbitrary: ys rule: slot_take.induct)
  case (2 P xs)
  then obtain zs where zs: "slot_take P xs = Some (v, zs)" "ys = None # zs" by auto
  then obtain i where i: "i < length xs" "xs ! i = Some v" "zs = xs[i := None]"
    "\<forall>j < i. \<forall>w. xs ! j = Some w \<longrightarrow> \<not> P w" "slot_find P xs = Some v" "Suc (occupied zs) = occupied xs"
    using 2 by blast
  then have "\<exists>i < length (None # xs). (None # xs) ! i = Some v \<and> ys = (None # xs)[i := None]
      \<and> (\<forall>j < i. \<forall>w. (None # xs) ! j = Some w \<longrightarrow> \<not> P w)"
    using zs by (intro exI[of _ "Suc i"]) (auto simp: less_Suc_eq_0_disj)
  then show ?case using i zs by (auto simp: occupied_def)
next
  case (3 P u xs)
  show ?case
  proof (cases "P u")
    case True
    then show ?thesis using 3 by (auto simp: occupied_def intro!: exI[of _ 0])
  next
    case False
    then obtain zs where zs: "slot_take P xs = Some (v, zs)" "ys = Some u # zs" using 3 by auto
    then obtain i where i: "i < length xs" "xs ! i = Some v" "zs = xs[i := None]"
      "\<forall>j < i. \<forall>w. xs ! j = Some w \<longrightarrow> \<not> P w" "slot_find P xs = Some v" "Suc (occupied zs) = occupied xs"
      using 3 False by blast
    then have "\<exists>i < length (Some u # xs). (Some u # xs) ! i = Some v \<and> ys = (Some u # xs)[i := None]
        \<and> (\<forall>j < i. \<forall>w. (Some u # xs) ! j = Some w \<longrightarrow> \<not> P w)"
      using zs False by (intro exI[of _ "Suc i"]) (auto simp: less_Suc_eq_0_disj)
    then show ?thesis using i zs False by (auto simp: occupied_def)
  qed
qed simp

section \<open>Tables with distinct identifiers\<close>

definition keys_distinct :: "('v \<Rightarrow> 'k) \<Rightarrow> 'v option list \<Rightarrow> bool" where
  "keys_distinct key xs \<longleftrightarrow> distinct (map key (live xs))"

definition lookup :: "('v \<Rightarrow> 'k) \<Rightarrow> 'v option list \<Rightarrow> 'k \<Rightarrow> 'v option" where
  "lookup key xs k = slot_find (\<lambda>v. key v = k) xs"

lemma lookup_key: "lookup key xs k = Some v \<Longrightarrow> key v = k"
  by (auto simp: lookup_def dest: slot_find_SomeD)

lemma lookup_Some_iff: "keys_distinct key xs \<Longrightarrow> lookup key xs k = Some v \<longleftrightarrow> v \<in> set (live xs) \<and> key v = k"
  unfolding keys_distinct_def lookup_def
  by (induction xs rule: live.induct) (auto split: if_splits)

lemma lookup_None_iff: "lookup key xs k = None \<longleftrightarrow> k \<notin> key ` set (live xs)"
  by (auto simp: lookup_def slot_find_None)

lemma dom_lookup: "dom (lookup key xs) = key ` set (live xs)"
  using lookup_None_iff[of key xs] by (auto simp: dom_def)

lemma card_dom_lookup: "keys_distinct key xs \<Longrightarrow> card (dom (lookup key xs)) = occupied xs"
  unfolding dom_lookup keys_distinct_def
  by (metis distinct_card length_live length_map set_map)

lemma lookup_replicate_None [simp]: "lookup key (replicate n None) = Map.empty"
  by (auto simp: lookup_def slot_find_live)

lemma keys_distinct_replicate_None [simp]: "keys_distinct key (replicate n None)"
  by (simp add: keys_distinct_def)

lemma live_update_split:
  "i < length xs \<Longrightarrow> live (xs[i := v]) = live (take i xs) @ live [v] @ live (drop (Suc i) xs)"
proof -
  assume i: "i < length xs"
  have "xs[i := v] = take i xs @ [v] @ drop (Suc i) xs" using upd_conv_take_nth_drop[OF i] by simp
  then show ?thesis by (metis live_append)
qed

lemma live_split: "i < length xs \<Longrightarrow> live xs = live (take i xs) @ live [xs ! i] @ live (drop (Suc i) xs)"
  using live_update_split[of i xs "xs ! i"] by simp

lemma lookup_map_of: "lookup key xs k = map_of (map (\<lambda>v. (key v, v)) (live xs)) k"
  unfolding lookup_def by (induction xs rule: live.induct) auto

lemma insert_slot:
  assumes "keys_distinct key xs" "i < length xs" "xs ! i = None" "lookup key xs (key v) = None"
  shows "keys_distinct key (xs[i := Some v])" "lookup key (xs[i := Some v]) = (lookup key xs)(key v \<mapsto> v)"
proof -
  have l: "live (xs[i := Some v]) = live (take i xs) @ v # live (drop (Suc i) xs)"
    "live xs = live (take i xs) @ live (drop (Suc i) xs)"
    using live_update_split[OF assms(2), of "Some v"] live_split[OF assms(2)] assms(3) by simp_all
  have fresh: "key v \<notin> key ` set (live xs)" using assms(4) lookup_None_iff by metis
  then show "keys_distinct key (xs[i := Some v])" using assms(1) l by (auto simp: keys_distinct_def)
  show "lookup key (xs[i := Some v]) = (lookup key xs)(key v \<mapsto> v)"
  proof
    fix k
    have "key v \<notin> dom (map_of (map (\<lambda>v. (key v, v)) (live (take i xs))))"
      using fresh l by (auto simp: dom_map_of_conv_image_fst image_image)
    then show "lookup key (xs[i := Some v]) k = ((lookup key xs)(key v \<mapsto> v)) k"
      by (auto simp: lookup_map_of l map_add_def map_of_append domIff split: option.splits)
  qed
qed

lemma clear_slot:
  assumes "keys_distinct key xs" "i < length xs" "xs ! i = Some v"
  shows "keys_distinct key (xs[i := None])" "lookup key (xs[i := None]) = (lookup key xs)(key v := None)"
proof -
  have l: "live xs = live (take i xs) @ v # live (drop (Suc i) xs)"
    "live (xs[i := None]) = live (take i xs) @ live (drop (Suc i) xs)"
    using live_update_split[OF assms(2), of None] live_split[OF assms(2)] assms(3) by simp_all
  then show d: "keys_distinct key (xs[i := None])" using assms(1) by (auto simp: keys_distinct_def)
  show "lookup key (xs[i := None]) = (lookup key xs)(key v := None)"
  proof
    fix k
    show "lookup key (xs[i := None]) k = ((lookup key xs)(key v := None)) k"
    proof (cases "k = key v")
      case True
      then show ?thesis
        using assms(1) l by (auto simp: lookup_None_iff keys_distinct_def)
    next
      case False
      then show ?thesis by (auto simp: lookup_map_of l map_of_append map_add_def split: option.splits)
    qed
  qed
qed

lemma modify_keys [simp]:
  "(\<And>v. key (f v) = key v) \<Longrightarrow> map key (live (slot_modify P f xs)) = map key (live xs)"
  by (induction P f xs rule: slot_modify.induct) auto

lemma modify_keys_distinct [simp]:
  "(\<And>v. key (f v) = key v) \<Longrightarrow> keys_distinct key (slot_modify P f xs) = keys_distinct key xs"
  by (simp add: keys_distinct_def)

lemma lookup_modify:
  assumes "\<And>v. key (f v) = key v"
  shows "lookup key (slot_modify (\<lambda>v. key v = k) f xs) = (lookup key xs)(k := map_option f (lookup key xs k))"
proof
  fix k'
  show "lookup key (slot_modify (\<lambda>v. key v = k) f xs) k' =
      ((lookup key xs)(k := map_option f (lookup key xs k))) k'"
    unfolding lookup_def using assms by (induction xs rule: live.induct) auto
qed

section \<open>The interface of a table\<close>

text \<open>
  What the kernel relies on: lookups see a partial map with at most \<^emph>\<open>cap\<close> entries; adding a record
  with a fresh identifier succeeds exactly when there is room; removal and in-place modification touch the
  one record they name.
\<close>

locale id_table =
  fixes add :: "'t \<Rightarrow> 'v \<Rightarrow> 'k option \<times> 't"
    and get :: "'t \<Rightarrow> 'k \<Rightarrow> 'v option"
    and remove :: "'t \<Rightarrow> 'k \<Rightarrow> 'v option \<times> 't"
    and modify :: "'t \<Rightarrow> 'k \<Rightarrow> ('v \<Rightarrow> 'v) \<Rightarrow> 't"
    and key :: "'v \<Rightarrow> 'k"
    and count :: "'t \<Rightarrow> nat"
    and wf :: "'t \<Rightarrow> bool"
    and cap :: nat
  assumes get_key: "get t k = Some v \<Longrightarrow> key v = k"
    and dom_finite: "wf t \<Longrightarrow> finite (dom (get t))"
    and dom_card: "wf t \<Longrightarrow> card (dom (get t)) = count t"
    and count_cap: "wf t \<Longrightarrow> count t \<le> cap"
    and add_full: "\<lbrakk>wf t; cap \<le> count t\<rbrakk> \<Longrightarrow> add t v = (None, t)"
    and add_room: "\<lbrakk>wf t; count t < cap; get t (key v) = None\<rbrakk> \<Longrightarrow>
      \<exists>t'. add t v = (Some (key v), t') \<and> wf t' \<and> get t' = (get t)(key v \<mapsto> v)"
    and remove_any: "wf t \<Longrightarrow> \<exists>t'. remove t k = (get t k, t') \<and> wf t' \<and> get t' = (get t)(k := None)"
    and modify_any: "\<lbrakk>wf t; \<forall>v. key (f v) = key v\<rbrakk> \<Longrightarrow>
      wf (modify t k f) \<and> get (modify t k f) = (get t)(k := map_option f (get t k))"
begin

lemma add_count:
  assumes "wf t" "count t < cap" "get t (key v) = None" "add t v = (r, t')"
  shows "count t' = Suc (count t)"
proof -
  have g: "wf t'" "get t' = (get t)(key v \<mapsto> v)" using add_room[OF assms(1-3)] assms(4) by auto
  then have "card (dom (get t')) = Suc (card (dom (get t)))"
    using dom_finite[OF assms(1)] assms(3) by (simp add: domIff)
  then show ?thesis using dom_card g(1) assms(1) by simp
qed

lemma remove_count:
  assumes "wf t" "remove t k = (r, t')"
  shows "count t' = (if get t k = None then count t else count t - 1)"
proof -
  have g: "wf t'" "get t' = (get t)(k := None)" using remove_any[OF assms(1), of k] assms(2) by auto
  then have "card (dom (get t')) = card (dom (get t) - {k})" by simp
  also have "\<dots> = (if get t k = None then card (dom (get t)) else card (dom (get t)) - 1)"
    using dom_finite[OF assms(1)] by (simp add: domIff card_Diff_singleton_if)
  finally show ?thesis using dom_card g(1) assms(1) by simp
qed

lemma add_then_remove:
  assumes "wf t" "count t < cap" "get t (key v) = None" "add t v = (r, t1)" "remove t1 (key v) = (w, t2)"
  shows "w = Some v" "get t2 = get t" "count t2 = count t"
proof -
  have g1: "wf t1" "get t1 = (get t)(key v \<mapsto> v)" using add_room[OF assms(1-3)] assms(4) by auto
  then have g2: "w = get t1 (key v)" "get t2 = (get t1)(key v := None)"
    using remove_any[OF g1(1), of "key v"] assms(5) by auto
  show "w = Some v" using g1 g2 by simp
  show "get t2 = get t" using g1 g2 assms(3) by auto
  show "count t2 = count t"
    using add_count[OF assms(1-4)] remove_count[OF g1(1) assms(5)] g1 by simp
qed

lemma full_iff: "wf t \<Longrightarrow> get t (key v) = None \<Longrightarrow> fst (add t v) = None \<longleftrightarrow> card (dom (get t)) = cap"
  using add_full[of t v] add_room[of t v] dom_card[of t] count_cap[of t]
  by (cases "count t < cap") (auto simp: not_less)

end

end
