(* ===== verification/Ids.thy ===== *)
theory Ids
  imports Prelude
begin

text \<open>
  Identifiers and states of tasks, from \<^verbatim>\<open>src/src/core/task/ids.rs\<close>. \<^emph>\<open>ProcessId\<close> and \<^emph>\<open>ThreadId\<close>
  wrap a \<^emph>\<open>u64\<close> taken from a counter that starts at 1; both are the bare word here, and the counters are
  explicit (\<^verbatim>\<open>NEXT_PROCESS_ID\<close>, \<^verbatim>\<open>NEXT_THREAD_ID\<close>).
\<close>

type_synonym process_id = u64
type_synonym thread_id = u64

datatype thread_state = TReady | TRunning | TBlocked | TSleeping | TTerminated

datatype process_state = PRunning | PSleeping | PZombie | PTerminated

datatype privilege_level = PrivCore | PrivService | PrivUser

text \<open>\<^emph>\<open>fetch_add(1)\<close> on the identifier counter: the old value is the new identifier.\<close>

definition process_id_new :: "u64 \<Rightarrow> process_id \<times> u64" where
  "process_id_new next = (next, next + 1)"

definition thread_id_new :: "u64 \<Rightarrow> thread_id \<times> u64" where
  "thread_id_new next = (next, next + 1)"

end
