(* ===== verification/Bytes.thy ===== *)
theory Bytes
  imports Prelude "HOL-Library.Sublist"
begin

text \<open>
  Bytes and strings. A Rust \<^emph>\<open>&str\<close> or \<^emph>\<open>&[u8]\<close> is a list of bytes; \<^verbatim>\<open>core::str::from_utf8\<close> is the
  validity check below, written from the well-formed byte sequences of UTF-8. The string methods
  the kernel calls (\<^verbatim>\<open>strip_suffix\<close>, \<^verbatim>\<open>ends_with\<close>, \<^verbatim>\<open>contains\<close>, \<^verbatim>\<open>split\<close>) work on the bytes, as they do in Rust. The
  little-endian conversions \<^verbatim>\<open>to_le_bytes\<close> and \<^verbatim>\<open>from_le_bytes\<close> come with their round trip.
\<close>

type_synonym bytes = "u8 list"

definition str_bytes :: "string \<Rightarrow> bytes" where
  "str_bytes s = map (\<lambda>c. of_nat (of_char c)) s"

lemma length_str_bytes [simp]: "length (str_bytes s) = length s"
  by (simp add: str_bytes_def)

section \<open>UTF-8\<close>

definition utf8_cont :: "u8 \<Rightarrow> bool" where
  "utf8_cont b \<longleftrightarrow> 0x80 \<le> b \<and> b \<le> 0xBF"

fun utf8_valid :: "bytes \<Rightarrow> bool" where
  "utf8_valid [] = True"
| "utf8_valid (a # xs) =
    (if a < 0x80 then utf8_valid xs
     else if 0xC2 \<le> a \<and> a \<le> 0xDF then
       (case xs of b # ys \<Rightarrow> utf8_cont b \<and> utf8_valid ys | [] \<Rightarrow> False)
     else if 0xE0 \<le> a \<and> a \<le> 0xEF then
       (case xs of b # c # ys \<Rightarrow>
          (if a = 0xE0 then 0xA0 \<le> b \<and> b \<le> 0xBF
           else if a = 0xED then 0x80 \<le> b \<and> b \<le> 0x9F
           else utf8_cont b)
          \<and> utf8_cont c \<and> utf8_valid ys
        | _ \<Rightarrow> False)
     else if 0xF0 \<le> a \<and> a \<le> 0xF4 then
       (case xs of b # c # d # ys \<Rightarrow>
          (if a = 0xF0 then 0x90 \<le> b \<and> b \<le> 0xBF
           else if a = 0xF4 then 0x80 \<le> b \<and> b \<le> 0x8F
           else utf8_cont b)
          \<and> utf8_cont c \<and> utf8_cont d \<and> utf8_valid ys
        | _ \<Rightarrow> False)
     else False)"

lemma utf8_valid_ascii: "\<forall>b\<in>set bs. b < 0x80 \<Longrightarrow> utf8_valid bs"
  by (induction bs) auto

section \<open>String methods\<close>

definition strip_suffix :: "bytes \<Rightarrow> bytes \<Rightarrow> bytes option" where
  "strip_suffix s suf = (if suffix suf s then Some (take (length s - length suf) s) else None)"

definition ends_with :: "bytes \<Rightarrow> bytes \<Rightarrow> bool" where
  "ends_with s suf \<longleftrightarrow> suffix suf s"

definition starts_with :: "bytes \<Rightarrow> bytes \<Rightarrow> bool" where
  "starts_with s pre \<longleftrightarrow> prefix pre s"

definition str_contains :: "bytes \<Rightarrow> bytes \<Rightarrow> bool" where
  "str_contains s t \<longleftrightarrow> sublist t s"

section \<open>Little-endian conversions\<close>

definition to_le_bytes :: "'a::len word \<Rightarrow> bytes" where
  "to_le_bytes w = map (\<lambda>i. ucast (drop_bit (8 * i) w)) [0..<LENGTH('a) div 8]"

fun from_le_bytes :: "bytes \<Rightarrow> 'a::len word" where
  "from_le_bytes [] = 0"
| "from_le_bytes (b # bs) = ucast b OR push_bit 8 (from_le_bytes bs)"

lemma length_to_le_bytes [simp]: "length (to_le_bytes (w :: 'a::len word)) = LENGTH('a) div 8"
  by (simp add: to_le_bytes_def)

lemma bit_from_le_bytes:
  fixes w :: "'a::len word"
  shows "n < LENGTH('a) \<Longrightarrow> bit (from_le_bytes bs :: 'a word) n \<longleftrightarrow> n div 8 < length bs \<and> bit (bs ! (n div 8)) (n mod 8)"
proof (induction bs arbitrary: n)
  case (Cons b bs)
  show ?case
  proof (cases "n < 8")
    case True
    then show ?thesis using Cons.prems by (simp add: bit_or_iff bit_push_bit_iff bit_ucast_iff)
  next
    case False
    then have "\<not> bit b n" by (simp add: bit_imp_le_length not_less bit_word.rep_eq)
    moreover have "n div 8 = Suc ((n - 8) div 8)" "n mod 8 = (n - 8) mod 8"
      using False by (simp_all add: div_if mod_if)
    ultimately show ?thesis
      using Cons False by (simp add: bit_or_iff bit_push_bit_iff bit_ucast_iff)
  qed
qed simp

lemma le_bytes_round_trip:
  fixes w :: "'a::len word"
  assumes "8 dvd LENGTH('a)"
  shows "from_le_bytes (to_le_bytes w) = w"
proof (rule bit_word_eqI)
  fix n assume n: "n < LENGTH('a)"
  have "n div 8 < LENGTH('a) div 8"
    using n assms by (metis div_less_iff_less_mult dvd_div_mult_self zero_less_numeral)
  moreover have "n mod 8 + 8 * (n div 8) = n" by simp
  moreover have "n mod 8 < LENGTH(8)" by (simp only: len_num1 len_bit0 mod_less_divisor)
  ultimately show "bit (from_le_bytes (to_le_bytes w) :: 'a word) n = bit w n"
    using n by (simp add: bit_from_le_bytes to_le_bytes_def bit_ucast_iff bit_drop_bit_eq add.commute)
qed

lemma le_bytes_round_trip_u64 [simp]: "from_le_bytes (to_le_bytes w) = (w :: u64)"
  by (rule le_bytes_round_trip) simp

lemma le_bytes_round_trip_u32 [simp]: "from_le_bytes (to_le_bytes w) = (w :: u32)"
  by (rule le_bytes_round_trip) simp

lemma le_bytes_round_trip_u16 [simp]: "from_le_bytes (to_le_bytes w) = (w :: u16)"
  by (rule le_bytes_round_trip) simp

end
