(* ===== verification/Thread_Queue.thy ===== *)
theory Thread_Queue
  imports Slot_Table Ids Bytes
begin

text \<open>
  Threads and the thread queue, from \<^verbatim>\<open>src/src/core/task/thread.rs\<close> and the register file \<^emph>\<open>Context\<close> of
  \<^verbatim>\<open>task/context.rs\<close>. The constructors write the address of the exit handler to the top of the new kernel stack; that
  write is returned beside the thread as a pair of address and value. Addresses of kernel functions
  (entry points, trampolines, the exit handler) are link-time constants and are arguments here.
\<close>

section \<open>Threads\<close>

record cpu_context =
  ctx_rsp :: u64
  ctx_rbp :: u64
  ctx_rbx :: u64
  ctx_r12 :: u64
  ctx_r13 :: u64
  ctx_r14 :: u64
  ctx_r15 :: u64
  ctx_rdi :: u64
  ctx_rsi :: u64
  ctx_rip :: u64
  ctx_rflags :: u64

definition context_new :: cpu_context where
  "context_new = \<lparr>ctx_rsp = 0, ctx_rbp = 0, ctx_rbx = 0, ctx_r12 = 0, ctx_r13 = 0, ctx_r14 = 0, ctx_r15 = 0,
    ctx_rdi = 0, ctx_rsi = 0, ctx_rip = 0, ctx_rflags = 0\<rparr>"

record thread =
  t_id :: thread_id
  t_process_id :: process_id
  t_name_buf :: bytes
  t_name_len :: nat
  t_state :: thread_state
  t_context :: cpu_context
  t_kernel_stack :: u64
  t_kernel_stack_size :: u64
  t_user_entry :: u64
  t_user_stack :: u64
  t_fork_user_rflags :: u64
  t_fs_base :: u64
  t_in_syscall :: bool
  t_syscall_user_cr3 :: u64
  t_syscall_user_rip :: u64
  t_syscall_user_rsp :: u64
  t_syscall_user_rflags :: u64
  t_futex_timed_out :: bool
  t_pending_wakeup :: bool

definition stack_top_of :: "u64 \<Rightarrow> u64 \<Rightarrow> u64" where
  "stack_top_of kernel_stack stack_size = (kernel_stack + stack_size) AND NOT 0xF"

text \<open>The initial registers shared by the three constructors, and the write to the new stack.\<close>

definition initial_context :: "u64 \<Rightarrow> u64 \<Rightarrow> u64 \<Rightarrow> cpu_context" where
  "initial_context kernel_stack stack_size rip =
    (let stack_top = stack_top_of kernel_stack stack_size
     in context_new\<lparr>ctx_rsp := stack_top - 8, ctx_rbp := stack_top, ctx_rip := rip, ctx_rflags := 0x202\<rparr>)"

definition initial_stack_write :: "u64 \<Rightarrow> u64 \<Rightarrow> u64 \<Rightarrow> u64 \<times> u64" where
  "initial_stack_write kernel_stack stack_size exit_handler = (stack_top_of kernel_stack stack_size - 8, exit_handler)"

definition thread_new ::
  "u64 \<Rightarrow> process_id \<Rightarrow> bytes \<Rightarrow> u64 \<Rightarrow> u64 \<Rightarrow> u64 \<Rightarrow> u64 \<Rightarrow> thread \<times> u64 \<times> (u64 \<times> u64)" where
  "thread_new exit_handler pid name entry_point kernel_stack stack_size next =
    (let len = min (length name) 32; (tid, next') = thread_id_new next
     in (\<lparr>t_id = tid, t_process_id = pid,
          t_name_buf = overwrite_front (replicate 32 0) (take len name), t_name_len = len,
          t_state = TReady, t_context = initial_context kernel_stack stack_size entry_point,
          t_kernel_stack = kernel_stack, t_kernel_stack_size = stack_size, t_user_entry = 0, t_user_stack = 0,
          t_fork_user_rflags = 0, t_fs_base = 0, t_in_syscall = False, t_syscall_user_cr3 = 0,
          t_syscall_user_rip = 0, t_syscall_user_rsp = 0, t_syscall_user_rflags = 0,
          t_futex_timed_out = False, t_pending_wakeup = False\<rparr>,
         next', initial_stack_write kernel_stack stack_size exit_handler))"

definition thread_new_usermode ::
  "u64 \<Rightarrow> u64 \<Rightarrow> process_id \<Rightarrow> bytes \<Rightarrow> u64 \<Rightarrow> u64 \<Rightarrow> u64 \<Rightarrow> u64 \<Rightarrow> u64 \<Rightarrow> thread \<times> u64 \<times> (u64 \<times> u64)" where
  "thread_new_usermode exit_handler trampoline pid name user_entry user_stack kernel_stack stack_size next =
    (let len = min (length name) 32; (tid, next') = thread_id_new next
     in (\<lparr>t_id = tid, t_process_id = pid,
          t_name_buf = overwrite_front (replicate 32 0) (take len name), t_name_len = len,
          t_state = TReady, t_context = initial_context kernel_stack stack_size trampoline,
          t_kernel_stack = kernel_stack, t_kernel_stack_size = stack_size,
          t_user_entry = user_entry, t_user_stack = user_stack,
          t_fork_user_rflags = 0, t_fs_base = 0, t_in_syscall = False, t_syscall_user_cr3 = 0,
          t_syscall_user_rip = 0, t_syscall_user_rsp = 0, t_syscall_user_rflags = 0,
          t_futex_timed_out = False, t_pending_wakeup = False\<rparr>,
         next', initial_stack_write kernel_stack stack_size exit_handler))"

definition thread_new_fork_child ::
  "u64 \<Rightarrow> u64 \<Rightarrow> process_id \<Rightarrow> u64 \<Rightarrow> u64 \<Rightarrow> u64 \<Rightarrow> u64 \<Rightarrow> u64 \<Rightarrow> u64 \<Rightarrow> u64 \<Rightarrow> thread \<times> u64 \<times> (u64 \<times> u64)" where
  "thread_new_fork_child exit_handler trampoline pid user_rip user_rsp user_rflags fs_base kernel_stack stack_size next =
    (let (tid, next') = thread_id_new next
     in (\<lparr>t_id = tid, t_process_id = pid,
          t_name_buf = overwrite_front (replicate 32 0) (str_bytes ''fork''), t_name_len = 4,
          t_state = TReady, t_context = initial_context kernel_stack stack_size trampoline,
          t_kernel_stack = kernel_stack, t_kernel_stack_size = stack_size,
          t_user_entry = user_rip, t_user_stack = user_rsp,
          t_fork_user_rflags = user_rflags, t_fs_base = fs_base, t_in_syscall = False, t_syscall_user_cr3 = 0,
          t_syscall_user_rip = user_rip, t_syscall_user_rsp = user_rsp, t_syscall_user_rflags = user_rflags,
          t_futex_timed_out = False, t_pending_wakeup = False\<rparr>,
         next', initial_stack_write kernel_stack stack_size exit_handler))"

definition take_futex_timed_out :: "thread \<Rightarrow> bool \<times> thread" where
  "take_futex_timed_out t = (t_futex_timed_out t, t\<lparr>t_futex_timed_out := False\<rparr>)"

definition set_pending_wakeup :: "thread \<Rightarrow> thread" where
  "set_pending_wakeup t = t\<lparr>t_pending_wakeup := True\<rparr>"

definition take_pending_wakeup :: "thread \<Rightarrow> bool \<times> thread" where
  "take_pending_wakeup t = (t_pending_wakeup t, t\<lparr>t_pending_wakeup := False\<rparr>)"

definition kernel_stack_top :: "thread \<Rightarrow> u64" where
  "kernel_stack_top t = stack_top_of (t_kernel_stack t) (t_kernel_stack_size t)"

section \<open>The queue\<close>

record thread_queue =
  tq_threads :: "thread option list"
  tq_slot_generations :: "u64 list"
  tq_count :: u64

definition MAX_THREADS :: nat where "MAX_THREADS = 64"

definition thread_queue_new :: thread_queue where
  "thread_queue_new = \<lparr>tq_threads = replicate MAX_THREADS None,
    tq_slot_generations = replicate MAX_THREADS 0, tq_count = 0\<rparr>"

definition next_generation :: "u64 \<Rightarrow> u64" where
  "next_generation g = (if g + 1 = 0 then 1 else g + 1)"

definition thread_queue_push :: "thread_queue \<Rightarrow> thread \<Rightarrow> thread_id option \<times> thread_queue" where
  "thread_queue_push q t =
    (if of_nat MAX_THREADS \<le> tq_count q then (None, q)
     else case find_index (\<lambda>slot. slot = None) (tq_threads q) of
         Some i \<Rightarrow> (Some (t_id t), q\<lparr>tq_threads := (tq_threads q)[i := Some t],
           tq_slot_generations := (tq_slot_generations q)[i := next_generation (tq_slot_generations q ! i)],
           tq_count := tq_count q + 1\<rparr>)
       | None \<Rightarrow> (None, q))"

definition thread_queue_get :: "thread_queue \<Rightarrow> thread_id \<Rightarrow> thread option" where
  "thread_queue_get q tid = slot_find (\<lambda>t. t_id t = tid) (tq_threads q)"

definition thread_queue_modify :: "thread_queue \<Rightarrow> thread_id \<Rightarrow> (thread \<Rightarrow> thread) \<Rightarrow> thread_queue" where
  "thread_queue_modify q tid f = q\<lparr>tq_threads := slot_modify (\<lambda>t. t_id t = tid) f (tq_threads q)\<rparr>"

definition thread_queue_slot_index :: "thread_queue \<Rightarrow> thread_id \<Rightarrow> nat option" where
  "thread_queue_slot_index q tid =
    find_index (\<lambda>slot. case slot of Some t \<Rightarrow> t_id t = tid | None \<Rightarrow> False) (tq_threads q)"

definition slot_index_and_generation :: "thread_queue \<Rightarrow> thread_id \<Rightarrow> (nat \<times> u64) option" where
  "slot_index_and_generation q tid =
    map_option (\<lambda>i. (i, tq_slot_generations q ! i)) (thread_queue_slot_index q tid)"

definition thread_queue_remove :: "thread_queue \<Rightarrow> thread_id \<Rightarrow> thread option \<times> thread_queue" where
  "thread_queue_remove q tid =
    (case slot_take (\<lambda>t. t_id t = tid) (tq_threads q) of
       None \<Rightarrow> (None, q)
     | Some (t, ts) \<Rightarrow> (Some t, q\<lparr>tq_threads := ts, tq_count := tq_count q - 1\<rparr>))"

definition thread_queue_iter :: "thread_queue \<Rightarrow> thread list" where
  "thread_queue_iter q = live (tq_threads q)"

definition slot_is_ready :: "thread option \<Rightarrow> bool" where
  "slot_is_ready slot = (case slot of Some t \<Rightarrow> t_state t = TReady | None \<Rightarrow> False)"

text \<open>The slot of the thread that \<^emph>\<open>peek_next\<close> and \<^emph>\<open>peek_next_mut\<close> refer to.\<close>

definition peek_next :: "thread_queue \<Rightarrow> nat option" where
  "peek_next q = find_index slot_is_ready (tq_threads q)"

text \<open>The slots after the current one, then the ones up to and including it.\<close>

definition round_robin_order :: "nat \<Rightarrow> nat list" where
  "round_robin_order start = [start + 1..<MAX_THREADS] @ [0..<start + 1]"

definition peek_next_after :: "thread_queue \<Rightarrow> thread_id option \<Rightarrow> nat option" where
  "peek_next_after q current =
    (case current of
       None \<Rightarrow> peek_next q
     | Some c \<Rightarrow> (case thread_queue_slot_index q c of
           None \<Rightarrow> peek_next q
         | Some start \<Rightarrow> (case find (\<lambda>i. slot_is_ready (tq_threads q ! i)) (round_robin_order start) of
               Some i \<Rightarrow> Some i
             | None \<Rightarrow> peek_next q)))"

definition count_by_state :: "thread_queue \<Rightarrow> thread_state \<Rightarrow> nat" where
  "count_by_state q st = length (filter (\<lambda>t. t_state t = st) (thread_queue_iter q))"

definition thread_id_exists :: "thread_queue \<Rightarrow> u64 \<Rightarrow> bool" where
  "thread_id_exists q idv \<longleftrightarrow> (\<exists>t\<in>set (thread_queue_iter q). t_id t = idv)"

definition thread_to_process_id :: "thread_queue \<Rightarrow> u64 \<Rightarrow> process_id option" where
  "thread_to_process_id q idv = map_option t_process_id (thread_queue_get q idv)"

section \<open>Invariant\<close>

text \<open>
  As for processes, and no occupied slot has generation 0: a zero generation is never that of a live thread.
\<close>

definition thread_queue_wf :: "thread_queue \<Rightarrow> bool" where
  "thread_queue_wf q \<longleftrightarrow> length (tq_threads q) = MAX_THREADS \<and> length (tq_slot_generations q) = MAX_THREADS
    \<and> tq_count q = of_nat (occupied (tq_threads q)) \<and> keys_distinct t_id (tq_threads q)
    \<and> (\<forall>i < MAX_THREADS. tq_threads q ! i \<noteq> None \<longrightarrow> tq_slot_generations q ! i \<noteq> 0)"

lemma next_generation_nonzero: "next_generation g \<noteq> 0"
  by (simp add: next_generation_def)

lemma next_generation_fresh: "next_generation g \<noteq> g"
proof
  assume "next_generation g = g"
  then have "g = 1" "(1::u64) + 1 = 0" by (auto simp: next_generation_def split: if_splits)
  then show False by simp
qed

lemma tq_count_unat: "thread_queue_wf q \<Longrightarrow> unat (tq_count q) = occupied (tq_threads q)"
  by (simp add: thread_queue_wf_def MAX_THREADS_def unat_occupied)

lemma thread_queue_get_lookup: "thread_queue_get q = lookup t_id (tq_threads q)"
  by (auto simp: thread_queue_get_def lookup_def)

lemma thread_queue_full:
  assumes "thread_queue_wf q"
  shows "of_nat MAX_THREADS \<le> tq_count q \<longleftrightarrow> MAX_THREADS \<le> occupied (tq_threads q)"
  using tq_count_unat[OF assms] by (simp add: word_le_nat_alt MAX_THREADS_def)

lemma thread_queue_push_slot:
  assumes "thread_queue_wf q" "unat (tq_count q) < MAX_THREADS" "thread_queue_get q (t_id t) = None"
  shows "\<exists>i q'. thread_queue_push q t = (Some (t_id t), q') \<and> thread_queue_wf q'
    \<and> i < MAX_THREADS \<and> tq_threads q ! i = None \<and> tq_threads q' = (tq_threads q)[i := Some t]
    \<and> tq_slot_generations q' = (tq_slot_generations q)[i := next_generation (tq_slot_generations q ! i)]
    \<and> thread_queue_get q' = (thread_queue_get q)(t_id t \<mapsto> t)"
proof -
  have room: "occupied (tq_threads q) < length (tq_threads q)"
    using assms tq_count_unat by (simp add: thread_queue_wf_def)
  then have "find_index (\<lambda>slot. slot = None) (tq_threads q) \<noteq> None"
    using free_slot_exists[OF room] by (auto simp: find_index_None all_set_conv_all_nth)
  then obtain i where i: "find_index (\<lambda>slot. slot = None) (tq_threads q) = Some i" by blast
  then have free: "i < length (tq_threads q)" "tq_threads q ! i = None"
    by (auto simp: find_index_Some)
  let ?q = "q\<lparr>tq_threads := (tq_threads q)[i := Some t],
      tq_slot_generations := (tq_slot_generations q)[i := next_generation (tq_slot_generations q ! i)],
      tq_count := tq_count q + 1\<rparr>"
  have "thread_queue_push q t = (Some (t_id t), ?q)"
    using i assms thread_queue_full[OF assms(1)] tq_count_unat[OF assms(1)]
    by (simp add: thread_queue_push_def)
  moreover have "thread_queue_wf ?q"
    using assms free insert_slot(1)[of t_id _ i t] occupied_insert[OF free] next_generation_nonzero
    by (simp add: thread_queue_wf_def thread_queue_get_lookup nth_list_update)
  moreover have "thread_queue_get ?q = (thread_queue_get q)(t_id t \<mapsto> t)"
    using assms free insert_slot(2)[of t_id "tq_threads q" i t]
    by (simp add: thread_queue_wf_def thread_queue_get_lookup)
  ultimately show ?thesis using free assms(1) by (intro exI[of _ i] exI[of _ ?q]) (simp add: thread_queue_wf_def)
qed

lemma take_thread:
  assumes "thread_queue_wf q" "slot_take P (tq_threads q) = Some (t, ts)"
  shows "thread_queue_wf (q\<lparr>tq_threads := ts, tq_count := tq_count q - 1\<rparr>)"
    "lookup t_id ts = (thread_queue_get q)(t_id t := None)"
    "thread_queue_get q (t_id t) = Some t" "P t"
proof -
  obtain i where i: "i < length (tq_threads q)" "tq_threads q ! i = Some t" "ts = (tq_threads q)[i := None]"
    and occ: "Suc (occupied ts) = occupied (tq_threads q)" "length ts = length (tq_threads q)"
    and found: "slot_find P (tq_threads q) = Some t"
    using slot_take_Some[OF assms(2)] by blast
  have kd: "keys_distinct t_id (tq_threads q)" using assms(1) by (simp add: thread_queue_wf_def)
  have "tq_count q - 1 = of_nat (occupied ts)"
    using assms(1) occ(1)[symmetric] by (simp add: thread_queue_wf_def)
  moreover have "ts ! j \<noteq> None \<Longrightarrow> tq_threads q ! j \<noteq> None" for j
    using i by (auto simp: nth_list_update split: if_splits)
  ultimately show "thread_queue_wf (q\<lparr>tq_threads := ts, tq_count := tq_count q - 1\<rparr>)"
    using assms(1) occ(2) clear_slot(1)[OF kd i(1,2)] i(3) by (simp add: thread_queue_wf_def)
  show "lookup t_id ts = (thread_queue_get q)(t_id t := None)"
    using clear_slot(2)[OF kd i(1,2)] i(3) by (simp add: thread_queue_get_lookup)
  show "thread_queue_get q (t_id t) = Some t"
    using kd found by (auto simp: thread_queue_get_lookup lookup_Some_iff dest: slot_find_SomeD)
  show "P t" using found by (auto dest: slot_find_SomeD)
qed

lemma thread_queue_modify_wf:
  assumes "thread_queue_wf q" "\<forall>t. t_id (f t) = t_id t"
  shows "thread_queue_wf (thread_queue_modify q tid f)"
    "thread_queue_get (thread_queue_modify q tid f) = (thread_queue_get q)(tid := map_option f (thread_queue_get q tid))"
  using assms
  by (simp_all add: thread_queue_modify_def thread_queue_wf_def thread_queue_get_lookup lookup_modify nth_slot_modify_None)

interpretation thread_ids: id_table thread_queue_push thread_queue_get thread_queue_remove
  thread_queue_modify t_id "\<lambda>q. unat (tq_count q)" thread_queue_wf MAX_THREADS
proof
  fix q :: thread_queue and t v :: thread and k f
  show "thread_queue_get q k = Some v \<Longrightarrow> t_id v = k"
    unfolding thread_queue_get_lookup by (rule lookup_key)
  show "thread_queue_wf q \<Longrightarrow> finite (dom (thread_queue_get q))"
    by (simp add: thread_queue_get_lookup dom_lookup)
  show "thread_queue_wf q \<Longrightarrow> card (dom (thread_queue_get q)) = unat (tq_count q)"
    using tq_count_unat[of q] card_dom_lookup[of t_id "tq_threads q"]
    by (simp add: thread_queue_get_lookup thread_queue_wf_def)
  show "thread_queue_wf q \<Longrightarrow> unat (tq_count q) \<le> MAX_THREADS"
    using tq_count_unat[of q] occupied_le_length[of "tq_threads q"] by (simp add: thread_queue_wf_def)
  show "\<lbrakk>thread_queue_wf q; MAX_THREADS \<le> unat (tq_count q)\<rbrakk> \<Longrightarrow> thread_queue_push q v = (None, q)"
    using thread_queue_full[of q] tq_count_unat[of q] by (simp add: thread_queue_push_def)
  show "\<exists>q'. thread_queue_push q v = (Some (t_id v), q') \<and> thread_queue_wf q'
        \<and> thread_queue_get q' = (thread_queue_get q)(t_id v \<mapsto> v)"
    if "thread_queue_wf q" "unat (tq_count q) < MAX_THREADS" "thread_queue_get q (t_id v) = None"
    using thread_queue_push_slot[OF that] by blast
  show "\<exists>q'. thread_queue_remove q k = (thread_queue_get q k, q') \<and> thread_queue_wf q'
      \<and> thread_queue_get q' = (thread_queue_get q)(k := None)" if wf: "thread_queue_wf q"
  proof (cases "slot_take (\<lambda>t. t_id t = k) (tq_threads q)")
    case None
    then have "thread_queue_get q k = None" by (simp add: slot_take_None thread_queue_get_def)
    then show ?thesis using wf None by (auto simp: thread_queue_remove_def)
  next
    case (Some r)
    then obtain u ts where r: "slot_take (\<lambda>t. t_id t = k) (tq_threads q) = Some (u, ts)" by (cases r) auto
    note u = take_thread[OF wf r]
    show ?thesis using r u by (simp add: thread_queue_remove_def thread_queue_get_lookup)
  qed
  show "thread_queue_wf (thread_queue_modify q k f)
      \<and> thread_queue_get (thread_queue_modify q k f) =
        (thread_queue_get q)(k := map_option f (thread_queue_get q k))"
    if "thread_queue_wf q" "\<forall>v. t_id (f v) = t_id v"
    using thread_queue_modify_wf[OF that] by simp
qed

section \<open>Selection\<close>

lemma thread_queue_new_wf [simp]: "thread_queue_wf thread_queue_new"
  by (simp add: thread_queue_wf_def thread_queue_new_def table_simps)

lemma slot_index_Some:
  assumes "thread_queue_wf q" "thread_queue_slot_index q tid = Some i"
  shows "i < MAX_THREADS" "\<exists>t. tq_threads q ! i = Some t \<and> t_id t = tid \<and> thread_queue_get q tid = Some t"
proof -
  show i: "i < MAX_THREADS"
    using assms by (auto simp: thread_queue_slot_index_def find_index_Some thread_queue_wf_def)
  obtain t where t: "tq_threads q ! i = Some t" "t_id t = tid"
    using assms(2) by (auto simp: thread_queue_slot_index_def find_index_Some split: option.splits)
  moreover have "t \<in> set (live (tq_threads q))"
    using t i assms(1) by (auto simp: set_live thread_queue_wf_def) (metis nth_mem)
  ultimately show "\<exists>t. tq_threads q ! i = Some t \<and> t_id t = tid \<and> thread_queue_get q tid = Some t"
    using assms(1) by (auto simp: thread_queue_get_lookup thread_queue_wf_def lookup_Some_iff)
qed

lemma slot_index_None: "thread_queue_slot_index q tid = None \<longleftrightarrow> thread_queue_get q tid = None"
  by (auto simp: thread_queue_slot_index_def find_index_None thread_queue_get_def slot_find_None set_live
      split: option.splits)

lemma slot_unique:
  assumes "keys_distinct t_id ts" "i < length ts" "j < length ts" "ts ! i = Some t" "ts ! j = Some u" "t_id t = t_id u"
  shows "i = j"
proof (rule ccontr)
  assume ne: "i \<noteq> j"
  have l: "live (ts[i := None]) = live (take i ts) @ live (drop (Suc i) ts)"
    "live ts = live (take i ts) @ t # live (drop (Suc i) ts)"
    using live_update_split[OF assms(2), of None] live_split[OF assms(2)] assms(4) by simp_all
  have "(ts[i := None]) ! j = Some u" using ne assms(5) by simp
  then have "u \<in> set (live (ts[i := None]))"
    using assms(3) by (metis set_live nth_mem length_list_update)
  then show False using assms(1,6) l by (auto simp: keys_distinct_def)
qed

lemma thread_at_slot:
  assumes "thread_queue_wf q" "i < MAX_THREADS" "tq_threads q ! i = Some t"
  shows "thread_queue_get q (t_id t) = Some t" "thread_queue_slot_index q (t_id t) = Some i"
proof -
  have "t \<in> set (live (tq_threads q))"
    using assms by (metis set_live nth_mem thread_queue_wf_def)
  then show g: "thread_queue_get q (t_id t) = Some t"
    using assms(1) by (simp add: thread_queue_get_lookup thread_queue_wf_def lookup_Some_iff)
  then have "thread_queue_slot_index q (t_id t) \<noteq> None" by (simp add: slot_index_None)
  then obtain j where j: "thread_queue_slot_index q (t_id t) = Some j" by blast
  then show "thread_queue_slot_index q (t_id t) = Some i"
    using slot_index_Some[OF assms(1) j] slot_unique[of "tq_threads q" i j] assms
    by (auto simp: thread_queue_wf_def)
qed

lemma peek_next_Some: "peek_next q = Some i \<Longrightarrow> i < length (tq_threads q) \<and> slot_is_ready (tq_threads q ! i)"
  by (simp add: peek_next_def find_index_Some)

lemma set_round_robin_order: "s < MAX_THREADS \<Longrightarrow> set (round_robin_order s) = {0..<MAX_THREADS}"
  by (auto simp: round_robin_order_def)

lemma peek_next_after_Some:
  assumes "thread_queue_wf q" "peek_next_after q c = Some i"
  shows "i < MAX_THREADS" "slot_is_ready (tq_threads q ! i)"
proof -
  have len: "length (tq_threads q) = MAX_THREADS" using assms(1) by (simp add: thread_queue_wf_def)
  have "i < MAX_THREADS \<and> slot_is_ready (tq_threads q ! i)"
  proof (cases "peek_next q = Some i")
    case True
    then show ?thesis using peek_next_Some len by metis
  next
    case False
    then obtain c' s where cs: "c = Some c'" "thread_queue_slot_index q c' = Some s"
      "find (\<lambda>i. slot_is_ready (tq_threads q ! i)) (round_robin_order s) = Some i"
      using assms(2) by (auto simp: peek_next_after_def split: option.splits)
    then show ?thesis
      using slot_index_Some(1)[OF assms(1) cs(2)] set_round_robin_order[of s]
      by (auto simp: find_Some_iff)
  qed
  then show "i < MAX_THREADS" "slot_is_ready (tq_threads q ! i)" by simp_all
qed

lemma peek_next_after_None:
  assumes "peek_next_after q c = None"
  shows "i < length (tq_threads q) \<Longrightarrow> \<not> slot_is_ready (tq_threads q ! i)"
proof -
  have "peek_next q = None"
    using assms by (auto simp: peek_next_after_def split: option.splits)
  then show "i < length (tq_threads q) \<Longrightarrow> \<not> slot_is_ready (tq_threads q ! i)"
    by (auto simp: peek_next_def find_index_None)
qed

section \<open>Round robin\<close>

text \<open>How many slots after slot \<^emph>\<open>s\<close> comes slot \<^emph>\<open>j\<close>, counting the next slot as 0 and \<^emph>\<open>s\<close> itself as 63.\<close>

definition rr_distance :: "nat \<Rightarrow> nat \<Rightarrow> nat" where
  "rr_distance s j = (if s < j then j - s - 1 else j + MAX_THREADS - s - 1)"

lemma nth_round_robin_order:
  "\<lbrakk>s < MAX_THREADS; j < MAX_THREADS\<rbrakk> \<Longrightarrow>
    rr_distance s j < length (round_robin_order s) \<and> round_robin_order s ! rr_distance s j = j"
  by (auto simp: round_robin_order_def rr_distance_def nth_append)

lemma rr_distance_nth:
  "\<lbrakk>s < MAX_THREADS; n < length (round_robin_order s)\<rbrakk> \<Longrightarrow> rr_distance s (round_robin_order s ! n) = n"
  by (auto simp: round_robin_order_def rr_distance_def nth_append)

text \<open>The thread chosen is the nearest ready one after the current slot.\<close>

lemma peek_next_after_nearest:
  assumes wf: "thread_queue_wf q" and s: "thread_queue_slot_index q c = Some s"
    and i: "peek_next_after q (Some c) = Some i" and j: "j < MAX_THREADS" "slot_is_ready (tq_threads q ! j)"
  shows "rr_distance s i \<le> rr_distance s j"
proof -
  have slt: "s < MAX_THREADS" by (rule slot_index_Some(1)[OF wf s])
  let ?P = "\<lambda>i. slot_is_ready (tq_threads q ! i)"
  have "find ?P (round_robin_order s) \<noteq> None"
    using j set_round_robin_order[OF slt] by (auto simp: find_None_iff)
  then have "find ?P (round_robin_order s) = Some i"
    using i s by (auto simp: peek_next_after_def)
  then obtain n where n: "n < length (round_robin_order s)" "i = round_robin_order s ! n"
    "\<forall>m < n. \<not> ?P (round_robin_order s ! m)"
    by (auto simp: find_Some_iff)
  have "\<not> rr_distance s j < n"
    using n(3) nth_round_robin_order[OF slt j(1)] j(2) by auto
  then show ?thesis using rr_distance_nth[OF slt n(1)] n(2) by simp
qed

text \<open>Moving on to the chosen slot brings every other ready slot nearer.\<close>

lemma rr_distance_decreases:
  assumes "s < MAX_THREADS" "i < MAX_THREADS" "j < MAX_THREADS" "i \<noteq> j" "rr_distance s i \<le> rr_distance s j"
  shows "rr_distance i j < rr_distance s j"
  using assms by (auto simp: rr_distance_def split: if_splits)

lemma rr_distance_bound: "\<lbrakk>s < MAX_THREADS; j < MAX_THREADS\<rbrakk> \<Longrightarrow> rr_distance s j < MAX_THREADS"
  by (auto simp: rr_distance_def)

section \<open>Properties\<close>

text \<open>
  C34. Adding a thread takes a free slot and gives that slot a generation different from its previous one and
  from 0, and leaves every other slot and generation alone: a slot number and generation recorded before a slot is
  freed do not name the thread that takes the slot next.
\<close>

theorem push_renews_generation:
  assumes wf: "thread_queue_wf q" and room: "unat (tq_count q) < MAX_THREADS"
    and fresh: "thread_queue_get q (t_id t) = None"
  shows "\<exists>i g q'. thread_queue_push q t = (Some (t_id t), q') \<and> thread_queue_wf q'
    \<and> tq_threads q ! i = None \<and> slot_index_and_generation q' (t_id t) = Some (i, g)
    \<and> g \<noteq> 0 \<and> g \<noteq> tq_slot_generations q ! i
    \<and> (\<forall>tid. tid \<noteq> t_id t \<longrightarrow> slot_index_and_generation q' tid = slot_index_and_generation q tid)"
proof -
  obtain i q' where p: "thread_queue_push q t = (Some (t_id t), q')" "thread_queue_wf q'" "i < MAX_THREADS"
    "tq_threads q ! i = None" "tq_threads q' = (tq_threads q)[i := Some t]"
    "tq_slot_generations q' = (tq_slot_generations q)[i := next_generation (tq_slot_generations q ! i)]"
    "thread_queue_get q' = (thread_queue_get q)(t_id t \<mapsto> t)"
    using thread_queue_push_slot[OF wf room fresh] by blast
  have len: "length (tq_threads q) = MAX_THREADS" "length (tq_slot_generations q) = MAX_THREADS"
    using wf by (simp_all add: thread_queue_wf_def)
  have own: "thread_queue_slot_index q' (t_id t) = Some i"
    using thread_at_slot(2)[OF p(2,3)] p(3,5) len by simp
  have other: "thread_queue_slot_index q' tid = thread_queue_slot_index q tid \<and>
      (\<forall>j. thread_queue_slot_index q tid = Some j \<longrightarrow> j \<noteq> i)" if ne: "tid \<noteq> t_id t" for tid
  proof (cases "thread_queue_slot_index q tid")
    case None
    then have "thread_queue_get q' tid = None" using ne p(7) by (simp add: slot_index_None)
    then show ?thesis using None by (simp flip: slot_index_None)
  next
    case (Some j)
    obtain u where u: "tq_threads q ! j = Some u" "t_id u = tid" using slot_index_Some(2)[OF wf Some] by blast
    have "j \<noteq> i" using u p(4) by auto
    then show ?thesis
      using thread_at_slot(2)[OF p(2) slot_index_Some(1)[OF wf Some], of u] u p(5) Some by simp
  qed
  show ?thesis
  proof (intro exI conjI allI impI)
    show "slot_index_and_generation q' (t_id t) = Some (i, next_generation (tq_slot_generations q ! i))"
      using own p(3,6) len by (simp add: slot_index_and_generation_def)
    show "slot_index_and_generation q' tid = slot_index_and_generation q tid" if "tid \<noteq> t_id t" for tid
      using other[OF that] p(6)
      by (cases "thread_queue_slot_index q tid") (auto simp: slot_index_and_generation_def)
  qed (use p next_generation_nonzero next_generation_fresh in simp_all)
qed

theorem push_renews_generation_witness:
  "\<exists>i g q'. thread_queue_push thread_queue_new (fst (thread_new 0 1 [] 0x1000 0x8000 0x4000 5)) = (Some 5, q')
    \<and> slot_index_and_generation q' 5 = Some (i, g) \<and> g \<noteq> 0"
proof -
  let ?t = "fst (thread_new 0 1 [] 0x1000 0x8000 0x4000 5)"
  have "t_id ?t = 5" by (simp add: thread_new_def thread_id_new_def)
  moreover have "unat (tq_count thread_queue_new) < MAX_THREADS" "thread_queue_get thread_queue_new (t_id ?t) = None"
    by (simp_all add: thread_queue_new_def MAX_THREADS_def thread_queue_get_lookup)
  ultimately show ?thesis
    using push_renews_generation[OF thread_queue_new_wf, of ?t] by auto
qed

end
