(* ===== verification/Signal_State.thy ===== *)
theory Signal_State
  imports Prelude
begin

text \<open>
  Signal state of a process, from \<^verbatim>\<open>src/src/core/task/signal.rs\<close>: the action table, the mask of
  blocked signals and the bitmap of pending ones. Bit \<^emph>\<open>i\<close> stands for signal \<^emph>\<open>i + 1\<close>.
\<close>

definition SIG_DFL :: u64 where "SIG_DFL = 0"
definition SIG_IGN :: u64 where "SIG_IGN = 1"

definition SIGHUP :: nat where "SIGHUP = 1"
definition SIGINT :: nat where "SIGINT = 2"
definition SIGQUIT :: nat where "SIGQUIT = 3"
definition SIGKILL :: nat where "SIGKILL = 9"
definition SIGTERM :: nat where "SIGTERM = 15"
definition SIGCHLD :: nat where "SIGCHLD = 17"
definition SIGCONT :: nat where "SIGCONT = 18"
definition SIGSTOP :: nat where "SIGSTOP = 19"
definition SIGTSTP :: nat where "SIGTSTP = 20"
definition SIGTTIN :: nat where "SIGTTIN = 21"
definition SIGTTOU :: nat where "SIGTTOU = 22"
definition SIGWINCH :: nat where "SIGWINCH = 28"

definition USER_SIGRETURN_STUB_OFFSET :: u64 where "USER_SIGRETURN_STUB_OFFSET = 0x2000"
definition SIGNAL_FRAME_MAGIC :: u64 where "SIGNAL_FRAME_MAGIC = 0x6d6f6368695f7367"

lemmas signal_number_defs = SIGHUP_def SIGINT_def SIGQUIT_def SIGKILL_def SIGTERM_def SIGCHLD_def
  SIGCONT_def SIGSTOP_def SIGTSTP_def SIGTTIN_def SIGTTOU_def SIGWINCH_def

datatype default_action_kind = Terminate | Ignore

definition default_action :: "nat \<Rightarrow> default_action_kind" where
  "default_action sig =
    (if sig = SIGCHLD \<or> sig = SIGCONT \<or> sig = SIGWINCH then Ignore
     else if sig = SIGSTOP \<or> sig = SIGTSTP \<or> sig = SIGTTIN \<or> sig = SIGTTOU then Ignore
     else Terminate)"

record sig_action =
  sa_handler :: u64
  sa_flags :: u64
  sa_restorer :: u64
  sa_mask :: u64

definition sig_action_default :: sig_action where
  "sig_action_default = \<lparr>sa_handler = SIG_DFL, sa_flags = 0, sa_restorer = 0, sa_mask = 0\<rparr>"

definition is_default :: "sig_action \<Rightarrow> bool" where
  "is_default a \<longleftrightarrow> sa_handler a = SIG_DFL"

definition is_ignored :: "sig_action \<Rightarrow> bool" where
  "is_ignored a \<longleftrightarrow> sa_handler a = SIG_IGN"

definition has_user_handler :: "sig_action \<Rightarrow> bool" where
  "has_user_handler a \<longleftrightarrow> sa_handler a > SIG_IGN"

definition sigreturn_stub_addr :: "u64 \<Rightarrow> u64 option" where
  "sigreturn_stub_addr stack_top = checked_add stack_top USER_SIGRETURN_STUB_OFFSET"

record signal_state =
  ss_actions :: "sig_action list"
  ss_mask :: u64
  ss_pending :: u64

definition signal_state_new :: signal_state where
  "signal_state_new = \<lparr>ss_actions = replicate 64 sig_action_default, ss_mask = 0, ss_pending = 0\<rparr>"

definition set_pending :: "nat \<Rightarrow> signal_state \<Rightarrow> signal_state" where
  "set_pending sig s =
    (if 1 \<le> sig \<and> sig \<le> 64 then s\<lparr>ss_pending := ss_pending s OR push_bit (sig - 1) 1\<rparr> else s)"

text \<open>\<^emph>\<open>u64::trailing_zeros\<close>: the position of the lowest set bit, 64 for the zero word.\<close>

definition trailing_zeros :: "u64 \<Rightarrow> nat" where
  "trailing_zeros w = length (takeWhile (\<lambda>i. \<not> bit w i) [0..<64])"

definition take_next_deliverable :: "signal_state \<Rightarrow> nat option \<times> signal_state" where
  "take_next_deliverable s =
    (let deliverable = ss_pending s AND NOT (ss_mask s)
     in if deliverable = 0 then (None, s)
        else let b = trailing_zeros deliverable
             in (Some (b + 1), s\<lparr>ss_pending := ss_pending s AND NOT (push_bit b 1)\<rparr>))"

definition signal_action :: "signal_state \<Rightarrow> nat \<Rightarrow> sig_action" where
  "signal_action s sig =
    (if 1 \<le> sig \<and> sig \<le> 64 then ss_actions s ! (sig - 1) else sig_action_default)"

definition signal_set_action :: "nat \<Rightarrow> sig_action \<Rightarrow> signal_state \<Rightarrow> signal_state" where
  "signal_set_action sig a s =
    (if 1 \<le> sig \<and> sig \<le> 64 then s\<lparr>ss_actions := (ss_actions s)[sig - 1 := a]\<rparr> else s)"

section \<open>Readings of the bitmaps\<close>

text \<open>The signals a bitmap stands for.\<close>

definition signals_in :: "u64 \<Rightarrow> nat set" where
  "signals_in w = {sig. 1 \<le> sig \<and> sig \<le> 64 \<and> bit w (sig - 1)}"

definition deliverable_signals :: "signal_state \<Rightarrow> nat set" where
  "deliverable_signals s = signals_in (ss_pending s) - signals_in (ss_mask s)"

text \<open>The action table has 64 entries, so no access to it is out of bounds.\<close>

definition signal_state_wf :: "signal_state \<Rightarrow> bool" where
  "signal_state_wf s \<longleftrightarrow> length (ss_actions s) = 64"

lemma signal_state_wf_simps [simp]:
  "signal_state_wf signal_state_new"
  "signal_state_wf (set_pending sig s) = signal_state_wf s"
  "signal_state_wf (signal_set_action sig a s) = signal_state_wf s"
  "signal_state_wf (snd (take_next_deliverable s)) = signal_state_wf s"
  "signal_state_wf (s\<lparr>ss_mask := m\<rparr>) = signal_state_wf s"
  "signal_state_wf (s\<lparr>ss_pending := m\<rparr>) = signal_state_wf s"
  by (simp_all add: signal_state_wf_def signal_state_new_def set_pending_def signal_set_action_def
      take_next_deliverable_def Let_def)

lemma signals_in_AND_NOT: "signals_in (a AND NOT b) = signals_in a - signals_in b"
  by (auto simp: signals_in_def bit_and_iff bit_not_iff)

lemma signals_in_OR: "signals_in (a OR b) = signals_in a \<union> signals_in b"
  by (auto simp: signals_in_def bit_or_iff)

lemma signals_in_single: "b < 64 \<Longrightarrow> signals_in (2 ^ b) = {Suc b}"
  by (auto simp: signals_in_def bit_exp_iff possible_bit_word)

lemma signals_in_eq: "signals_in a = signals_in b \<longleftrightarrow> a = b"
proof
  assume eq: "signals_in a = signals_in b"
  show "a = b"
  proof (rule bit_word_eqI)
    fix n assume "n < LENGTH(64)"
    then have "(Suc n \<in> signals_in a) = bit a n" "(Suc n \<in> signals_in b) = bit b n"
      by (simp_all add: signals_in_def)
    then show "bit a n = bit b n" using eq by simp
  qed
qed simp

lemma signals_in_empty: "signals_in w = {} \<longleftrightarrow> w = 0"
proof -
  have "signals_in 0 = {}" by (simp add: signals_in_def)
  then show ?thesis using signals_in_eq[of w 0] by simp
qed

lemma trailing_zeros_spec:
  assumes "w \<noteq> 0"
  shows "trailing_zeros w < 64" "bit w (trailing_zeros w)" "\<And>i. i < trailing_zeros w \<Longrightarrow> \<not> bit w i"
proof -
  let ?P = "\<lambda>i. \<not> bit w i" and ?tz = "length (takeWhile (\<lambda>i. \<not> bit w i) [0..<64])"
  obtain n where n: "n < 64" "bit w n"
    using assms bit_word_eqI[of w 0] by auto
  have "takeWhile ?P [0..<64] \<noteq> [0..<64]"
    using n by (auto simp: takeWhile_eq_all_conv)
  moreover have "?tz \<le> 64" using length_takeWhile_le[of ?P "[0..<64]"] by simp
  ultimately show lt: "trailing_zeros w < 64"
    unfolding trailing_zeros_def
    by (metis diff_zero le_neq_implies_less length_upt takeWhile_eq_take take_all order_refl)
  then show "bit w (trailing_zeros w)"
    using nth_length_takeWhile[of ?P "[0..<64]"] by (simp add: trailing_zeros_def)
  show "\<not> bit w i" if "i < trailing_zeros w" for i
  proof -
    have "takeWhile ?P [0..<64] ! i = i"
      using that lt takeWhile_nth[of i ?P "[0..<64]"] by (simp add: trailing_zeros_def)
    then have "i \<in> set (takeWhile ?P [0..<64])"
      using that by (metis nth_mem trailing_zeros_def)
    then show ?thesis by (auto dest: set_takeWhileD)
  qed
qed

section \<open>Properties\<close>

text \<open>
  C38. Delivery of pending signals: \<^emph>\<open>take_next_deliverable\<close> returns the lowest-numbered signal that
  is pending and not blocked, removes exactly that signal from the pending set and changes nothing
  else; it returns nothing only when every pending signal is blocked.
\<close>

theorem take_next_deliverable_lowest:
  "case take_next_deliverable s of
     (None, s') \<Rightarrow> deliverable_signals s = {} \<and> s' = s
   | (Some sig, s') \<Rightarrow> sig \<in> deliverable_signals s
       \<and> sig = Min (deliverable_signals s)
       \<and> signals_in (ss_pending s') = signals_in (ss_pending s) - {sig}
       \<and> ss_mask s' = ss_mask s \<and> ss_actions s' = ss_actions s"
proof -
  define d where "d = ss_pending s AND NOT (ss_mask s)"
  have dset: "deliverable_signals s = signals_in d"
    by (simp add: d_def deliverable_signals_def signals_in_AND_NOT)
  show ?thesis
  proof (cases "d = 0")
    case True
    then show ?thesis by (simp add: take_next_deliverable_def d_def[symmetric] dset signals_in_empty)
  next
    case False
    note tz = trailing_zeros_spec[OF False]
    let ?sig = "trailing_zeros d + 1"
    have mem: "?sig \<in> signals_in d" using tz by (simp add: signals_in_def)
    have min: "Min (signals_in d) = ?sig"
    proof (rule Min_eqI)
      show "finite (signals_in d)"
        by (rule finite_subset[of _ "{..64}"]) (auto simp: signals_in_def)
      fix y assume "y \<in> signals_in d"
      then show "?sig \<le> y" using tz(3)[of "y - 1"] by (cases y) (auto simp: signals_in_def not_less[symmetric])
    qed (fact mem)
    have "signals_in (ss_pending s AND NOT (push_bit (trailing_zeros d) 1)) =
        signals_in (ss_pending s) - {?sig}"
      using tz(1) by (simp add: signals_in_AND_NOT signals_in_single)
    then show ?thesis
      using False mem min by (simp add: take_next_deliverable_def d_def[symmetric] dset Let_def)
  qed
qed

text \<open>
  Remark. \<^emph>\<open>set_pending\<close> adds exactly the signal it is given and ignores a number outside 1 to 64, and an
  installed action is what \<^emph>\<open>action\<close> returns for that signal and for no other.
\<close>

theorem signal_tables_update:
  assumes "signal_state_wf s"
  shows "signals_in (ss_pending (set_pending sig s)) =
      (if 1 \<le> sig \<and> sig \<le> 64 then insert sig (signals_in (ss_pending s)) else signals_in (ss_pending s))
    \<and> signal_action (signal_set_action sig a s) other =
      (if other = sig \<and> 1 \<le> sig \<and> sig \<le> 64 then a else signal_action s other)"
proof
  show "signals_in (ss_pending (set_pending sig s)) =
      (if 1 \<le> sig \<and> sig \<le> 64 then insert sig (signals_in (ss_pending s)) else signals_in (ss_pending s))"
    using signals_in_single[of "sig - 1"] by (auto simp: set_pending_def signals_in_OR)
  have "1 \<le> sig \<Longrightarrow> 1 \<le> other \<Longrightarrow> other - 1 = sig - 1 \<longleftrightarrow> other = sig" by auto
  then show "signal_action (signal_set_action sig a s) other =
      (if other = sig \<and> 1 \<le> sig \<and> sig \<le> 64 then a else signal_action s other)"
    using assms by (auto simp: signal_action_def signal_set_action_def signal_state_wf_def nth_list_update)
qed

theorem signal_tables_update_witness:
  "signals_in (ss_pending (set_pending 9 signal_state_new)) = {9}
   \<and> signal_action (signal_set_action 15 \<lparr>sa_handler = 0x401000, sa_flags = 0, sa_restorer = 0, sa_mask = 0\<rparr>
       signal_state_new) 15 = \<lparr>sa_handler = 0x401000, sa_flags = 0, sa_restorer = 0, sa_mask = 0\<rparr>"
  using signal_tables_update[of signal_state_new 9
      "\<lparr>sa_handler = 0x401000, sa_flags = 0, sa_restorer = 0, sa_mask = 0\<rparr>" 15]
    signal_tables_update[of signal_state_new 15
      "\<lparr>sa_handler = 0x401000, sa_flags = 0, sa_restorer = 0, sa_mask = 0\<rparr>" 15]
  by (simp add: signals_in_empty[THEN iffD2] signal_state_new_def[THEN arg_cong[of _ _ ss_pending]])

end
