(* ===== verification/Fd_Table.thy ===== *)
theory Fd_Table
  imports Bytes
begin

text \<open>
  The per-process descriptor table of \<^verbatim>\<open>src/src/core/task/fd_table.rs\<close>. An entry of the source is a raw
  pointer owned by the table, 0 when free; it is an optional handle here. The shared counter
  \<^emph>\<open>Arc<AtomicUsize>\<close> of a remote handle is a key into an explicit store of counters, and the store also logs
  the close requests that dropping a handle sends to the file-system service.
\<close>

section \<open>Handles and the counters they share\<close>

definition FD_BASE :: nat where "FD_BASE = 3"
definition PROCESS_MAX_FDS :: nat where "PROCESS_MAX_FDS = 256"
definition FD_CLOEXEC :: u8 where "FD_CLOEXEC = 1"
definition O_CLOEXEC :: u64 where "O_CLOEXEC = 0x80000"

record file_handle =
  fh_data :: bytes
  fh_pos :: nat
  fh_dir_path :: "bytes option"
  fh_is_remote :: bool
  fh_fd_remote :: u64
  fh_remote_refs :: "nat option"
  fh_pipe_id :: "nat option"
  fh_pipe_write :: bool
  fh_open_flags :: u64

definition new_pipe_read :: "nat \<Rightarrow> file_handle" where
  "new_pipe_read pid = \<lparr>fh_data = [], fh_pos = 0, fh_dir_path = None, fh_is_remote = False, fh_fd_remote = 0,
    fh_remote_refs = None, fh_pipe_id = Some pid, fh_pipe_write = False, fh_open_flags = 0\<rparr>"

definition new_pipe_write :: "nat \<Rightarrow> file_handle" where
  "new_pipe_write pid = \<lparr>fh_data = [], fh_pos = 0, fh_dir_path = None, fh_is_remote = False, fh_fd_remote = 0,
    fh_remote_refs = None, fh_pipe_id = Some pid, fh_pipe_write = True, fh_open_flags = 1\<rparr>"

record remote_state =
  rs_counter :: "nat \<Rightarrow> u64"
  rs_closed :: "u64 list"

definition close_remote_fd_from_kernel :: "u64 \<Rightarrow> remote_state \<Rightarrow> remote_state" where
  "close_remote_fd_from_kernel fd r = r\<lparr>rs_closed := rs_closed r @ [fd]\<rparr>"

definition clone_remote_refs :: "file_handle \<Rightarrow> remote_state \<Rightarrow> nat option \<times> remote_state" where
  "clone_remote_refs h r =
    (if \<not> fh_is_remote h then (None, r)
     else case fh_remote_refs h of
         None \<Rightarrow> (None, r)
       | Some k \<Rightarrow> (Some k, r\<lparr>rs_counter := (rs_counter r)(k := rs_counter r k + 1)\<rparr>))"

definition file_handle_drop :: "file_handle \<Rightarrow> remote_state \<Rightarrow> remote_state" where
  "file_handle_drop h r =
    (if \<not> fh_is_remote h then r
     else case fh_remote_refs h of
         Some k \<Rightarrow>
           let old = rs_counter r k; r' = r\<lparr>rs_counter := (rs_counter r)(k := old - 1)\<rparr>
           in if old = 1 then close_remote_fd_from_kernel (fh_fd_remote h) r' else r'
       | None \<Rightarrow> close_remote_fd_from_kernel (fh_fd_remote h) r)"

section \<open>The table\<close>

record fd_table =
  fd_entries :: "file_handle option list"
  fd_flags :: "u8 list"

definition fd_table_new :: fd_table where
  "fd_table_new = \<lparr>fd_entries = replicate PROCESS_MAX_FDS None, fd_flags = replicate PROCESS_MAX_FDS 0\<rparr>"

fun fd_first_free :: "fd_table \<Rightarrow> nat list \<Rightarrow> nat option" where
  "fd_first_free t [] = None"
| "fd_first_free t (i # is) = (if fd_entries t ! i = None then Some i else fd_first_free t is)"

definition fd_alloc ::
  "file_handle \<Rightarrow> bool \<Rightarrow> fd_table \<Rightarrow> remote_state \<Rightarrow> nat option \<times> fd_table \<times> remote_state" where
  "fd_alloc h cloexec t r =
    (case fd_first_free t [FD_BASE..<PROCESS_MAX_FDS] of
       Some i \<Rightarrow> (Some i, t\<lparr>fd_entries := (fd_entries t)[i := Some h],
                           fd_flags := (fd_flags t)[i := if cloexec then FD_CLOEXEC else 0]\<rparr>, r)
     | None \<Rightarrow> (None, t, file_handle_drop h r))"

definition fd_get :: "fd_table \<Rightarrow> nat \<Rightarrow> file_handle option" where
  "fd_get t fd = (if fd < FD_BASE \<or> PROCESS_MAX_FDS \<le> fd then None else fd_entries t ! fd)"

text \<open>A write through the reference that \<^emph>\<open>get_mut\<close> returns.\<close>

definition fd_modify :: "nat \<Rightarrow> (file_handle \<Rightarrow> file_handle) \<Rightarrow> fd_table \<Rightarrow> fd_table" where
  "fd_modify fd f t =
    (case fd_get t fd of
       None \<Rightarrow> t
     | Some h \<Rightarrow> t\<lparr>fd_entries := (fd_entries t)[fd := Some (f h)]\<rparr>)"

definition fd_take :: "nat \<Rightarrow> fd_table \<Rightarrow> file_handle option \<times> fd_table" where
  "fd_take fd t =
    (if fd < FD_BASE \<or> PROCESS_MAX_FDS \<le> fd then (None, t)
     else case fd_entries t ! fd of
         None \<Rightarrow> (None, t)
       | Some h \<Rightarrow> (Some h, t\<lparr>fd_entries := (fd_entries t)[fd := None], fd_flags := (fd_flags t)[fd := 0]\<rparr>))"

definition fd_close :: "nat \<Rightarrow> fd_table \<Rightarrow> remote_state \<Rightarrow> bool \<times> fd_table \<times> remote_state" where
  "fd_close fd t r =
    (case fd_take fd t of
       (None, t') \<Rightarrow> (False, t', r)
     | (Some h, t') \<Rightarrow> (True, t', file_handle_drop h r))"

definition close_cloexec_step :: "nat \<Rightarrow> fd_table \<times> remote_state \<Rightarrow> fd_table \<times> remote_state" where
  "close_cloexec_step i = (\<lambda>(t, r).
    case fd_entries t ! i of
      None \<Rightarrow> (t, r)
    | Some h \<Rightarrow>
        if fd_flags t ! i AND FD_CLOEXEC \<noteq> 0
        then (t\<lparr>fd_entries := (fd_entries t)[i := None], fd_flags := (fd_flags t)[i := 0]\<rparr>, file_handle_drop h r)
        else (t, r))"

definition close_cloexec_fds :: "fd_table \<Rightarrow> remote_state \<Rightarrow> fd_table \<times> remote_state" where
  "close_cloexec_fds t r = fold close_cloexec_step [FD_BASE..<PROCESS_MAX_FDS] (t, r)"

definition close_all_step :: "nat \<Rightarrow> fd_table \<times> remote_state \<Rightarrow> fd_table \<times> remote_state" where
  "close_all_step i = (\<lambda>(t, r).
    case fd_entries t ! i of
      None \<Rightarrow> (t, r)
    | Some h \<Rightarrow> (t\<lparr>fd_entries := (fd_entries t)[i := None]\<rparr>, file_handle_drop h r))"

definition close_all :: "fd_table \<Rightarrow> remote_state \<Rightarrow> fd_table \<times> remote_state" where
  "close_all t r = fold close_all_step [FD_BASE..<PROCESS_MAX_FDS] (t, r)"

definition clone_step :: "fd_table \<Rightarrow> nat \<Rightarrow> fd_table \<times> remote_state \<Rightarrow> fd_table \<times> remote_state" where
  "clone_step t i = (\<lambda>(t', r).
    case fd_entries t ! i of
      None \<Rightarrow> (t', r)
    | Some h \<Rightarrow>
        let (refs, r') = clone_remote_refs h r
        in (t'\<lparr>fd_entries := (fd_entries t')[i := Some (h\<lparr>fh_remote_refs := refs\<rparr>)],
               fd_flags := (fd_flags t')[i := fd_flags t ! i]\<rparr>, r'))"

definition clone_for_fork :: "fd_table \<Rightarrow> remote_state \<Rightarrow> fd_table \<times> remote_state" where
  "clone_for_fork t r = fold (clone_step t) [FD_BASE..<PROCESS_MAX_FDS] (fd_table_new, r)"

definition fd_get_flags :: "fd_table \<Rightarrow> nat \<Rightarrow> u8 option" where
  "fd_get_flags t fd =
    (if fd < FD_BASE \<or> PROCESS_MAX_FDS \<le> fd then None
     else if fd_entries t ! fd = None then None
     else Some (fd_flags t ! fd))"

definition fd_set_flags :: "nat \<Rightarrow> u8 \<Rightarrow> fd_table \<Rightarrow> bool \<times> fd_table" where
  "fd_set_flags fd fl t =
    (if fd < FD_BASE \<or> PROCESS_MAX_FDS \<le> fd then (False, t)
     else if fd_entries t ! fd = None then (False, t)
     else (True, t\<lparr>fd_flags := (fd_flags t)[fd := fl]\<rparr>))"

section \<open>Invariant\<close>

text \<open>Both arrays have their full size and the three standard descriptors are never table entries.\<close>

definition fd_wf :: "fd_table \<Rightarrow> bool" where
  "fd_wf t \<longleftrightarrow> length (fd_entries t) = PROCESS_MAX_FDS \<and> length (fd_flags t) = PROCESS_MAX_FDS
    \<and> (\<forall>i < FD_BASE. fd_entries t ! i = None)"

lemmas fd_const_defs = FD_BASE_def PROCESS_MAX_FDS_def

lemma fd_range_Cons: "[FD_BASE..<PROCESS_MAX_FDS] = FD_BASE # [Suc FD_BASE..<PROCESS_MAX_FDS]"
  by (rule upt_conv_Cons) (simp add: fd_const_defs)

lemma fd_range_length: "length [FD_BASE..<PROCESS_MAX_FDS] = 253"
  by (simp only: length_upt fd_const_defs)

lemma fd_table_new_wf [simp]: "fd_wf fd_table_new"
  by (simp add: fd_wf_def fd_table_new_def fd_const_defs)

lemma fd_first_free_Some:
  "fd_first_free t [a..<b] = Some i \<longleftrightarrow>
    a \<le> i \<and> i < b \<and> fd_entries t ! i = None \<and> (\<forall>j. a \<le> j \<and> j < i \<longrightarrow> fd_entries t ! j \<noteq> None)"
proof (induction "b - a" arbitrary: a)
  case (Suc n)
  then have "[a..<b] = a # [Suc a..<b]" by (simp add: upt_conv_Cons)
  moreover have "n = b - Suc a" using Suc.hyps by simp
  ultimately show ?case
    using Suc.hyps(1)[of "Suc a"] Suc.hyps(2)
    by (auto simp: Suc_le_eq dest: le_neq_implies_less)
qed auto

lemma fd_first_free_None:
  "fd_first_free t is = None \<longleftrightarrow> (\<forall>i\<in>set is. fd_entries t ! i \<noteq> None)"
  by (induction "is") auto

lemma fd_alloc_cases:
  assumes "fd_alloc h c t r = (res, t', r')"
  obtains (ok) i where "res = Some i" "FD_BASE \<le> i" "i < PROCESS_MAX_FDS" "fd_entries t ! i = None"
      "\<And>j. FD_BASE \<le> j \<Longrightarrow> j < i \<Longrightarrow> fd_entries t ! j \<noteq> None"
      "t' = t\<lparr>fd_entries := (fd_entries t)[i := Some h],
              fd_flags := (fd_flags t)[i := if c then FD_CLOEXEC else 0]\<rparr>" "r' = r"
    | (full) "res = None" "t' = t" "r' = file_handle_drop h r"
      "\<And>j. FD_BASE \<le> j \<Longrightarrow> j < PROCESS_MAX_FDS \<Longrightarrow> fd_entries t ! j \<noteq> None"
proof (cases "fd_first_free t [FD_BASE..<PROCESS_MAX_FDS]")
  case None
  then have "\<And>j. FD_BASE \<le> j \<Longrightarrow> j < PROCESS_MAX_FDS \<Longrightarrow> fd_entries t ! j \<noteq> None"
    by (simp add: fd_first_free_None)
  then show ?thesis using assms None full by (simp add: fd_alloc_def)
next
  case (Some i)
  then have "(res, t', r') = (Some i, t\<lparr>fd_entries := (fd_entries t)[i := Some h],
      fd_flags := (fd_flags t)[i := if c then FD_CLOEXEC else 0]\<rparr>, r)"
    using assms by (simp add: fd_alloc_def)
  then show ?thesis using Some ok[of i] by (simp add: fd_first_free_Some)
qed

section \<open>Loops over the table\<close>

definition handles_at :: "fd_table \<Rightarrow> nat list \<Rightarrow> file_handle list" where
  "handles_at t is = concat (map (\<lambda>i. case fd_entries t ! i of None \<Rightarrow> [] | Some h \<Rightarrow> [h]) is)"

definition open_handles :: "fd_table \<Rightarrow> file_handle list" where
  "open_handles t = handles_at t [FD_BASE..<PROCESS_MAX_FDS]"

lemma handles_at_simps [simp]:
  "handles_at t [] = []"
  "handles_at t (i # is) = (case fd_entries t ! i of None \<Rightarrow> [] | Some h \<Rightarrow> [h]) @ handles_at t is"
  by (simp_all add: handles_at_def)

lemma handles_at_cong:
  "(\<And>i. i \<in> set is \<Longrightarrow> fd_entries t ! i = fd_entries t' ! i) \<Longrightarrow> handles_at t is = handles_at t' is"
  by (induction "is") auto

lemma length_handles_at: "length (handles_at t is) \<le> length is"
  by (induction "is") (auto split: option.splits)

lemma length_open_handles: "length (open_handles t) \<le> 253"
  using length_handles_at[of t "[FD_BASE..<PROCESS_MAX_FDS]"] by (simp add: open_handles_def fd_const_defs)

lemma set_open_handles:
  "h \<in> set (open_handles t) \<longleftrightarrow> (\<exists>fd. fd_get t fd = Some h)"
proof -
  have "h \<in> set (handles_at t is) \<longleftrightarrow> (\<exists>i\<in>set is. fd_entries t ! i = Some h)" for "is"
    by (induction "is") (auto split: option.splits)
  then have "h \<in> set (open_handles t) \<longleftrightarrow>
      (\<exists>i. FD_BASE \<le> i \<and> i < PROCESS_MAX_FDS \<and> fd_entries t ! i = Some h)"
    by (auto simp: open_handles_def)
  then show ?thesis by (auto simp: fd_get_def not_less[symmetric])
qed

lemma close_all_fold:
  assumes "distinct is" "\<forall>i\<in>set is. i < length (fd_entries t)"
  shows "fold close_all_step is (t, r) =
    (t\<lparr>fd_entries := fold (\<lambda>i es. es[i := None]) is (fd_entries t)\<rparr>, fold file_handle_drop (handles_at t is) r)"
  using assms
proof (induction "is" arbitrary: t r)
  case (Cons i "is")
  show ?case
  proof (cases "fd_entries t ! i")
    case None
    then have "(fd_entries t)[i := None] = fd_entries t" by (metis list_update_id)
    then show ?thesis using Cons None by (simp add: close_all_step_def)
  next
    case (Some h)
    let ?t = "t\<lparr>fd_entries := (fd_entries t)[i := None]\<rparr>"
    have "handles_at ?t is = handles_at t is"
      using Cons.prems by (intro handles_at_cong) (auto intro!: nth_list_update_neq)
    then show ?thesis using Cons.IH[of ?t] Cons.prems Some by (simp add: close_all_step_def)
  qed
qed simp

lemma nth_fold_clear:
  "j < length es \<Longrightarrow> fold (\<lambda>i es. es[i := None]) is es ! j = (if j \<in> set is then None else es ! j)"
  by (induction "is" arbitrary: es) (auto simp: nth_list_update)

lemma length_fold_clear [simp]: "length (fold (\<lambda>i es. es[i := None]) is es) = length es"
  by (induction "is" arbitrary: es) auto

lemma close_all_spec:
  assumes "fd_wf t"
  shows "close_all t r =
    (t\<lparr>fd_entries := replicate PROCESS_MAX_FDS None\<rparr>, fold file_handle_drop (open_handles t) r)"
proof -
  have "fold (\<lambda>i es. es[i := None]) [FD_BASE..<PROCESS_MAX_FDS] (fd_entries t) = replicate PROCESS_MAX_FDS None"
    using assms by (intro nth_equalityI) (auto simp: fd_wf_def nth_fold_clear)
  then show ?thesis
    using assms close_all_fold[of "[FD_BASE..<PROCESS_MAX_FDS]" t r]
    by (simp add: close_all_def open_handles_def fd_wf_def)
qed

text \<open>What a fork copies of a handle: everything, except a counter on a handle that is not remote.\<close>

definition fork_handle :: "file_handle \<Rightarrow> file_handle" where
  "fork_handle h = h\<lparr>fh_remote_refs := if fh_is_remote h then fh_remote_refs h else None\<rparr>"

definition bump_refs :: "file_handle \<Rightarrow> remote_state \<Rightarrow> remote_state" where
  "bump_refs h r = snd (clone_remote_refs h r)"

lemma clone_remote_refs_eq:
  "clone_remote_refs h r = ((if fh_is_remote h then fh_remote_refs h else None), bump_refs h r)"
  by (simp add: clone_remote_refs_def bump_refs_def split: option.splits)

lemma clone_fold:
  assumes "\<forall>i\<in>set is. i < length (fd_entries t')" "length (fd_flags t') = length (fd_entries t')"
    "distinct is"
  shows "\<exists>es fl. fold (clone_step t) is (t', r) =
      (t'\<lparr>fd_entries := es, fd_flags := fl\<rparr>, fold bump_refs (handles_at t is) r)
    \<and> length es = length (fd_entries t') \<and> length fl = length (fd_entries t')
    \<and> (\<forall>j < length (fd_entries t').
        es ! j = (if j \<in> set is \<and> fd_entries t ! j \<noteq> None then map_option fork_handle (fd_entries t ! j) else fd_entries t' ! j)
      \<and> fl ! j = (if j \<in> set is \<and> fd_entries t ! j \<noteq> None then fd_flags t ! j else fd_flags t' ! j))"
  using assms
proof (induction "is" arbitrary: t' r)
  case Nil
  then show ?case by (intro exI[of _ "fd_entries t'"] exI[of _ "fd_flags t'"]) simp
next
  case (Cons i "is")
  show ?case
  proof (cases "fd_entries t ! i")
    case None
    then have "(j \<in> set (i # is) \<and> fd_entries t ! j \<noteq> None) = (j \<in> set is \<and> fd_entries t ! j \<noteq> None)" for j
      by auto
    then show ?thesis using Cons.IH[of t' r] Cons.prems None by (simp add: clone_step_def cong: if_cong)
  next
    case (Some h)
    let ?t = "t'\<lparr>fd_entries := (fd_entries t')[i := Some (fork_handle h)],
                  fd_flags := (fd_flags t')[i := fd_flags t ! i]\<rparr>"
    have step: "clone_step t i (t', r) = (?t, bump_refs h r)"
      using Some by (simp add: clone_step_def clone_remote_refs_eq fork_handle_def)
    obtain es fl where IH: "fold (clone_step t) is (?t, bump_refs h r) =
        (?t\<lparr>fd_entries := es, fd_flags := fl\<rparr>, fold bump_refs (handles_at t is) (bump_refs h r))"
      "length es = length (fd_entries t')" "length fl = length (fd_entries t')"
      "\<And>j. j < length (fd_entries t') \<Longrightarrow>
        es ! j = (if j \<in> set is \<and> fd_entries t ! j \<noteq> None then map_option fork_handle (fd_entries t ! j) else fd_entries ?t ! j)
      \<and> fl ! j = (if j \<in> set is \<and> fd_entries t ! j \<noteq> None then fd_flags t ! j else fd_flags ?t ! j)"
      using Cons.IH[of ?t "bump_refs h r"] Cons.prems by auto
    show ?thesis
    proof (intro exI[of _ es] exI[of _ fl] conjI allI impI)
      show "fold (clone_step t) (i # is) (t', r) =
          (t'\<lparr>fd_entries := es, fd_flags := fl\<rparr>, fold bump_refs (handles_at t (i # is)) r)"
        using IH(1) step Some by simp
    qed (use IH(2-4) Cons.prems Some in \<open>auto simp: nth_list_update\<close>)
  qed
qed

lemma clone_for_fork_spec:
  assumes "fd_wf t" "clone_for_fork t r = (t', r')"
  shows "fd_wf t'" "r' = fold bump_refs (open_handles t) r"
    "\<And>fd. fd_get t' fd = map_option fork_handle (fd_get t fd)"
    "\<And>fd. fd_get_flags t' fd = fd_get_flags t fd"
proof -
  let ?is = "[FD_BASE..<PROCESS_MAX_FDS]"
  have len: "length (fd_entries fd_table_new) = PROCESS_MAX_FDS" "length (fd_flags fd_table_new) = PROCESS_MAX_FDS"
    by (simp_all add: fd_table_new_def)
  obtain es fl where c: "clone_for_fork t r =
      (fd_table_new\<lparr>fd_entries := es, fd_flags := fl\<rparr>, fold bump_refs (open_handles t) r)"
    "length es = PROCESS_MAX_FDS" "length fl = PROCESS_MAX_FDS"
    and nth0: "\<forall>j < PROCESS_MAX_FDS.
        es ! j = (if j \<in> set ?is \<and> fd_entries t ! j \<noteq> None then map_option fork_handle (fd_entries t ! j)
          else fd_entries fd_table_new ! j)
      \<and> fl ! j = (if j \<in> set ?is \<and> fd_entries t ! j \<noteq> None then fd_flags t ! j else fd_flags fd_table_new ! j)"
    using clone_fold[of ?is fd_table_new t r] len
    unfolding clone_for_fork_def open_handles_def by auto
  have nth: "es ! j = (if j \<in> set ?is \<and> fd_entries t ! j \<noteq> None then map_option fork_handle (fd_entries t ! j) else None)
      \<and> fl ! j = (if j \<in> set ?is \<and> fd_entries t ! j \<noteq> None then fd_flags t ! j else 0)"
    if "j < PROCESS_MAX_FDS" for j
    using nth0 that by (auto simp: fd_table_new_def)
  show "r' = fold bump_refs (open_handles t) r" using c assms(2) by simp
  have t': "fd_entries t' = es" "fd_flags t' = fl" using c assms(2) by auto
  show "fd_wf t'" using nth c(2,3) t' by (auto simp: fd_wf_def fd_const_defs)
  show "fd_get t' fd = map_option fork_handle (fd_get t fd)" for fd
    using nth[of fd] t' by (auto simp: fd_get_def)
  show "fd_get_flags t' fd = fd_get_flags t fd" for fd
    using nth[of fd] t' by (auto simp: fd_get_flags_def)
qed

definition cloexec_at :: "fd_table \<Rightarrow> nat \<Rightarrow> bool" where
  "cloexec_at t i \<longleftrightarrow> fd_flags t ! i AND FD_CLOEXEC \<noteq> 0"

lemma close_cloexec_fold:
  assumes "distinct is" "\<forall>i\<in>set is. i < length (fd_entries t)" "length (fd_flags t) = length (fd_entries t)"
  shows "\<exists>es fl. fold close_cloexec_step is (t, r) =
      (t\<lparr>fd_entries := es, fd_flags := fl\<rparr>, fold file_handle_drop (handles_at t (filter (cloexec_at t) is)) r)
    \<and> length es = length (fd_entries t) \<and> length fl = length (fd_entries t)
    \<and> (\<forall>j < length (fd_entries t).
        es ! j = (if j \<in> set is \<and> cloexec_at t j then None else fd_entries t ! j)
      \<and> (es ! j \<noteq> None \<longrightarrow> fl ! j = fd_flags t ! j))"
  using assms
proof (induction "is" arbitrary: t r)
  case Nil
  then show ?case by (intro exI[of _ "fd_entries t"] exI[of _ "fd_flags t"]) simp
next
  case (Cons i "is")
  show ?case
  proof (cases "fd_entries t ! i \<noteq> None \<and> cloexec_at t i")
    case False
    then have "close_cloexec_step i (t, r) = (t, r)"
      by (auto simp: close_cloexec_step_def cloexec_at_def split: option.splits)
    moreover have "(if j \<in> set (i # is) \<and> cloexec_at t j then None else fd_entries t ! j) =
        (if j \<in> set is \<and> cloexec_at t j then None else fd_entries t ! j)" for j
      using False by auto
    moreover have "handles_at t (filter (cloexec_at t) (i # is)) = handles_at t (filter (cloexec_at t) is)"
      using False by auto
    ultimately show ?thesis using Cons.IH[of t r] Cons.prems by (simp cong: if_cong)
  next
    case True
    then obtain h where h: "fd_entries t ! i = Some h" by auto
    let ?t = "t\<lparr>fd_entries := (fd_entries t)[i := None], fd_flags := (fd_flags t)[i := 0]\<rparr>"
    have step: "close_cloexec_step i (t, r) = (?t, file_handle_drop h r)"
      using True h by (simp add: close_cloexec_step_def cloexec_at_def)
    have fil: "filter (cloexec_at ?t) is = filter (cloexec_at t) is"
    proof (intro filter_cong refl)
      fix x assume "x \<in> set is"
      then have "x \<noteq> i" using Cons.prems by auto
      then show "cloexec_at ?t x = cloexec_at t x" by (simp add: cloexec_at_def)
    qed
    have hs: "handles_at ?t (filter (cloexec_at t) is) = handles_at t (filter (cloexec_at t) is)"
      using Cons.prems by (intro handles_at_cong) (auto intro!: nth_list_update_neq)
    obtain es fl where IH: "fold close_cloexec_step is (?t, file_handle_drop h r) =
        (?t\<lparr>fd_entries := es, fd_flags := fl\<rparr>,
         fold file_handle_drop (handles_at t (filter (cloexec_at t) is)) (file_handle_drop h r))"
      "length es = length (fd_entries t)" "length fl = length (fd_entries t)"
      "\<And>j. j < length (fd_entries t) \<Longrightarrow>
        es ! j = (if j \<in> set is \<and> cloexec_at ?t j then None else fd_entries ?t ! j)
      \<and> (es ! j \<noteq> None \<longrightarrow> fl ! j = fd_flags ?t ! j)"
      using Cons.IH[of ?t "file_handle_drop h r"] Cons.prems unfolding fil hs by auto
    show ?thesis
    proof (intro exI[of _ es] exI[of _ fl] conjI allI impI)
      show "fold close_cloexec_step (i # is) (t, r) = (t\<lparr>fd_entries := es, fd_flags := fl\<rparr>,
          fold file_handle_drop (handles_at t (filter (cloexec_at t) (i # is))) r)"
        using IH(1) step True h by simp
    next
      fix j assume j: "j < length (fd_entries t)"
      show "es ! j = (if j \<in> set (i # is) \<and> cloexec_at t j then None else fd_entries t ! j)"
        using IH(4)[OF j] True Cons.prems j by (cases "j = i") (auto simp: cloexec_at_def)
      show "fl ! j = fd_flags t ! j" if "es ! j \<noteq> None"
        using IH(4)[OF j] that Cons.prems j by (cases "j = i") (auto split: if_splits)
    qed (use IH in auto)
  qed
qed

section \<open>Reference counts\<close>

text \<open>How many of the given handles hold the counter \<^emph>\<open>k\<close>.\<close>

definition holds_key :: "nat \<Rightarrow> file_handle \<Rightarrow> bool" where
  "holds_key k h \<longleftrightarrow> fh_is_remote h \<and> fh_remote_refs h = Some k"

definition key_count :: "nat \<Rightarrow> file_handle list \<Rightarrow> nat" where
  "key_count k hs = length (filter (holds_key k) hs)"

lemma key_count_simps [simp]:
  "key_count k [] = 0"
  "key_count k (h # hs) = (if holds_key k h then Suc (key_count k hs) else key_count k hs)"
  by (simp_all add: key_count_def)

lemma key_count_open_handles: "key_count k (open_handles t) \<le> 253"
  using length_filter_le[of "holds_key k" "open_handles t"] length_open_handles[of t]
  unfolding key_count_def by linarith

lemma key_count_pos: "0 < key_count k hs \<longleftrightarrow> (\<exists>h\<in>set hs. holds_key k h)"
  by (induction hs) auto

lemma bump_refs_counter:
  "rs_counter (bump_refs h r) k = rs_counter r k + (if holds_key k h then 1 else 0)"
  "rs_closed (bump_refs h r) = rs_closed r"
  by (auto simp: bump_refs_def clone_remote_refs_def holds_key_def split: option.splits)

lemma bump_all_counter:
  "rs_counter (fold bump_refs hs r) k = rs_counter r k + of_nat (key_count k hs)"
  "rs_closed (fold bump_refs hs r) = rs_closed r"
  by (induction hs arbitrary: r) (simp_all add: bump_refs_counter)

lemma drop_counter:
  "rs_counter (file_handle_drop h r) k = rs_counter r k - (if holds_key k h then 1 else 0)"
  by (auto simp: file_handle_drop_def holds_key_def close_remote_fd_from_kernel_def Let_def split: option.splits)

lemma drop_all_counter:
  "rs_counter (fold file_handle_drop hs r) k = rs_counter r k - of_nat (key_count k hs)"
  by (induction hs arbitrary: r) (simp_all add: drop_counter)

lemma drop_closed_other:
  "\<lbrakk>fh_is_remote h \<longrightarrow> fh_fd_remote h \<noteq> f\<rbrakk> \<Longrightarrow>
    count_list (rs_closed (file_handle_drop h r)) f = count_list (rs_closed r) f"
  by (auto simp: file_handle_drop_def close_remote_fd_from_kernel_def Let_def split: option.splits)

lemma drop_closed_key:
  "\<lbrakk>holds_key k h; fh_fd_remote h = f\<rbrakk> \<Longrightarrow>
    count_list (rs_closed (file_handle_drop h r)) f =
      count_list (rs_closed r) f + (if rs_counter r k = 1 then 1 else 0)"
  by (auto simp: file_handle_drop_def holds_key_def close_remote_fd_from_kernel_def Let_def)

text \<open>
  The counter \<^emph>\<open>k\<close> stands for the remote descriptor \<^emph>\<open>f\<close>: among the handles given, the remote ones on \<^emph>\<open>f\<close>
  are those that hold \<^emph>\<open>k\<close>.
\<close>

definition key_for :: "nat \<Rightarrow> u64 \<Rightarrow> file_handle list \<Rightarrow> bool" where
  "key_for k f hs \<longleftrightarrow> (\<forall>h\<in>set hs. fh_is_remote h \<longrightarrow> (fh_fd_remote h = f \<longleftrightarrow> fh_remote_refs h = Some k))"

lemma drop_all_closed:
  assumes "key_for k f hs" "key_count k hs \<le> unat (rs_counter r k)"
  shows "count_list (rs_closed (fold file_handle_drop hs r)) f =
    count_list (rs_closed r) f + (if 0 < key_count k hs \<and> unat (rs_counter r k) = key_count k hs then 1 else 0)"
  using assms
proof (induction hs arbitrary: r)
  case (Cons h hs)
  have kf: "key_for k f hs" using Cons.prems by (simp add: key_for_def)
  show ?case
  proof (cases "holds_key k h")
    case True
    then have f: "fh_fd_remote h = f" using Cons.prems by (simp add: key_for_def holds_key_def)
    have pos: "Suc (key_count k hs) \<le> unat (rs_counter r k)" using Cons.prems True by simp
    have dec: "unat (rs_counter (file_handle_drop h r) k) = unat (rs_counter r k) - 1"
    proof -
      have "rs_counter r k \<noteq> 0" using pos by auto
      then show ?thesis using True by (simp add: drop_counter unat_minus_one)
    qed
    have one: "rs_counter r k = 1 \<longleftrightarrow> unat (rs_counter r k) = 1"
      by (metis unat_1 word_unat_eq_iff)
    show ?thesis
      using Cons.IH[OF kf, of "file_handle_drop h r"] pos dec one True drop_closed_key[OF True f, of r]
      by auto
  next
    case False
    then have "fh_is_remote h \<longrightarrow> fh_fd_remote h \<noteq> f"
      using Cons.prems by (auto simp: key_for_def holds_key_def)
    then show ?thesis
      using Cons.IH[OF kf, of "file_handle_drop h r"] Cons.prems False drop_closed_other[of h f r]
      by (simp add: drop_counter)
  qed
qed simp

lemma holds_key_fork [simp]: "holds_key k (fork_handle h) = holds_key k h"
  by (auto simp: holds_key_def fork_handle_def)

lemma open_handles_fork:
  assumes "fd_wf t" "clone_for_fork t r = (t', r')"
  shows "open_handles t' = map fork_handle (open_handles t)"
proof -
  have "fd_entries t' ! i = map_option fork_handle (fd_entries t ! i)"
    if "i \<in> set [FD_BASE..<PROCESS_MAX_FDS]" for i
    using clone_for_fork_spec(3)[OF assms, of i] that by (auto simp: fd_get_def)
  then have "handles_at t' is = map fork_handle (handles_at t is)"
    if "set is \<subseteq> set [FD_BASE..<PROCESS_MAX_FDS]" for "is"
    using that by (induction "is") (auto split: option.splits)
  then show ?thesis by (simp add: open_handles_def)
qed

lemma key_count_map_fork [simp]: "key_count k (map fork_handle hs) = key_count k hs"
  by (induction hs) auto

lemma key_for_map_fork [simp]: "key_for k f (map fork_handle hs) = key_for k f hs"
  by (auto simp: key_for_def fork_handle_def)

section \<open>Properties\<close>

text \<open>
  Remark. A descriptor is the lowest free number from 3 up: \<^emph>\<open>alloc\<close> returns the least descriptor that
  is not open, which then gives the handle back and carries the close-on-exec flag exactly when asked;
  no other descriptor changes. When all 253 are taken it returns nothing, leaves the table as it is, and drops
  the handle.
\<close>

theorem fd_alloc_lowest_free:
  assumes wf: "fd_wf t" and alloc: "fd_alloc h c t r = (res, t', r')"
  shows "fd_wf t' \<and> (case res of
      Some fd \<Rightarrow> FD_BASE \<le> fd \<and> fd_get t fd = None
        \<and> (\<forall>j. FD_BASE \<le> j \<and> j < fd \<longrightarrow> fd_get t j \<noteq> None)
        \<and> (\<forall>j. fd_get t' j = (if j = fd then Some h else fd_get t j))
        \<and> fd_get_flags t' fd = Some (if c then FD_CLOEXEC else 0)
        \<and> (\<forall>j. j \<noteq> fd \<longrightarrow> fd_get_flags t' j = fd_get_flags t j) \<and> r' = r
    | None \<Rightarrow> length (open_handles t) = 253 \<and> t' = t \<and> r' = file_handle_drop h r)"
  using alloc
proof (cases rule: fd_alloc_cases)
  case (ok i)
  then show ?thesis
    using wf by (auto simp: fd_wf_def fd_get_def fd_get_flags_def nth_list_update)
next
  case full
  have len: "length (handles_at t is) = length is" if "\<forall>i\<in>set is. fd_entries t ! i \<noteq> None" for "is"
    using that by (induction "is") (auto split: option.splits)
  have "length (open_handles t) = 253"
    unfolding open_handles_def fd_range_length[symmetric] by (rule len) (use full(4) in simp)
  then show ?thesis using full wf by simp
qed

theorem fd_alloc_lowest_free_witness:
  "fst (fd_alloc (new_pipe_read 0) True fd_table_new \<lparr>rs_counter = \<lambda>_. 0, rs_closed = []\<rparr>) = Some 3
   \<and> fd_get (fst (snd (fd_alloc (new_pipe_read 0) True fd_table_new \<lparr>rs_counter = \<lambda>_. 0, rs_closed = []\<rparr>))) 3
     = Some (new_pipe_read 0)"
proof -
  have first: "fst (fd_alloc (new_pipe_read 0) True fd_table_new \<lparr>rs_counter = \<lambda>_. 0, rs_closed = []\<rparr>) = Some 3"
    by (simp add: fd_alloc_def fd_range_Cons) (simp add: fd_table_new_def fd_const_defs)
  obtain t' r' where a:
    "fd_alloc (new_pipe_read 0) True fd_table_new \<lparr>rs_counter = \<lambda>_. 0, rs_closed = []\<rparr> = (Some 3, t', r')"
    using first by (metis prod.collapse)
  show ?thesis
    using fd_alloc_lowest_free[OF fd_table_new_wf a] by (simp add: a)
qed

text \<open>
  C37. Close-on-exec: \<^emph>\<open>close_cloexec_fds\<close> closes exactly the open descriptors whose flag
  is set, dropping their handles, and keeps every other descriptor with its handle and its flags.
\<close>

theorem close_cloexec_exact:
  assumes "fd_wf t" "close_cloexec_fds t r = (t', r')"
  shows "fd_wf t'
    \<and> (\<forall>fd. fd_get t' fd = (if cloexec_at t fd then None else fd_get t fd))
    \<and> (\<forall>fd. fd_get t' fd \<noteq> None \<longrightarrow> fd_get_flags t' fd = fd_get_flags t fd)
    \<and> r' = fold file_handle_drop (handles_at t (filter (cloexec_at t) [FD_BASE..<PROCESS_MAX_FDS])) r"
proof -
  have len: "length (fd_entries t) = PROCESS_MAX_FDS" "length (fd_flags t) = PROCESS_MAX_FDS"
    using assms(1) by (simp_all add: fd_wf_def)
  obtain es fl where c: "close_cloexec_fds t r = (t\<lparr>fd_entries := es, fd_flags := fl\<rparr>,
       fold file_handle_drop (handles_at t (filter (cloexec_at t) [FD_BASE..<PROCESS_MAX_FDS])) r)"
    "length es = PROCESS_MAX_FDS" "length fl = PROCESS_MAX_FDS"
    and nth: "\<forall>j < PROCESS_MAX_FDS.
        es ! j = (if j \<in> set [FD_BASE..<PROCESS_MAX_FDS] \<and> cloexec_at t j then None else fd_entries t ! j)
      \<and> (es ! j \<noteq> None \<longrightarrow> fl ! j = fd_flags t ! j)"
    using close_cloexec_fold[of "[FD_BASE..<PROCESS_MAX_FDS]" t r] len unfolding close_cloexec_fds_def by auto
  have t': "t' = t\<lparr>fd_entries := es, fd_flags := fl\<rparr>" and
    r': "r' = fold file_handle_drop (handles_at t (filter (cloexec_at t) [FD_BASE..<PROCESS_MAX_FDS])) r"
    using c(1) assms(2) by simp_all
  have get: "fd_get t' fd = (if cloexec_at t fd then None else fd_get t fd)" for fd
    using nth by (auto simp: t' fd_get_def)
  have flags: "fd_get t' fd \<noteq> None \<Longrightarrow> fd_get_flags t' fd = fd_get_flags t fd" for fd
    using nth get[of fd] by (auto simp: t' fd_get_def fd_get_flags_def split: if_splits)
  have "fd_wf t'" using nth c(2,3) assms(1) by (auto simp: t' fd_wf_def fd_const_defs)
  then show ?thesis using get flags r' by blast
qed

theorem close_cloexec_exact_witness:
  "let t = fd_table_new\<lparr>fd_entries := (fd_entries fd_table_new)[3 := Some (new_pipe_read 0), 4 := Some (new_pipe_write 0)],
                        fd_flags := (fd_flags fd_table_new)[3 := FD_CLOEXEC]\<rparr>;
       t' = fst (close_cloexec_fds t \<lparr>rs_counter = \<lambda>_. 0, rs_closed = []\<rparr>)
   in fd_get t' 3 = None \<and> fd_get t' 4 = Some (new_pipe_write 0)"
proof -
  let ?t = "fd_table_new\<lparr>fd_entries := (fd_entries fd_table_new)[3 := Some (new_pipe_read 0), 4 := Some (new_pipe_write 0)],
                        fd_flags := (fd_flags fd_table_new)[3 := FD_CLOEXEC]\<rparr>"
  let ?r = "\<lparr>rs_counter = \<lambda>_. 0, rs_closed = []\<rparr>"
  obtain t' r' where c: "close_cloexec_fds ?t ?r = (t', r')" by fastforce
  have wf: "fd_wf ?t"
    by (simp add: fd_wf_def fd_table_new_def fd_const_defs nth_list_update)
  have get: "fd_get t' fd = (if cloexec_at ?t fd then None else fd_get ?t fd)" for fd
    using close_cloexec_exact[OF wf c] by blast
  have "cloexec_at ?t 3" "\<not> cloexec_at ?t 4" "fd_get ?t 4 = Some (new_pipe_write 0)"
    by (simp_all add: cloexec_at_def fd_get_def fd_table_new_def fd_const_defs FD_CLOEXEC_def)
  then show ?thesis using get[of 3] get[of 4] by (simp add: c)
qed

text \<open>
  C31. A remote file is closed once, by its last holder. When a process forks and then parent and
  child both close their tables, in either order, the table closed first sends no close request for a remote
  descriptor that both hold, and after the second the file-system service has received exactly one.
\<close>

theorem fork_closes_remote_once:
  assumes wf: "fd_wf t" and fork: "clone_for_fork t r = (child, r1)"
    and key: "key_for k f (open_handles t)" and pos: "0 < key_count k (open_handles t)"
    and refs: "rs_counter r k = of_nat (key_count k (open_handles t))"
    and order: "(first, second) = (t, child) \<or> (first, second) = (child, t)"
  shows "count_list (rs_closed (snd (close_all first r1))) f = count_list (rs_closed r) f
    \<and> count_list (rs_closed (snd (close_all second (snd (close_all first r1))))) f
      = Suc (count_list (rs_closed r) f)"
proof -
  let ?n = "key_count k (open_handles t)"
  have small: "?n \<le> 253" by (rule key_count_open_handles)
  have r1: "r1 = fold bump_refs (open_handles t) r" and wfc: "fd_wf child"
    using clone_for_fork_spec[OF wf fork] by auto
  have "(of_nat ?n :: u64) + of_nat ?n = of_nat (?n + ?n)" by simp
  moreover have "unat (of_nat (?n + ?n) :: u64) = ?n + ?n"
    by (rule unat_of_nat_small) (rule le_less_trans[OF add_mono[OF small small]], simp)
  ultimately have two: "unat (rs_counter r1 k) = 2 * ?n" "rs_closed r1 = rs_closed r"
    using refs by (simp_all add: r1 bump_all_counter)
  have after: "unat (rs_counter r1 k - of_nat ?n) = ?n"
    using refs small by (simp add: r1 bump_all_counter unat_of_nat_small)
  have hs: "open_handles child = map fork_handle (open_handles t)" by (rule open_handles_fork[OF wf fork])
  have same: "key_for k f (open_handles u) \<and> key_count k (open_handles u) = ?n \<and> fd_wf u" if "u = t \<or> u = child" for u
    using that hs key wf wfc by auto
  have fs: "key_for k f (open_handles first)" "key_count k (open_handles first) = ?n" "fd_wf first"
    "key_for k f (open_handles second)" "key_count k (open_handles second) = ?n" "fd_wf second"
    using order same[of first] same[of second] by blast+
  show ?thesis
    using fs two after pos drop_all_closed[OF fs(1), of r1]
      drop_all_closed[OF fs(4), of "fold file_handle_drop (open_handles first) r1"]
    by (simp add: close_all_spec drop_all_counter)
qed

definition witness_table :: fd_table where
  "witness_table = fd_table_new\<lparr>fd_entries := (fd_entries fd_table_new)[3 := Some
    \<lparr>fh_data = [], fh_pos = 0, fh_dir_path = None, fh_is_remote = True, fh_fd_remote = 7,
     fh_remote_refs = Some 0, fh_pipe_id = None, fh_pipe_write = False, fh_open_flags = 0\<rparr>]\<rparr>"

theorem fork_closes_remote_once_witness:
  "let r = \<lparr>rs_counter = (\<lambda>_. 0)(0 := 1), rs_closed = []\<rparr>; (child, r1) = clone_for_fork witness_table r;
       r2 = snd (close_all witness_table r1)
   in count_list (rs_closed r2) 7 = 0 \<and> count_list (rs_closed (snd (close_all child r2))) 7 = 1"
proof -
  let ?r = "\<lparr>rs_counter = (\<lambda>_. 0)(0 := 1), rs_closed = []\<rparr>"
  obtain child r1 where c: "clone_for_fork witness_table ?r = (child, r1)" by fastforce
  have wf: "fd_wf witness_table"
    by (simp add: witness_table_def fd_wf_def fd_table_new_def fd_const_defs nth_list_update)
  let ?h = "\<lparr>fh_data = [], fh_pos = 0, fh_dir_path = None, fh_is_remote = True, fh_fd_remote = 7,
     fh_remote_refs = Some 0, fh_pipe_id = None, fh_pipe_write = False, fh_open_flags = 0\<rparr>"
  have "handles_at witness_table is = []" if "\<forall>i\<in>set is. FD_BASE < i \<and> i < PROCESS_MAX_FDS" for "is"
    using that by (induction "is") (auto simp: witness_table_def fd_table_new_def FD_BASE_def)
  then have "handles_at witness_table [Suc FD_BASE..<PROCESS_MAX_FDS] = []" by simp
  moreover have "fd_entries witness_table ! FD_BASE = Some ?h"
    by (simp add: witness_table_def fd_table_new_def fd_const_defs)
  ultimately have hs: "open_handles witness_table = [?h]"
    by (simp add: open_handles_def fd_range_Cons)
  show ?thesis
    using fork_closes_remote_once[OF wf c, of 0 7 witness_table child] c
    by (simp add: hs key_for_def holds_key_def)
qed

end
