(* ===== verification/Process_Table.thy ===== *)
theory Process_Table
  imports Slot_Table Ids Bytes Signal_State Fd_Table
begin

text \<open>
  Processes and the process table, from \<^verbatim>\<open>src/src/core/task/process.rs\<close>. The global table of the source is behind
  a lock that every wrapper holds for its whole body, so \<^emph>\<open>add_process\<close>, \<^emph>\<open>remove_process\<close> and \<^emph>\<open>with_process_mut\<close> are
  the table's own methods. The counter of live processes is a machine word, as in the source: its
  decrement wraps, and the invariant shows that it never does.
\<close>

section \<open>Processes\<close>

record process =
  p_id :: process_id
  p_name_buf :: bytes
  p_name_len :: nat
  p_state :: process_state
  p_privilege :: privilege_level
  p_parent_id :: "process_id option"
  p_page_table :: "u64 option"
  p_heap_start :: u64
  p_heap_end :: u64
  p_stack_bottom :: u64
  p_stack_top :: u64
  p_cwd_buf :: bytes
  p_cwd_len :: nat
  p_priority :: u8
  p_exit_code :: "u64 option"
  p_pgid_raw :: u64
  p_sid_raw :: u64
  p_signal_state :: signal_state
  p_fd_table :: fd_table

definition process_new ::
  "bytes \<Rightarrow> privilege_level \<Rightarrow> process_id option \<Rightarrow> u8 \<Rightarrow> u64 \<Rightarrow> process \<times> u64" where
  "process_new name privilege parent priority next =
    (let len = min (length name) 32; (pid, next') = process_id_new next
     in (\<lparr>p_id = pid, p_name_buf = overwrite_front (replicate 32 0) (take len name), p_name_len = len,
          p_state = PRunning, p_privilege = privilege, p_parent_id = parent, p_page_table = None,
          p_heap_start = 0, p_heap_end = 0, p_stack_bottom = 0, p_stack_top = 0,
          p_cwd_buf = (replicate 256 0)[0 := 0x2F], p_cwd_len = 1, p_priority = priority,
          p_exit_code = None, p_pgid_raw = 0, p_sid_raw = 0,
          p_signal_state = signal_state_new, p_fd_table = fd_table_new\<rparr>, next'))"

definition process_name :: "process \<Rightarrow> bytes" where
  "process_name p =
    (let s = take (p_name_len p) (p_name_buf p) in if utf8_valid s then s else str_bytes ''???'')"

definition mark_exited :: "u64 \<Rightarrow> process \<Rightarrow> process" where
  "mark_exited code p = p\<lparr>p_state := PZombie, p_exit_code := Some code\<rparr>"

definition process_cwd :: "process \<Rightarrow> bytes" where
  "process_cwd p =
    (let s = take (p_cwd_len p) (p_cwd_buf p) in if utf8_valid s then s else str_bytes ''/'')"

definition set_cwd :: "bytes \<Rightarrow> process \<Rightarrow> process" where
  "set_cwd path p =
    (let len = min (length path) 255
     in p\<lparr>p_cwd_buf := overwrite_front (p_cwd_buf p) (take len path), p_cwd_len := len\<rparr>)"

definition process_pgid :: "process \<Rightarrow> u64" where
  "process_pgid p = (if p_pgid_raw p = 0 then p_id p else p_pgid_raw p)"

definition process_sid :: "process \<Rightarrow> u64" where
  "process_sid p = (if p_sid_raw p = 0 then p_id p else p_sid_raw p)"

section \<open>The table\<close>

record process_table =
  pt_processes :: "process option list"
  pt_count :: u64

definition MAX_PROCESSES :: nat where "MAX_PROCESSES = 64"

definition process_table_new :: process_table where
  "process_table_new = \<lparr>pt_processes = replicate MAX_PROCESSES None, pt_count = 0\<rparr>"

definition process_table_add :: "process_table \<Rightarrow> process \<Rightarrow> process_id option \<times> process_table" where
  "process_table_add t p =
    (if of_nat MAX_PROCESSES \<le> pt_count t then (None, t)
     else case find_index (\<lambda>slot. slot = None) (pt_processes t) of
         Some i \<Rightarrow> (Some (p_id p), t\<lparr>pt_processes := (pt_processes t)[i := Some p], pt_count := pt_count t + 1\<rparr>)
       | None \<Rightarrow> (None, t))"

definition process_table_get :: "process_table \<Rightarrow> process_id \<Rightarrow> process option" where
  "process_table_get t pid = slot_find (\<lambda>p. p_id p = pid) (pt_processes t)"

definition process_table_modify :: "process_table \<Rightarrow> process_id \<Rightarrow> (process \<Rightarrow> process) \<Rightarrow> process_table" where
  "process_table_modify t pid f = t\<lparr>pt_processes := slot_modify (\<lambda>p. p_id p = pid) f (pt_processes t)\<rparr>"

definition process_table_remove :: "process_table \<Rightarrow> process_id \<Rightarrow> process option \<times> process_table" where
  "process_table_remove t pid =
    (case slot_take (\<lambda>p. p_id p = pid) (pt_processes t) of
       None \<Rightarrow> (None, t)
     | Some (p, ps) \<Rightarrow> (Some p, t\<lparr>pt_processes := ps, pt_count := pt_count t - 1\<rparr>))"

definition process_table_iter :: "process_table \<Rightarrow> process list" where
  "process_table_iter t = live (pt_processes t)"

definition find_by_name :: "process_table \<Rightarrow> bytes \<Rightarrow> process option" where
  "find_by_name t name =
    (let ps = process_table_iter t;
         elf = str_bytes ''.elf''; drivers = str_bytes ''/bin/drivers/''
     in case find (\<lambda>p. process_name p = name) ps of Some p \<Rightarrow> Some p | None \<Rightarrow>
        case find (\<lambda>p. case strip_suffix (process_name p) elf of Some s \<Rightarrow> s = name | None \<Rightarrow> False) ps of
          Some p \<Rightarrow> Some p | None \<Rightarrow>
        case find (\<lambda>p. process_name p = name @ elf) ps of Some p \<Rightarrow> Some p | None \<Rightarrow>
        case find (\<lambda>p. process_name p = drivers @ name @ elf) ps of Some p \<Rightarrow> Some p | None \<Rightarrow>
        case (if ends_with name (str_bytes ''drv'') \<and> length name > 3 then
                let base = take (length name - 3) name
                in case find (\<lambda>p. process_name p = base \<or> process_name p = base @ elf) ps of
                     Some p \<Rightarrow> Some p
                   | None \<Rightarrow> find (\<lambda>p. process_name p = drivers @ base @ elf) ps
              else None) of Some p \<Rightarrow> Some p | None \<Rightarrow>
        find (\<lambda>p. str_contains (process_name p) name) ps)"

definition is_child_match :: "process \<Rightarrow> process_id \<Rightarrow> process_id option \<Rightarrow> bool" where
  "is_child_match p parent target \<longleftrightarrow>
    (if p_parent_id p \<noteq> Some parent then False
     else case target of Some target_id \<Rightarrow> p_id p = target_id | None \<Rightarrow> True)"

definition has_child :: "process_table \<Rightarrow> process_id \<Rightarrow> process_id option \<Rightarrow> bool" where
  "has_child t parent target \<longleftrightarrow> (\<exists>p\<in>set (process_table_iter t). is_child_match p parent target)"

definition reap_zombie_child ::
  "process_table \<Rightarrow> process_id \<Rightarrow> process_id option \<Rightarrow> (process_id \<times> u64 \<times> u64 option) option \<times> process_table" where
  "reap_zombie_child t parent target =
    (case slot_take (\<lambda>p. is_child_match p parent target \<and> p_state p = PZombie) (pt_processes t) of
       None \<Rightarrow> (None, t)
     | Some (p, ps) \<Rightarrow>
         (Some (p_id p, case p_exit_code p of Some c \<Rightarrow> c | None \<Rightarrow> 0, p_page_table p),
          t\<lparr>pt_processes := ps, pt_count := saturating_sub (pt_count t) 1\<rparr>))"

definition mark_process_exited :: "process_id \<Rightarrow> u64 \<Rightarrow> process_table \<Rightarrow> process_table" where
  "mark_process_exited pid code t = process_table_modify t pid (mark_exited code)"

definition find_process_id_by_name :: "process_table \<Rightarrow> bytes \<Rightarrow> process_id option" where
  "find_process_id_by_name t name = map_option p_id (find_by_name t name)"

section \<open>Invariant\<close>

text \<open>
  The array has its 64 slots, the counter is the number of occupied ones and no two processes share an
  identifier.
\<close>

definition process_table_wf :: "process_table \<Rightarrow> bool" where
  "process_table_wf t \<longleftrightarrow> length (pt_processes t) = MAX_PROCESSES
    \<and> pt_count t = of_nat (occupied (pt_processes t)) \<and> keys_distinct p_id (pt_processes t)"

lemma pt_count_unat: "process_table_wf t \<Longrightarrow> unat (pt_count t) = occupied (pt_processes t)"
  by (simp add: process_table_wf_def MAX_PROCESSES_def unat_occupied)

lemma process_table_get_lookup: "process_table_get t = lookup p_id (pt_processes t)"
  by (auto simp: process_table_get_def lookup_def)

lemma process_table_full:
  assumes "process_table_wf t"
  shows "of_nat MAX_PROCESSES \<le> pt_count t \<longleftrightarrow> MAX_PROCESSES \<le> occupied (pt_processes t)"
  using pt_count_unat[OF assms] by (simp add: word_le_nat_alt MAX_PROCESSES_def)

lemma process_table_add_room:
  assumes "process_table_wf t" "unat (pt_count t) < MAX_PROCESSES" "process_table_get t (p_id p) = None"
  shows "\<exists>t'. process_table_add t p = (Some (p_id p), t') \<and> process_table_wf t'
    \<and> process_table_get t' = (process_table_get t)(p_id p \<mapsto> p)"
proof -
  have room: "occupied (pt_processes t) < length (pt_processes t)"
    using assms pt_count_unat by (simp add: process_table_wf_def)
  then have "find_index (\<lambda>slot. slot = None) (pt_processes t) \<noteq> None"
    using free_slot_exists[OF room] by (auto simp: find_index_None all_set_conv_all_nth)
  then obtain i where i: "find_index (\<lambda>slot. slot = None) (pt_processes t) = Some i" by blast
  then have free: "i < length (pt_processes t)" "pt_processes t ! i = None"
    by (auto simp: find_index_Some)
  let ?t = "t\<lparr>pt_processes := (pt_processes t)[i := Some p], pt_count := pt_count t + 1\<rparr>"
  have "process_table_add t p = (Some (p_id p), ?t)"
    using i assms process_table_full[OF assms(1)] pt_count_unat[OF assms(1)]
    by (simp add: process_table_add_def)
  moreover have "process_table_wf ?t"
    using assms free insert_slot(1)[of p_id _ i p] occupied_insert[OF free]
    by (simp add: process_table_wf_def process_table_get_lookup)
  moreover have "process_table_get ?t = (process_table_get t)(p_id p \<mapsto> p)"
    using assms free insert_slot(2)[of p_id "pt_processes t" i p]
    by (simp add: process_table_wf_def process_table_get_lookup)
  ultimately show ?thesis by blast
qed

lemma take_process:
  assumes "process_table_wf t" "slot_take P (pt_processes t) = Some (p, ps)"
  shows "process_table_wf (t\<lparr>pt_processes := ps, pt_count := pt_count t - 1\<rparr>)"
    "lookup p_id ps = (process_table_get t)(p_id p := None)" "pt_count t \<noteq> 0"
    "process_table_get t (p_id p) = Some p" "P p"
proof -
  obtain i where i: "i < length (pt_processes t)" "pt_processes t ! i = Some p" "ps = (pt_processes t)[i := None]"
    and occ: "Suc (occupied ps) = occupied (pt_processes t)" "length ps = length (pt_processes t)"
    and found: "slot_find P (pt_processes t) = Some p"
    using slot_take_Some[OF assms(2)] by blast
  have kd: "keys_distinct p_id (pt_processes t)" using assms(1) by (simp add: process_table_wf_def)
  have "pt_count t - 1 = of_nat (occupied ps)"
    using assms(1) occ(1)[symmetric] by (simp add: process_table_wf_def)
  then show "process_table_wf (t\<lparr>pt_processes := ps, pt_count := pt_count t - 1\<rparr>)"
    using assms(1) occ(2) clear_slot(1)[OF kd i(1,2)] i(3) by (simp add: process_table_wf_def)
  show "lookup p_id ps = (process_table_get t)(p_id p := None)"
    using clear_slot(2)[OF kd i(1,2)] i(3) by (simp add: process_table_get_lookup)
  show "pt_count t \<noteq> 0" using pt_count_unat[OF assms(1)] occ(1) by auto
  show "process_table_get t (p_id p) = Some p"
    using kd found by (auto simp: process_table_get_lookup lookup_Some_iff dest: slot_find_SomeD)
  show "P p" using found by (auto dest: slot_find_SomeD)
qed

interpretation process_ids: id_table process_table_add process_table_get process_table_remove
  process_table_modify p_id "\<lambda>t. unat (pt_count t)" process_table_wf MAX_PROCESSES
proof
  fix t :: process_table and p v :: process and k f
  show "process_table_get t k = Some v \<Longrightarrow> p_id v = k"
    unfolding process_table_get_lookup by (rule lookup_key)
  show "process_table_wf t \<Longrightarrow> finite (dom (process_table_get t))"
    by (simp add: process_table_get_lookup dom_lookup)
  show "process_table_wf t \<Longrightarrow> card (dom (process_table_get t)) = unat (pt_count t)"
    using pt_count_unat card_dom_lookup by (metis process_table_get_lookup process_table_wf_def)
  show "process_table_wf t \<Longrightarrow> unat (pt_count t) \<le> MAX_PROCESSES"
    using pt_count_unat[of t] occupied_le_length[of "pt_processes t"] by (simp add: process_table_wf_def)
  show "\<lbrakk>process_table_wf t; MAX_PROCESSES \<le> unat (pt_count t)\<rbrakk> \<Longrightarrow> process_table_add t v = (None, t)"
    using process_table_full[of t] pt_count_unat[of t] by (simp add: process_table_add_def)
  show "\<lbrakk>process_table_wf t; unat (pt_count t) < MAX_PROCESSES; process_table_get t (p_id v) = None\<rbrakk> \<Longrightarrow>
      \<exists>t'. process_table_add t v = (Some (p_id v), t') \<and> process_table_wf t'
        \<and> process_table_get t' = (process_table_get t)(p_id v \<mapsto> v)"
    by (rule process_table_add_room)
  show "\<exists>t'. process_table_remove t k = (process_table_get t k, t') \<and> process_table_wf t'
      \<and> process_table_get t' = (process_table_get t)(k := None)" if wf: "process_table_wf t"
  proof (cases "slot_take (\<lambda>p. p_id p = k) (pt_processes t)")
    case None
    then have "process_table_get t k = None" by (simp add: slot_take_None process_table_get_def)
    then show ?thesis using wf None by (auto simp: process_table_remove_def)
  next
    case (Some r)
    then obtain q ps where r: "slot_take (\<lambda>p. p_id p = k) (pt_processes t) = Some (q, ps)" by (cases r) auto
    note q = take_process[OF wf r]
    show ?thesis
      using r q by (simp add: process_table_remove_def process_table_get_lookup)
  qed
  show "process_table_wf (process_table_modify t k f)
      \<and> process_table_get (process_table_modify t k f) =
        (process_table_get t)(k := map_option f (process_table_get t k))"
    if "process_table_wf t" "\<forall>v. p_id (f v) = p_id v"
    using that by (simp add: process_table_modify_def process_table_wf_def process_table_get_lookup
        lookup_modify)
qed

section \<open>Reaping children\<close>

lemma process_table_new_wf [simp]: "process_table_wf process_table_new"
  by (simp add: process_table_wf_def process_table_new_def table_simps)

lemma process_iter_get: "process_table_wf t \<Longrightarrow> p \<in> set (process_table_iter t) \<longleftrightarrow> process_table_get t (p_id p) = Some p"
  by (simp add: process_table_iter_def process_table_get_lookup process_table_wf_def lookup_Some_iff)

lemma saturating_sub_pos: "(c :: u64) \<noteq> 0 \<Longrightarrow> saturating_sub c 1 = c - 1"
  by (simp add: saturating_sub_def word_le_nat_alt unat_gt_0 Suc_le_eq)

lemma reap_zombie_child_Some:
  assumes wf: "process_table_wf t" and reap: "reap_zombie_child t parent target = (Some (pid, code, pt), t')"
  shows "\<exists>p. process_table_get t pid = Some p \<and> is_child_match p parent target \<and> p_state p = PZombie
      \<and> code = (case p_exit_code p of Some c \<Rightarrow> c | None \<Rightarrow> 0) \<and> pt = p_page_table p"
    "process_table_wf t'" "process_table_get t' = (process_table_get t)(pid := None)"
proof -
  obtain p ps where tk: "slot_take (\<lambda>p. is_child_match p parent target \<and> p_state p = PZombie) (pt_processes t) = Some (p, ps)"
    and r: "pid = p_id p" "code = (case p_exit_code p of Some c \<Rightarrow> c | None \<Rightarrow> 0)" "pt = p_page_table p"
      "t' = t\<lparr>pt_processes := ps, pt_count := saturating_sub (pt_count t) 1\<rparr>"
    using reap by (auto simp: reap_zombie_child_def split: option.splits)
  note q = take_process[OF wf tk]
  show "\<exists>p. process_table_get t pid = Some p \<and> is_child_match p parent target \<and> p_state p = PZombie
      \<and> code = (case p_exit_code p of Some c \<Rightarrow> c | None \<Rightarrow> 0) \<and> pt = p_page_table p"
    using q r by blast
  show "process_table_wf t'" using q r(4) saturating_sub_pos[OF q(3)] by simp
  show "process_table_get t' = (process_table_get t)(pid := None)"
    using q(2) r by (simp add: process_table_get_lookup)
qed

lemma reap_zombie_child_None:
  assumes "process_table_wf t" "reap_zombie_child t parent target = (None, t')"
  shows "t' = t" "process_table_get t pid = Some p \<Longrightarrow> is_child_match p parent target \<Longrightarrow> p_state p \<noteq> PZombie"
proof -
  have tk: "slot_take (\<lambda>p. is_child_match p parent target \<and> p_state p = PZombie) (pt_processes t) = None"
    and t': "t' = t"
    using assms(2) by (auto simp: reap_zombie_child_def split: option.splits)
  show "t' = t" by (fact t')
  show "p_state p \<noteq> PZombie" if "process_table_get t pid = Some p" "is_child_match p parent target"
    using tk that assms(1)
    by (auto simp: slot_take_None slot_find_None process_table_get_lookup process_table_wf_def lookup_Some_iff)
qed

section \<open>Properties\<close>

text \<open>
  C32. Waiting for a child: \<^emph>\<open>reap_zombie_child\<close> removes one process, and only a zombie that is a child
  of the caller and matches the requested process; it returns that process's exit code and page table, and every other
  process stays as it was. It returns nothing, and changes nothing, exactly when no such zombie is in the table.
\<close>

theorem reap_zombie_child_correct:
  assumes wf: "process_table_wf t"
  shows "case reap_zombie_child t parent target of
      (Some (pid, code, pt), t') \<Rightarrow> process_table_wf t'
        \<and> (\<exists>p. process_table_get t pid = Some p \<and> is_child_match p parent target \<and> p_state p = PZombie
             \<and> code = (case p_exit_code p of Some c \<Rightarrow> c | None \<Rightarrow> 0) \<and> pt = p_page_table p)
        \<and> process_table_get t' = (process_table_get t)(pid := None)
    | (None, t') \<Rightarrow> t' = t
        \<and> (\<forall>pid p. process_table_get t pid = Some p \<and> is_child_match p parent target \<longrightarrow> p_state p \<noteq> PZombie)"
proof (cases "reap_zombie_child t parent target")
  case (Pair res t')
  show ?thesis
  proof (cases res)
    case None
    then show ?thesis using Pair reap_zombie_child_None[OF wf] by auto
  next
    case (Some r)
    obtain pid code pt where "r = (pid, code, pt)" by (cases r) auto
    then show ?thesis using Pair Some reap_zombie_child_Some[OF wf] by auto
  qed
qed

theorem reap_zombie_child_correct_witness:
  "\<exists>t'. reap_zombie_child
      (mark_process_exited 2 7 (snd (process_table_add
        (snd (process_table_add process_table_new (fst (process_new (str_bytes ''init'') PrivUser None 0 1))))
        (fst (process_new (str_bytes ''sh'') PrivUser (Some 1) 0 2))))) 1 None = (Some (2, 7, None), t')
    \<and> process_table_get t' 2 = None \<and> process_table_wf t'"
proof -
  let ?init = "fst (process_new (str_bytes ''init'') PrivUser None 0 1)"
  let ?sh = "fst (process_new (str_bytes ''sh'') PrivUser (Some 1) 0 2)"
  have ids: "p_id ?init = 1" "p_id ?sh = 2" "p_parent_id ?init = None" "p_parent_id ?sh = Some 1"
    "p_page_table ?sh = None"
    by (simp_all add: process_new_def process_id_new_def Let_def)
  let ?t1 = "snd (process_table_add process_table_new ?init)"
  have e: "process_table_get process_table_new pid = None" for pid
    by (simp add: process_table_new_def process_table_get_lookup)
  have t1: "process_table_wf ?t1" "process_table_get ?t1 = [1 \<mapsto> ?init]"
    using process_table_add_room[OF process_table_new_wf _ e[of "p_id ?init"]] ids
    by (auto simp: process_table_new_def process_table_get_lookup MAX_PROCESSES_def)
  have c1: "unat (pt_count ?t1) = 1"
    using process_ids.dom_card[OF t1(1)] t1(2) by simp
  let ?t2 = "snd (process_table_add ?t1 ?sh)"
  have t2: "process_table_wf ?t2" "process_table_get ?t2 = [1 \<mapsto> ?init, 2 \<mapsto> ?sh]"
    using process_table_add_room[OF t1(1), of ?sh] t1(2) c1 ids by (auto simp: MAX_PROCESSES_def)
  let ?t3 = "mark_process_exited 2 7 ?t2"
  have t3: "process_table_wf ?t3" "process_table_get ?t3 = [1 \<mapsto> ?init, 2 \<mapsto> mark_exited 7 ?sh]"
    using process_ids.modify_any[OF t2(1), of "mark_exited 7" 2] t2(2)
    by (auto simp: mark_process_exited_def mark_exited_def)
  have z: "is_child_match (mark_exited 7 ?sh) 1 None" "p_state (mark_exited 7 ?sh) = PZombie"
    "\<not> is_child_match ?init 1 None" "p_exit_code (mark_exited 7 ?sh) = Some 7"
    "p_page_table (mark_exited 7 ?sh) = None"
    using ids by (simp_all add: is_child_match_def mark_exited_def)
  obtain res t' where r: "reap_zombie_child ?t3 1 None = (res, t')" by fastforce
  have g: "process_table_get ?t3 2 = Some (mark_exited 7 ?sh)" using t3(2) by simp
  note c = reap_zombie_child_correct[OF t3(1), of 1 None, unfolded r]
  show ?thesis
  proof (cases res)
    case None
    then show ?thesis using c g z by auto
  next
    case (Some x)
    then show ?thesis using c r z by (cases x) (auto simp: t3(2) split: if_splits)
  qed
qed

text \<open>
  Remark. Exit status reaches the parent: once \<^emph>\<open>mark_process_exited\<close> has run for a process, its parent's
  \<^emph>\<open>reap_zombie_child\<close> for that process returns exactly the exit code it left, removes the process, and
  leaves the rest of the table as before the exit.
\<close>

theorem exit_code_reaches_parent:
  assumes wf: "process_table_wf t" and p: "process_table_get t pid = Some p" "p_parent_id p = Some parent"
  shows "\<exists>t'. reap_zombie_child (mark_process_exited pid code t) parent (Some pid) =
      (Some (pid, code, p_page_table p), t')
    \<and> process_table_wf t' \<and> process_table_get t' = (process_table_get t)(pid := None)"
proof -
  let ?t = "mark_process_exited pid code t" and ?q = "mark_exited code p"
  have m: "process_table_wf ?t" "process_table_get ?t = (process_table_get t)(pid \<mapsto> ?q)"
    using process_ids.modify_any[OF wf, of "mark_exited code" pid] p
    by (simp_all add: mark_process_exited_def mark_exited_def)
  have id: "p_id p = pid" by (rule process_ids.get_key[OF p(1)])
  then have q: "is_child_match ?q parent (Some pid)" "p_state ?q = PZombie" "p_exit_code ?q = Some code"
    "p_page_table ?q = p_page_table p"
    using p(2) by (simp_all add: is_child_match_def mark_exited_def)
  have only: "pid' = pid" if "process_table_get ?t pid' = Some w" "is_child_match w parent (Some pid)" for pid' w
    using process_ids.get_key[OF that(1)] that(2) by (auto simp: is_child_match_def split: if_splits)
  obtain res t' where r: "reap_zombie_child ?t parent (Some pid) = (res, t')" by fastforce
  have "res \<noteq> None"
  proof
    assume "res = None"
    then show False
      using reap_zombie_child_None(2)[OF m(1), of parent "Some pid" t' pid ?q] r q(1,2) m(2) by simp
  qed
  then obtain pid' c pt where res: "res = Some (pid', c, pt)" by (cases res) auto
  note s = reap_zombie_child_Some[OF m(1) r[unfolded res]]
  have "pid' = pid" using s(1) only by blast
  then show ?thesis using r res s m(2) q by auto
qed

theorem exit_code_reaches_parent_witness:
  "\<exists>t'. reap_zombie_child (mark_process_exited 2 7
      (snd (process_table_add process_table_new (fst (process_new (str_bytes ''sh'') PrivUser (Some 1) 0 2))))) 1 (Some 2)
    = (Some (2, 7, None), t')"
proof -
  let ?sh = "fst (process_new (str_bytes ''sh'') PrivUser (Some 1) 0 2)"
  have ids: "p_id ?sh = 2" "p_parent_id ?sh = Some 1" "p_page_table ?sh = None"
    by (simp_all add: process_new_def process_id_new_def Let_def)
  let ?t = "snd (process_table_add process_table_new ?sh)"
  have "process_table_wf ?t \<and> process_table_get ?t 2 = Some ?sh"
    using process_table_add_room[OF process_table_new_wf, of ?sh] ids
    by (auto simp: process_table_new_def process_table_get_lookup MAX_PROCESSES_def)
  then show ?thesis using exit_code_reaches_parent[of ?t 2 ?sh 1 7] ids by auto
qed

text \<open>
  Remark. The working directory round trip: a path of at most 255 bytes of UTF-8 set with \<^emph>\<open>set_cwd\<close> is what
  \<^emph>\<open>cwd\<close> returns.
\<close>

theorem set_cwd_round_trip:
  assumes "length (p_cwd_buf p) = 256" "length path \<le> 255" "utf8_valid path"
  shows "process_cwd (set_cwd path p) = path \<and> length (p_cwd_buf (set_cwd path p)) = 256"
  using assms by (simp add: process_cwd_def set_cwd_def Let_def min_def)

theorem set_cwd_round_trip_witness:
  "process_cwd (set_cwd (str_bytes ''/home'') (fst (process_new [] PrivUser None 0 1))) = str_bytes ''/home''"
  using set_cwd_round_trip[of "fst (process_new [] PrivUser None 0 1)" "str_bytes ''/home''"]
  by (simp add: process_new_def process_id_new_def str_bytes_def)

text \<open>
  Remark. Lookup by name prefers an exact match: the process returned is in the table, and if any process has
  exactly the name asked for, the one returned has that name.
\<close>

theorem find_by_name_exact_first:
  assumes "process_table_wf t"
  shows "(\<forall>p. find_by_name t name = Some p \<longrightarrow> process_table_get t (p_id p) = Some p)
    \<and> ((\<exists>q. process_table_get t (p_id q) = Some q \<and> process_name q = name) \<longrightarrow>
        (\<exists>p. find_by_name t name = Some p \<and> process_name p = name))"
proof -
  have mem: "find P xs = Some x \<Longrightarrow> x \<in> set xs" for P and xs :: "process list" and x
    by (auto simp: find_Some_iff)
  have "find_by_name t name = Some p \<Longrightarrow> p \<in> set (process_table_iter t)" for p
    by (auto simp: find_by_name_def Let_def split: option.splits if_splits dest: mem)
  moreover have "\<exists>p. find_by_name t name = Some p \<and> process_name p = name"
    if "q \<in> set (process_table_iter t)" "process_name q = name" for q
  proof -
    have "find (\<lambda>p. process_name p = name) (process_table_iter t) \<noteq> None"
      using that by (auto simp: find_None_iff)
    then obtain p where p: "find (\<lambda>p. process_name p = name) (process_table_iter t) = Some p" by blast
    then have "process_name p = name" by (auto simp: find_Some_iff)
    then show ?thesis using p by (simp add: find_by_name_def Let_def)
  qed
  ultimately show ?thesis using process_iter_get[OF assms] by blast
qed

theorem find_by_name_exact_first_witness:
  "\<exists>p. find_by_name (snd (process_table_add process_table_new
      (fst (process_new (str_bytes ''fs'') PrivService None 0 1)))) (str_bytes ''fs'') = Some p
    \<and> process_name p = str_bytes ''fs''"
proof -
  let ?p = "fst (process_new (str_bytes ''fs'') PrivService None 0 1)"
  let ?t = "snd (process_table_add process_table_new ?p)"
  have id: "p_id ?p = 1" "process_name ?p = str_bytes ''fs''"
    by (simp_all add: process_new_def process_id_new_def Let_def process_name_def str_bytes_def)
  have wf: "process_table_wf ?t" "process_table_get ?t (p_id ?p) = Some ?p"
    using process_table_add_room[OF process_table_new_wf, of ?p] id
    by (auto simp: process_table_new_def process_table_get_lookup MAX_PROCESSES_def)
  show ?thesis using find_by_name_exact_first[OF wf(1), of "str_bytes ''fs''"] wf(2) id(2) by blast
qed

end
