(* ===== verification/Mailbox.thy ===== *)
theory Mailbox
  imports Ring Bytes
begin

text \<open>
  The mailbox of a thread, from \<^verbatim>\<open>src/src/core/syscall/ipc.rs\<close>: 64 message slots, a stack of free slot numbers
  and a ring of the slot numbers that hold messages, oldest first. An operation returns
  \<^term>\<open>None\<close> when an array index of the source is out of bounds, where the code panics. The audit log that
  \<^emph>\<open>quarantine\<close> writes to is not part of the state.
\<close>

section \<open>Operations\<close>

definition MAILBOX_CAP :: nat where "MAILBOX_CAP = 64"
definition MAX_MSG_SIZE :: nat where "MAX_MSG_SIZE = 4128"
definition MAX_EXT_PAGES :: nat where "MAX_EXT_PAGES = 128"

record message =
  msg_from :: u64
  msg_to :: u64
  msg_to_slot :: u16
  msg_to_generation :: u64
  msg_len :: nat
  msg_data :: bytes
  msg_ext_pages_count :: u16
  msg_ext_pages :: "u64 list"

definition message_empty :: message where
  "message_empty = \<lparr>msg_from = 0, msg_to = 0, msg_to_slot = 0, msg_to_generation = 0, msg_len = 0,
    msg_data = replicate MAX_MSG_SIZE 0, msg_ext_pages_count = 0, msg_ext_pages = replicate MAX_EXT_PAGES 0\<rparr>"

record mailbox =
  mb_head :: nat
  mb_tail :: nat
  mb_count :: nat
  mb_queue :: "u8 list"
  mb_slots :: "message list"
  mb_free :: "u8 list"
  mb_free_count :: nat
  mb_waiter :: u64

definition mailbox_new :: mailbox where
  "mailbox_new = \<lparr>mb_head = 0, mb_tail = 0, mb_count = 0, mb_queue = replicate MAILBOX_CAP 0,
    mb_slots = replicate MAILBOX_CAP message_empty, mb_free = map of_nat [0..<MAILBOX_CAP],
    mb_free_count = MAILBOX_CAP, mb_waiter = 0\<rparr>"

definition alloc_slot :: "mailbox \<Rightarrow> (nat option \<times> mailbox) option" where
  "alloc_slot mb =
    (if mb_free_count mb = 0 then Some (None, mb)
     else do {
       i \<leftarrow> array_get (mb_free mb) (mb_free_count mb - 1);
       Some (Some (unat i), mb\<lparr>mb_free_count := mb_free_count mb - 1\<rparr>)
     })"

definition quarantine :: "mailbox \<Rightarrow> mailbox" where
  "quarantine mb = mailbox_new"

definition free_slot :: "mailbox \<Rightarrow> nat \<Rightarrow> (bool \<times> mailbox) option" where
  "free_slot mb i =
    (if MAILBOX_CAP \<le> i then Some (False, quarantine mb)
     else if MAILBOX_CAP \<le> mb_free_count mb then Some (False, quarantine mb)
     else if i \<in> set (map unat (take (mb_free_count mb) (mb_free mb))) then Some (False, quarantine mb)
     else do {
       slots \<leftarrow> array_set (mb_slots mb) i message_empty;
       free \<leftarrow> array_set (mb_free mb) (mb_free_count mb) (of_nat i);
       Some (True, mb\<lparr>mb_slots := slots, mb_free := free, mb_free_count := mb_free_count mb + 1\<rparr>)
     })"

definition enqueue_slot :: "mailbox \<Rightarrow> nat \<Rightarrow> (unit + mailbox) option" where
  "enqueue_slot mb i =
    (if MAILBOX_CAP \<le> mb_count mb then Some (Inl ())
     else do {
       q \<leftarrow> array_set (mb_queue mb) (mb_tail mb) (of_nat i);
       Some (Inr (mb\<lparr>mb_queue := q, mb_tail := (mb_tail mb + 1) mod MAILBOX_CAP, mb_count := mb_count mb + 1\<rparr>))
     })"

definition dequeue_slot :: "mailbox \<Rightarrow> (nat option \<times> mailbox) option" where
  "dequeue_slot mb =
    (if mb_count mb = 0 then Some (None, mb)
     else do {
       i \<leftarrow> array_get (mb_queue mb) (mb_head mb);
       Some (Some (unat i), mb\<lparr>mb_head := (mb_head mb + 1) mod MAILBOX_CAP, mb_count := mb_count mb - 1\<rparr>)
     })"

text \<open>The fields \<^emph>\<open>push_message\<close> stores into the slot it allocated.\<close>

definition fill_message :: "u64 \<Rightarrow> u64 \<Rightarrow> u16 \<Rightarrow> u64 \<Rightarrow> bytes \<Rightarrow> message \<Rightarrow> message" where
  "fill_message sender to to_slot gen dat m =
    m\<lparr>msg_from := sender, msg_to := to, msg_to_slot := to_slot, msg_to_generation := gen,
      msg_len := length dat, msg_ext_pages_count := 0, msg_data := overwrite_front (msg_data m) dat\<rparr>"

text \<open>
  The end of \<^emph>\<open>push_message\<close>, \<^emph>\<open>send_pages_from_kernel\<close> and \<^emph>\<open>send_map_header_from_kernel\<close>: queue the slot that was
  just filled, or give it back when the queue is full.
\<close>

definition commit_slot :: "mailbox \<Rightarrow> nat \<Rightarrow> (bool \<times> mailbox) option" where
  "commit_slot mb i = do {
     r \<leftarrow> enqueue_slot mb i;
     case r of
       Inr mb' \<Rightarrow> Some (True, mb')
     | Inl _ \<Rightarrow> do { (_, mb') \<leftarrow> free_slot mb i; Some (False, mb') }
   }"

definition push_message ::
  "mailbox \<Rightarrow> u64 \<Rightarrow> u64 \<Rightarrow> u16 \<Rightarrow> u64 \<Rightarrow> bytes \<Rightarrow> (bool \<times> mailbox) option" where
  "push_message mb sender to to_slot gen dat =
    (if MAX_MSG_SIZE < length dat then Some (False, mb)
     else do {
       (a, mb1) \<leftarrow> alloc_slot mb;
       case a of
         None \<Rightarrow> Some (False, mb1)
       | Some i \<Rightarrow> do {
           m \<leftarrow> array_get (mb_slots mb1) i;
           slots \<leftarrow> array_set (mb_slots mb1) i (fill_message sender to to_slot gen dat m);
           commit_slot (mb1\<lparr>mb_slots := slots\<rparr>) i
         }
     })"

definition addressed_to :: "u64 \<Rightarrow> u16 \<Rightarrow> u64 \<Rightarrow> message \<Rightarrow> bool" where
  "addressed_to receiver slot gen m \<longleftrightarrow>
    msg_to m = receiver \<and> msg_to_slot m = slot \<and> msg_to_generation m = gen"

text \<open>\<^emph>\<open>out[..n].copy_from_slice(&msg.data[..n])\<close>, with both bounds checks.\<close>

definition copy_out :: "message \<Rightarrow> bytes \<Rightarrow> (nat \<times> bytes) option" where
  "copy_out m out =
    (let n = min (msg_len m) (length out)
     in if n > 0 then
          (if n \<le> length (msg_data m) then Some (n, overwrite_front out (take n (msg_data m))) else None)
        else Some (n, out))"

type_synonym received = "(u64 \<times> nat \<times> u16 \<times> u64 list) option"

function pop_valid_for_receiver_copy ::
  "mailbox \<Rightarrow> u64 \<Rightarrow> u16 \<Rightarrow> u64 \<Rightarrow> bytes \<Rightarrow> (received \<times> mailbox \<times> bytes) option" where
  "pop_valid_for_receiver_copy mb receiver slot gen out =
    (case dequeue_slot mb of
       None \<Rightarrow> None
     | Some (None, mb1) \<Rightarrow> Some (None, mb1, out)
     | Some (Some i, mb1) \<Rightarrow>
        (case array_get (mb_slots mb1) i of
           None \<Rightarrow> None
         | Some m \<Rightarrow>
            if addressed_to receiver slot gen m then
              (if msg_ext_pages_count m > 0 \<and> msg_len m = 0 then
                 (case free_slot mb1 i of
                    None \<Rightarrow> None
                  | Some (False, mb2) \<Rightarrow> Some (None, mb2, out)
                  | Some (True, mb2) \<Rightarrow> Some (Some (msg_from m, 0, msg_ext_pages_count m, msg_ext_pages m), mb2, out))
               else
                 (case copy_out m out of
                    None \<Rightarrow> None
                  | Some (n, out') \<Rightarrow>
                     (case free_slot mb1 i of
                        None \<Rightarrow> None
                      | Some (False, mb2) \<Rightarrow> Some (None, mb2, out')
                      | Some (True, mb2) \<Rightarrow> Some (Some (msg_from m, n, msg_ext_pages_count m, msg_ext_pages m), mb2, out'))))
            else
              (case free_slot mb1 i of
                 None \<Rightarrow> None
               | Some (False, mb2) \<Rightarrow> Some (None, mb2, out)
               | Some (True, mb2) \<Rightarrow> pop_valid_for_receiver_copy mb2 receiver slot gen out)))"
  by pat_completeness auto
termination
proof (relation "measure (\<lambda>(mb, _). mb_count mb)", goal_cases)
  case 1
  show ?case by simp
next
  case (2 mb receiver slot gen out r a mb1 i m f ok mb2)
  then show ?case
    by (auto simp: dequeue_slot_def free_slot_def array_get_def array_set_def quarantine_def split: if_splits)
qed

fun pop_from_sender_loop ::
  "nat \<Rightarrow> mailbox \<Rightarrow> u64 \<Rightarrow> u64 \<Rightarrow> u16 \<Rightarrow> u64 \<Rightarrow> bytes \<Rightarrow> ((u64 \<times> nat) option \<times> mailbox \<times> bytes) option" where
  "pop_from_sender_loop 0 mb sender receiver slot gen out = Some (None, mb, out)"
| "pop_from_sender_loop (Suc n) mb sender receiver slot gen out =
    (case dequeue_slot mb of
       None \<Rightarrow> None
     | Some (None, mb1) \<Rightarrow> Some (None, mb1, out)
     | Some (Some i, mb1) \<Rightarrow>
        (case array_get (mb_slots mb1) i of
           None \<Rightarrow> None
         | Some m \<Rightarrow>
            if msg_from m \<noteq> sender \<or> \<not> addressed_to receiver slot gen m then
              (case enqueue_slot mb1 i of
                 None \<Rightarrow> None
               | Some (Inl _) \<Rightarrow> (case free_slot mb1 i of None \<Rightarrow> None | Some (_, mb2) \<Rightarrow> Some (None, mb2, out))
               | Some (Inr mb2) \<Rightarrow> pop_from_sender_loop n mb2 sender receiver slot gen out)
            else
              (case copy_out m out of
                 None \<Rightarrow> None
               | Some (k, out') \<Rightarrow>
                  (case free_slot mb1 i of
                     None \<Rightarrow> None
                   | Some (False, mb2) \<Rightarrow> Some (None, mb2, out')
                   | Some (True, mb2) \<Rightarrow> Some (Some (msg_from m, k), mb2, out')))))"

definition pop_from_sender_copy ::
  "mailbox \<Rightarrow> u64 \<Rightarrow> u64 \<Rightarrow> u16 \<Rightarrow> u64 \<Rightarrow> bytes \<Rightarrow> ((u64 \<times> nat) option \<times> mailbox \<times> bytes) option" where
  "pop_from_sender_copy mb sender receiver slot gen out =
    (if mb_count mb = 0 then Some (None, mb, out)
     else pop_from_sender_loop (mb_count mb) mb sender receiver slot gen out)"

definition take_waiter :: "mailbox \<Rightarrow> u64 \<times> mailbox" where
  "take_waiter mb = (mb_waiter mb, mb\<lparr>mb_waiter := 0\<rparr>)"

declare pop_valid_for_receiver_copy.simps [simp del]

section \<open>The ring of slot numbers\<close>

definition mb_queued :: "mailbox \<Rightarrow> nat list" where
  "mb_queued mb = map unat (ring_slice (mb_queue mb) (mb_head mb) (mb_count mb))"

definition mb_ring_wf :: "mailbox \<Rightarrow> bool" where
  "mb_ring_wf mb \<longleftrightarrow> length (mb_queue mb) = MAILBOX_CAP \<and> mb_head mb < MAILBOX_CAP \<and> mb_count mb \<le> MAILBOX_CAP
    \<and> mb_tail mb = (mb_head mb + mb_count mb) mod MAILBOX_CAP"

lemma length_mb_queued [simp]: "length (mb_queued mb) = mb_count mb"
  by (simp add: mb_queued_def)

lemma enqueue_ring:
  assumes "mb_ring_wf mb" "i < 256" "mb_count mb < MAILBOX_CAP"
    and mb': "mb' = mb\<lparr>mb_queue := (mb_queue mb)[mb_tail mb := of_nat i],
      mb_tail := (mb_tail mb + 1) mod MAILBOX_CAP, mb_count := mb_count mb + 1\<rparr>"
  shows "enqueue_slot mb i = Some (Inr mb')" "mb_ring_wf mb'" "mb_queued mb' = mb_queued mb @ [i]"
proof -
  have cap: "0 < MAILBOX_CAP" by (simp add: MAILBOX_CAP_def)
  then have tail: "mb_tail mb < length (mb_queue mb)" using assms by (simp add: mb_ring_wf_def)
  then show "enqueue_slot mb i = Some (Inr mb')" using assms by (simp add: enqueue_slot_def)
  show "mb_ring_wf mb'" using assms by (simp add: mb_ring_wf_def mod_Suc_eq)
  have "unat (of_nat i :: u8) = i" using assms(2) by (simp add: unat_of_nat)
  then show "mb_queued mb' = mb_queued mb @ [i]"
    using assms ring_slice_write[of "mb_count mb" "mb_queue mb" "mb_head mb" "of_nat i"]
    by (simp add: mb_queued_def mb_ring_wf_def)
qed

lemma dequeue_ring:
  assumes "mb_ring_wf mb" "mb_queued mb = i # is"
    and mb': "mb' = mb\<lparr>mb_head := (mb_head mb + 1) mod MAILBOX_CAP, mb_count := mb_count mb - 1\<rparr>"
  shows "dequeue_slot mb = Some (Some i, mb')" "mb_ring_wf mb'" "mb_queued mb' = is"
proof -
  obtain n where n: "mb_count mb = Suc n" using assms(2) length_mb_queued[of mb] by (cases "mb_count mb") auto
  have h: "mb_head mb < length (mb_queue mb)" using assms(1) by (simp add: mb_ring_wf_def)
  have split: "mb_queued mb = unat (mb_queue mb ! mb_head mb) #
      map unat (ring_slice (mb_queue mb) (Suc (mb_head mb) mod MAILBOX_CAP) n)"
    using ring_slice_Suc[of "mb_queue mb" "mb_head mb" n] h assms(1)
      ring_slice_mod[of "mb_queue mb" MAILBOX_CAP "Suc (mb_head mb)" n]
    by (simp add: mb_queued_def n mb_ring_wf_def)
  show "dequeue_slot mb = Some (Some i, mb')"
    using assms(2) mb' split n h by (simp add: dequeue_slot_def)
  show "mb_ring_wf mb'"
    using assms(1) mb' n by (simp add: mb_ring_wf_def mod_add_left_eq MAILBOX_CAP_def)
  show "mb_queued mb' = is" using assms(2) mb' split n by (simp add: mb_queued_def)
qed

interpretation mailbox_ring: bounded_queue enqueue_slot dequeue_slot mb_queued mb_ring_wf "\<lambda>i. i < 256" MAILBOX_CAP
proof
  fix mb :: mailbox and i j :: nat and js
  show "mb_ring_wf mb \<Longrightarrow> length (mb_queued mb) \<le> MAILBOX_CAP"
    by (simp add: mb_ring_wf_def)
  show "\<lbrakk>mb_ring_wf mb; i < 256; MAILBOX_CAP \<le> length (mb_queued mb)\<rbrakk> \<Longrightarrow> \<exists>e. enqueue_slot mb i = Some (Inl e)"
    by (simp add: enqueue_slot_def)
  show "\<lbrakk>mb_ring_wf mb; i < 256; length (mb_queued mb) < MAILBOX_CAP\<rbrakk> \<Longrightarrow>
      \<exists>mb'. enqueue_slot mb i = Some (Inr mb') \<and> mb_ring_wf mb' \<and> mb_queued mb' = mb_queued mb @ [i]"
    using enqueue_ring[OF _ _ _ refl, of mb i] by simp
  show "\<lbrakk>mb_ring_wf mb; mb_queued mb = []\<rbrakk> \<Longrightarrow> dequeue_slot mb = Some (None, mb)"
    using length_mb_queued[of mb] by (simp add: dequeue_slot_def)
  show "\<lbrakk>mb_ring_wf mb; mb_queued mb = j # js\<rbrakk> \<Longrightarrow>
      \<exists>mb'. dequeue_slot mb = Some (Some j, mb') \<and> mb_ring_wf mb' \<and> mb_queued mb' = js"
    using dequeue_ring[OF _ _ refl, of mb j js] by blast
qed

section \<open>Invariant\<close>

text \<open>
  The 64 slots are divided between the ring, the free stack and, inside an operation, the slots \<^emph>\<open>L\<close> it
  holds: no slot is in two of them. Free slots hold the empty message, so a new message never shows bytes of an old one.
\<close>

definition mb_free_list :: "mailbox \<Rightarrow> nat list" where
  "mb_free_list mb = map unat (take (mb_free_count mb) (mb_free mb))"

definition mailbox_messages :: "mailbox \<Rightarrow> message list" where
  "mailbox_messages mb = map ((!) (mb_slots mb)) (mb_queued mb)"

definition message_wf :: "message \<Rightarrow> bool" where
  "message_wf m \<longleftrightarrow> length (msg_data m) = MAX_MSG_SIZE \<and> msg_len m \<le> MAX_MSG_SIZE
    \<and> length (msg_ext_pages m) = MAX_EXT_PAGES \<and> unat (msg_ext_pages_count m) \<le> MAX_EXT_PAGES"

definition mb_inv :: "nat list \<Rightarrow> mailbox \<Rightarrow> bool" where
  "mb_inv L mb \<longleftrightarrow> mb_ring_wf mb \<and> length (mb_slots mb) = MAILBOX_CAP \<and> length (mb_free mb) = MAILBOX_CAP
    \<and> mb_count mb + mb_free_count mb + length L = MAILBOX_CAP
    \<and> distinct (mb_queued mb @ mb_free_list mb @ L) \<and> (\<forall>i\<in>set (mb_queued mb @ mb_free_list mb @ L). i < MAILBOX_CAP)
    \<and> (\<forall>i\<in>set (mb_free_list mb). mb_slots mb ! i = message_empty)
    \<and> (\<forall>m\<in>set (mailbox_messages mb). message_wf m)"

abbreviation mailbox_wf :: "mailbox \<Rightarrow> bool" where
  "mailbox_wf \<equiv> mb_inv []"

lemma message_empty_wf [simp]: "message_wf message_empty"
  by (simp add: message_wf_def message_empty_def)

lemma mb_queued_unaffected [simp]:
  "mb_queued (mb\<lparr>mb_slots := s\<rparr>) = mb_queued mb"
  "mb_queued (mb\<lparr>mb_free := f\<rparr>) = mb_queued mb"
  "mb_queued (mb\<lparr>mb_free_count := n\<rparr>) = mb_queued mb"
  "mb_queued (mb\<lparr>mb_waiter := w\<rparr>) = mb_queued mb"
  by (simp_all add: mb_queued_def)

lemma mb_ring_wf_unaffected [simp]:
  "mb_ring_wf (mb\<lparr>mb_slots := s\<rparr>) = mb_ring_wf mb"
  "mb_ring_wf (mb\<lparr>mb_free := f\<rparr>) = mb_ring_wf mb"
  "mb_ring_wf (mb\<lparr>mb_free_count := n\<rparr>) = mb_ring_wf mb"
  "mb_ring_wf (mb\<lparr>mb_waiter := w\<rparr>) = mb_ring_wf mb"
  by (simp_all add: mb_ring_wf_def)

lemma length_mailbox_messages [simp]: "length (mailbox_messages mb) = mb_count mb"
  by (simp add: mailbox_messages_def)

lemma mailbox_messages_slots:
  "\<forall>j\<in>set (mb_queued mb). s ! j = mb_slots mb ! j \<Longrightarrow> mailbox_messages (mb\<lparr>mb_slots := s\<rparr>) = mailbox_messages mb"
  by (simp add: mailbox_messages_def)

lemma mailbox_new_wf: "mailbox_wf mailbox_new" "mailbox_messages mailbox_new = []"
proof -
  have u: "map unat (map (of_nat :: nat \<Rightarrow> u8) [0..<MAILBOX_CAP]) = [0..<MAILBOX_CAP]"
    by (rule nth_equalityI) (simp_all add: MAILBOX_CAP_def unat_of_nat del: upt_rec_numeral)
  have fl: "mb_free_list mailbox_new = [0..<MAILBOX_CAP]"
    using u by (simp add: mb_free_list_def mailbox_new_def del: map_map)
  have q: "mb_queued mailbox_new = []"
    by (simp add: mb_queued_def mailbox_new_def)
  show "mailbox_messages mailbox_new = []" by (simp add: mailbox_messages_def q)
  have "mb_ring_wf mailbox_new" by (simp add: mb_ring_wf_def mailbox_new_def MAILBOX_CAP_def)
  moreover have "i < MAILBOX_CAP \<Longrightarrow> mb_slots mailbox_new ! i = message_empty" for i
    by (simp add: mailbox_new_def)
  ultimately show "mailbox_wf mailbox_new"
    by (simp add: mb_inv_def fl q mailbox_messages_def) (simp add: mailbox_new_def)
qed

lemma alloc_slot_inv:
  assumes "mailbox_wf mb"
  shows "mb_count mb = MAILBOX_CAP \<Longrightarrow> alloc_slot mb = Some (None, mb)"
    "mb_count mb < MAILBOX_CAP \<Longrightarrow> \<exists>i mb'. alloc_slot mb = Some (Some i, mb') \<and> mb_inv [i] mb' \<and> i < MAILBOX_CAP
       \<and> mb_queued mb' = mb_queued mb \<and> mb_slots mb' = mb_slots mb \<and> mb_slots mb ! i = message_empty
       \<and> mb_waiter mb' = mb_waiter mb"
proof -
  show "alloc_slot mb = Some (None, mb)" if "mb_count mb = MAILBOX_CAP"
    using assms that by (simp add: mb_inv_def alloc_slot_def)
  assume "mb_count mb < MAILBOX_CAP"
  then obtain n where n: "mb_free_count mb = Suc n" "n < length (mb_free mb)"
    using assms by (cases "mb_free_count mb") (auto simp: mb_inv_def)
  let ?i = "unat (mb_free mb ! n)" and ?mb = "mb\<lparr>mb_free_count := n\<rparr>"
  have fl: "mb_free_list mb = mb_free_list ?mb @ [?i]"
    using n by (simp add: mb_free_list_def take_Suc_conv_app_nth)
  have "alloc_slot mb = Some (Some ?i, ?mb)" using n by (simp add: alloc_slot_def)
  moreover have "mb_inv [?i] ?mb"
    using assms n unfolding mb_inv_def fl by (auto simp: mailbox_messages_def)
  moreover have "mb_slots mb ! ?i = message_empty" "?i < MAILBOX_CAP"
    using assms unfolding mb_inv_def fl by auto
  ultimately show "\<exists>i mb'. alloc_slot mb = Some (Some i, mb') \<and> mb_inv [i] mb' \<and> i < MAILBOX_CAP
       \<and> mb_queued mb' = mb_queued mb \<and> mb_slots mb' = mb_slots mb \<and> mb_slots mb ! i = message_empty
       \<and> mb_waiter mb' = mb_waiter mb"
    by (intro exI[of _ ?i] exI[of _ ?mb]) simp
qed

lemma free_slot_inv:
  assumes "mb_inv [i] mb"
  shows "\<exists>mb'. free_slot mb i = Some (True, mb') \<and> mailbox_wf mb' \<and> mb_queued mb' = mb_queued mb
    \<and> mailbox_messages mb' = mailbox_messages mb \<and> mb_waiter mb' = mb_waiter mb"
proof -
  let ?n = "mb_free_count mb"
  let ?mb = "mb\<lparr>mb_slots := (mb_slots mb)[i := message_empty], mb_free := (mb_free mb)[?n := of_nat i],
      mb_free_count := ?n + 1\<rparr>"
  have i: "i < MAILBOX_CAP" "i \<notin> set (mb_free_list mb)" "i \<notin> set (mb_queued mb)" and n: "?n < MAILBOX_CAP"
    using assms by (auto simp: mb_inv_def)
  have len: "length (mb_slots mb) = MAILBOX_CAP" "length (mb_free mb) = MAILBOX_CAP"
    using assms by (simp_all add: mb_inv_def)
  have "free_slot mb i = Some (True, ?mb)"
    using i n len unfolding mb_free_list_def by (simp add: free_slot_def)
  moreover have fl: "mb_free_list ?mb = mb_free_list mb @ [i]"
  proof -
    have "unat (of_nat i :: u8) = i" using i(1) by (simp add: unat_of_nat MAILBOX_CAP_def)
    then show ?thesis using n len by (simp add: mb_free_list_def take_Suc_conv_app_nth)
  qed
  moreover have qd: "mb_queued ?mb = mb_queued mb" by (simp add: mb_queued_def)
  moreover have msgs: "mailbox_messages ?mb = mailbox_messages mb"
    using i(3) unfolding mailbox_messages_def qd by (auto intro!: nth_list_update_neq)
  moreover have "mailbox_wf ?mb"
  proof -
    have "mb_ring_wf ?mb" using assms by (simp add: mb_inv_def mb_ring_wf_def)
    moreover have "\<forall>j\<in>set (mb_free_list mb). (mb_slots mb)[i := message_empty] ! j = message_empty"
      using assms len by (auto simp: mb_inv_def nth_list_update)
    ultimately show ?thesis
      using assms i len unfolding mb_inv_def fl qd msgs by auto
  qed
  ultimately show ?thesis by (intro exI[of _ ?mb]) simp
qed

lemma dequeue_slot_inv:
  assumes "mailbox_wf mb" "mb_queued mb = i # is"
  shows "\<exists>mb'. dequeue_slot mb = Some (Some i, mb') \<and> mb_inv [i] mb' \<and> mb_queued mb' = is
    \<and> mb_slots mb' = mb_slots mb \<and> mb_waiter mb' = mb_waiter mb \<and> i < MAILBOX_CAP \<and> message_wf (mb_slots mb ! i)"
proof -
  have r: "mb_ring_wf mb" using assms(1) by (simp add: mb_inv_def)
  note d = dequeue_ring[OF r assms(2) refl]
  let ?mb = "mb\<lparr>mb_head := (mb_head mb + 1) mod MAILBOX_CAP, mb_count := mb_count mb - 1\<rparr>"
  have fl: "mb_free_list ?mb = mb_free_list mb" by (simp add: mb_free_list_def)
  have c: "mb_count mb = Suc (length is)" using assms(2) length_mb_queued[of mb] by simp
  have "mb_inv [i] ?mb"
    using assms d(2,3) c unfolding mb_inv_def fl by (auto simp: mailbox_messages_def)
  moreover have "i < MAILBOX_CAP \<and> message_wf (mb_slots mb ! i)"
    using assms by (auto simp: mb_inv_def mailbox_messages_def)
  ultimately show ?thesis using d by (intro exI[of _ ?mb]) simp
qed

lemma enqueue_slot_inv:
  assumes "mb_inv [i] mb" "message_wf (mb_slots mb ! i)"
  shows "\<exists>mb'. enqueue_slot mb i = Some (Inr mb') \<and> mailbox_wf mb' \<and> mb_queued mb' = mb_queued mb @ [i]
    \<and> mb_slots mb' = mb_slots mb \<and> mb_waiter mb' = mb_waiter mb"
proof -
  have r: "mb_ring_wf mb" "i < 256" "mb_count mb < MAILBOX_CAP"
    using assms by (simp_all add: mb_inv_def MAILBOX_CAP_def)
  note e = enqueue_ring[OF r refl]
  let ?mb = "mb\<lparr>mb_queue := (mb_queue mb)[mb_tail mb := of_nat i],
      mb_tail := (mb_tail mb + 1) mod MAILBOX_CAP, mb_count := mb_count mb + 1\<rparr>"
  have fl: "mb_free_list ?mb = mb_free_list mb" by (simp add: mb_free_list_def)
  have "mailbox_wf ?mb"
    using assms e(2) unfolding mb_inv_def fl mailbox_messages_def e(3) by auto
  then show ?thesis using e by (intro exI[of _ ?mb]) simp
qed

section \<open>What the operations do to the messages\<close>

lemma mb_inv_set_slot:
  assumes "mb_inv [i] mb"
  shows "mb_inv [i] (mb\<lparr>mb_slots := (mb_slots mb)[i := m]\<rparr>)"
    "mailbox_messages (mb\<lparr>mb_slots := (mb_slots mb)[i := m]\<rparr>) = mailbox_messages mb"
proof -
  have i: "i \<notin> set (mb_queued mb)" "i \<notin> set (mb_free_list mb)" using assms by (auto simp: mb_inv_def)
  show msgs: "mailbox_messages (mb\<lparr>mb_slots := (mb_slots mb)[i := m]\<rparr>) = mailbox_messages mb"
    using i by (intro mailbox_messages_slots ballI nth_list_update_neq) auto
  have fl: "mb_free_list (mb\<lparr>mb_slots := (mb_slots mb)[i := m]\<rparr>) = mb_free_list mb"
    by (simp add: mb_free_list_def)
  have "\<forall>j\<in>set (mb_free_list mb). (mb_slots mb)[i := m] ! j = message_empty"
    using assms i by (auto simp: mb_inv_def) (metis nth_list_update_neq)
  then show "mb_inv [i] (mb\<lparr>mb_slots := (mb_slots mb)[i := m]\<rparr>)"
    using assms unfolding mb_inv_def fl msgs by auto
qed

lemma commit_slot_inv:
  assumes "mb_inv [i] mb" "message_wf (mb_slots mb ! i)"
  shows "\<exists>mb'. commit_slot mb i = Some (True, mb') \<and> mailbox_wf mb' \<and> mb_waiter mb' = mb_waiter mb
    \<and> mailbox_messages mb' = mailbox_messages mb @ [mb_slots mb ! i]"
  using enqueue_slot_inv[OF assms] by (auto simp: commit_slot_def mailbox_messages_def)

text \<open>Allocating a slot, filling it and queueing it: the common shape of the three senders.\<close>

lemma fill_and_commit:
  assumes "mailbox_wf mb" "mb_count mb < MAILBOX_CAP" "message_wf (f message_empty)"
  shows "\<exists>i mb1 mb'. alloc_slot mb = Some (Some i, mb1) \<and> array_get (mb_slots mb1) i = Some message_empty
    \<and> array_set (mb_slots mb1) i (f message_empty) = Some ((mb_slots mb1)[i := f message_empty])
    \<and> commit_slot (mb1\<lparr>mb_slots := (mb_slots mb1)[i := f message_empty]\<rparr>) i = Some (True, mb')
    \<and> mailbox_wf mb' \<and> mb_waiter mb' = mb_waiter mb
    \<and> mailbox_messages mb' = mailbox_messages mb @ [f message_empty]"
proof -
  obtain i mb1 where a: "alloc_slot mb = Some (Some i, mb1)" "mb_inv [i] mb1" "i < MAILBOX_CAP"
    "mb_queued mb1 = mb_queued mb" "mb_slots mb1 = mb_slots mb" "mb_slots mb ! i = message_empty"
    "mb_waiter mb1 = mb_waiter mb"
    using alloc_slot_inv(2)[OF assms(1,2)] by blast
  have len: "length (mb_slots mb1) = MAILBOX_CAP" using a(2) by (simp add: mb_inv_def)
  let ?mb = "mb1\<lparr>mb_slots := (mb_slots mb1)[i := f message_empty]\<rparr>"
  have at: "mb_slots ?mb ! i = f message_empty" using a(3) len by simp
  obtain mb' where "commit_slot ?mb i = Some (True, mb')" "mailbox_wf mb'" "mb_waiter mb' = mb_waiter ?mb"
    "mailbox_messages mb' = mailbox_messages ?mb @ [mb_slots ?mb ! i]"
    using commit_slot_inv[of i ?mb] mb_inv_set_slot(1)[OF a(2)] assms(3) at by metis
  moreover have "mailbox_messages ?mb = mailbox_messages mb"
    using mb_inv_set_slot(2)[OF a(2)] a(4,5) by (simp add: mailbox_messages_def)
  ultimately show ?thesis using a len at by (intro exI[of _ i] exI[of _ mb1] exI[of _ mb']) simp
qed

lemma fill_message_wf: "length dat \<le> MAX_MSG_SIZE \<Longrightarrow> message_wf (fill_message sender to sl g dat message_empty)"
  by (simp add: message_wf_def fill_message_def message_empty_def)

lemma push_message_inv:
  assumes "mailbox_wf mb"
  shows "\<exists>ok mb'. push_message mb sender to sl g dat = Some (ok, mb') \<and> mailbox_wf mb' \<and> mb_waiter mb' = mb_waiter mb
    \<and> (if length dat \<le> MAX_MSG_SIZE \<and> length (mailbox_messages mb) < MAILBOX_CAP
       then ok \<and> mailbox_messages mb' = mailbox_messages mb @ [fill_message sender to sl g dat message_empty]
       else \<not> ok \<and> mb' = mb)"
proof (cases "length dat \<le> MAX_MSG_SIZE")
  case True
  have cap: "mb_count mb \<le> MAILBOX_CAP" using assms by (simp add: mb_inv_def)
  show ?thesis
  proof (cases "mb_count mb < MAILBOX_CAP")
    case room: True
    obtain i mb1 mb' where "alloc_slot mb = Some (Some i, mb1)" "array_get (mb_slots mb1) i = Some message_empty"
      "array_set (mb_slots mb1) i (fill_message sender to sl g dat message_empty) =
        Some ((mb_slots mb1)[i := fill_message sender to sl g dat message_empty])"
      "commit_slot (mb1\<lparr>mb_slots := (mb_slots mb1)[i := fill_message sender to sl g dat message_empty]\<rparr>) i = Some (True, mb')"
      "mailbox_wf mb'" "mb_waiter mb' = mb_waiter mb"
      "mailbox_messages mb' = mailbox_messages mb @ [fill_message sender to sl g dat message_empty]"
      using fill_and_commit[where f = "fill_message sender to sl g dat", OF assms room fill_message_wf[OF True]] by blast
    then show ?thesis using True room by (intro exI[of _ True] exI[of _ mb']) (simp add: push_message_def)
  next
    case False
    then show ?thesis
      using True cap assms alloc_slot_inv(1)[OF assms]
      by (intro exI[of _ False] exI[of _ mb]) (simp add: push_message_def)
  qed
qed (auto simp: push_message_def assms)

definition delivered :: "message \<Rightarrow> bytes \<Rightarrow> u64 \<times> nat \<times> u16 \<times> u64 list" where
  "delivered m out = (msg_from m, min (msg_len m) (length out), msg_ext_pages_count m, msg_ext_pages m)"

definition copied :: "message \<Rightarrow> bytes \<Rightarrow> bytes" where
  "copied m out = overwrite_front out (take (min (msg_len m) (length out)) (msg_data m))"

lemma copy_out_wf: "message_wf m \<Longrightarrow> copy_out m out = Some (min (msg_len m) (length out), copied m out)"
  by (auto simp: copy_out_def copied_def message_wf_def Let_def overwrite_front_def)

lemma dequeue_empty: "mb_queued mb = [] \<Longrightarrow> dequeue_slot mb = Some (None, mb)"
  using length_mb_queued[of mb] by (simp add: dequeue_slot_def)

lemma mb_queued_cases:
  assumes "mailbox_wf mb"
  obtains "mb_queued mb = []" "mailbox_messages mb = []"
  | i "is" mb1 where "mb_queued mb = i # is" "dequeue_slot mb = Some (Some i, mb1)" "mb_inv [i] mb1"
    "mailbox_messages mb = mb_slots mb ! i # mailbox_messages mb1" "array_get (mb_slots mb1) i = Some (mb_slots mb ! i)"
    "message_wf (mb_slots mb ! i)" "mb_waiter mb1 = mb_waiter mb" "mb_slots mb1 = mb_slots mb"
proof (cases "mb_queued mb")
  case Nil
  then show ?thesis using that(1) by (simp add: mailbox_messages_def)
next
  case (Cons i "is")
  obtain mb1 where d: "dequeue_slot mb = Some (Some i, mb1)" "mb_inv [i] mb1" "mb_queued mb1 = is"
    "mb_slots mb1 = mb_slots mb" "mb_waiter mb1 = mb_waiter mb" "i < MAILBOX_CAP" "message_wf (mb_slots mb ! i)"
    using dequeue_slot_inv[OF assms Cons] by blast
  have "array_get (mb_slots mb1) i = Some (mb_slots mb ! i)"
    using d by (simp add: mb_inv_def)
  then show ?thesis using that(2)[OF Cons d(1,2)] Cons d by (simp add: mailbox_messages_def)
qed

lemma pop_valid_inv:
  assumes "mailbox_wf mb"
  shows "\<exists>r mb' out'. pop_valid_for_receiver_copy mb receiver sl g out = Some (r, mb', out')
    \<and> mailbox_wf mb' \<and> mb_waiter mb' = mb_waiter mb
    \<and> (case dropWhile (\<lambda>m. \<not> addressed_to receiver sl g m) (mailbox_messages mb) of
         [] \<Rightarrow> r = None \<and> mailbox_messages mb' = [] \<and> out' = out
       | m # ms \<Rightarrow> r = Some (delivered m out) \<and> mailbox_messages mb' = ms \<and> out' = copied m out)"
  using assms
proof (induction "mb_count mb" arbitrary: mb rule: less_induct)
  case less
  show ?case
  proof (cases rule: mb_queued_cases[OF less.prems])
    case 1
    then show ?thesis
      using less.prems by (subst pop_valid_for_receiver_copy.simps) (simp add: dequeue_empty)
  next
    case (2 i "is" mb1)
    obtain mb2 where f: "free_slot mb1 i = Some (True, mb2)" "mailbox_wf mb2" "mb_queued mb2 = mb_queued mb1"
      "mailbox_messages mb2 = mailbox_messages mb1" "mb_waiter mb2 = mb_waiter mb1"
      using free_slot_inv[OF 2(3)] by blast
    let ?m = "mb_slots mb ! i"
    show ?thesis
    proof (cases "addressed_to receiver sl g ?m")
      case True
      then show ?thesis
        using 2 f copy_out_wf[OF 2(6)]
        by (subst pop_valid_for_receiver_copy.simps) (auto simp: delivered_def copied_def overwrite_front_def)
    next
      case False
      have "mb_count mb2 < mb_count mb"
      proof -
        have "length (mailbox_messages mb2) < length (mailbox_messages mb)" using 2(4) f(4) by simp
        then show ?thesis by simp
      qed
      from less.hyps[OF this f(2)] False show ?thesis
        using 2 f by (subst pop_valid_for_receiver_copy.simps) simp
    qed
  qed
qed

definition sent_by :: "u64 \<Rightarrow> u64 \<Rightarrow> u16 \<Rightarrow> u64 \<Rightarrow> message \<Rightarrow> bool" where
  "sent_by sender receiver sl g m \<longleftrightarrow> msg_from m = sender \<and> addressed_to receiver sl g m"

lemma pop_from_sender_loop_inv:
  assumes "mailbox_wf mb" "mailbox_messages mb = xs @ ys" "length xs = n"
  shows "\<exists>r mb' out'. pop_from_sender_loop n mb sender receiver sl g out = Some (r, mb', out')
    \<and> mailbox_wf mb' \<and> mb_waiter mb' = mb_waiter mb
    \<and> (let P = \<lambda>m. msg_from m = sender \<and> addressed_to receiver sl g m in
       case dropWhile (\<lambda>m. \<not> P m) xs of
         [] \<Rightarrow> r = None \<and> mailbox_messages mb' = ys @ xs \<and> out' = out
       | m # ms \<Rightarrow> r = Some (sender, min (msg_len m) (length out))
           \<and> mailbox_messages mb' = ms @ ys @ takeWhile (\<lambda>m. \<not> P m) xs \<and> out' = copied m out)"
  using assms
proof (induction n arbitrary: mb xs ys)
  case 0
  then show ?case by simp
next
  case (Suc n)
  then obtain x xs' where xs: "xs = x # xs'" "length xs' = n" by (cases xs) auto
  show ?case
  proof (cases rule: mb_queued_cases[OF Suc.prems(1)])
    case 1
    then show ?thesis using Suc.prems xs by simp
  next
    case (2 i "is" mb1)
    have x: "mb_slots mb ! i = x" "mailbox_messages mb1 = xs' @ ys"
      using 2(4) Suc.prems(2) xs by simp_all
    show ?thesis
    proof (cases "msg_from x = sender \<and> addressed_to receiver sl g x")
      case True
      obtain mb2 where "free_slot mb1 i = Some (True, mb2)" "mailbox_wf mb2"
        "mailbox_messages mb2 = mailbox_messages mb1" "mb_waiter mb2 = mb_waiter mb1"
        using free_slot_inv[OF 2(3)] by blast
      then show ?thesis using 2 x True xs copy_out_wf[OF 2(6)] by simp
    next
      case False
      obtain mb2 where e: "enqueue_slot mb1 i = Some (Inr mb2)" "mailbox_wf mb2" "mb_queued mb2 = mb_queued mb1 @ [i]"
        "mb_slots mb2 = mb_slots mb1" "mb_waiter mb2 = mb_waiter mb1"
        using enqueue_slot_inv[OF 2(3)] 2(6,8) by auto
      have m2: "mailbox_messages mb2 = xs' @ (ys @ [x])"
        using e(3,4) x 2(8) by (simp add: mailbox_messages_def)
      let ?P = "\<lambda>m. msg_from m = sender \<and> addressed_to receiver sl g m"
      obtain r mb' out' where IH: "pop_from_sender_loop n mb2 sender receiver sl g out = Some (r, mb', out')"
        "mailbox_wf mb'" "mb_waiter mb' = mb_waiter mb2"
        "case dropWhile (\<lambda>m. \<not> ?P m) xs' of
           [] \<Rightarrow> r = None \<and> mailbox_messages mb' = (ys @ [x]) @ xs' \<and> out' = out
         | m # ms \<Rightarrow> r = Some (sender, min (msg_len m) (length out))
             \<and> mailbox_messages mb' = ms @ (ys @ [x]) @ takeWhile (\<lambda>m. \<not> ?P m) xs' \<and> out' = copied m out"
        using Suc.IH[OF e(2) m2 xs(2), unfolded Let_def] by blast
      have "pop_from_sender_loop (Suc n) mb sender receiver sl g out = Some (r, mb', out')"
        using 2 x False e(1) IH(1) by auto
      moreover have "dropWhile (\<lambda>m. \<not> ?P m) xs = dropWhile (\<lambda>m. \<not> ?P m) xs'"
        "takeWhile (\<lambda>m. \<not> ?P m) xs = x # takeWhile (\<lambda>m. \<not> ?P m) xs'"
        using False xs(1) by simp_all
      ultimately show ?thesis
        using IH(2-4) 2(7) e(5) xs(1) unfolding Let_def
        by (intro exI[of _ r] exI[of _ mb'] exI[of _ out']) (simp split: list.splits del: dropWhile_eq_Nil_conv)
    qed
  qed
qed

section \<open>Properties\<close>

text \<open>
  C27. Sending keeps the messages apart: on a mailbox that satisfies the invariant, \<^emph>\<open>push_message\<close> does not panic
  and keeps the invariant; it succeeds exactly when the payload fits in 4128 bytes and fewer than 64 messages
  are queued, and then the new message is last, holds the payload followed by zero bytes only, and every queued
  message is unchanged. A refused send changes nothing.
\<close>

theorem push_message_appends:
  assumes "mailbox_wf mb"
  shows "\<exists>ok mb'. push_message mb sender to sl g dat = Some (ok, mb') \<and> mailbox_wf mb'
    \<and> (ok \<longleftrightarrow> length dat \<le> MAX_MSG_SIZE \<and> length (mailbox_messages mb) < MAILBOX_CAP)
    \<and> (ok \<longrightarrow> (\<exists>m. mailbox_messages mb' = mailbox_messages mb @ [m]
          \<and> msg_from m = sender \<and> addressed_to to sl g m \<and> msg_len m = length dat
          \<and> msg_data m = dat @ replicate (MAX_MSG_SIZE - length dat) 0 \<and> msg_ext_pages_count m = 0))
    \<and> (\<not> ok \<longrightarrow> mb' = mb)"
proof -
  let ?m = "fill_message sender to sl g dat message_empty"
  have "msg_from ?m = sender \<and> addressed_to to sl g ?m \<and> msg_len ?m = length dat
      \<and> msg_data ?m = dat @ replicate (MAX_MSG_SIZE - length dat) 0 \<and> msg_ext_pages_count ?m = 0"
    by (simp add: fill_message_def addressed_to_def message_empty_def overwrite_front_def)
  then show ?thesis using push_message_inv[OF assms, of sender to sl g dat] by (auto split: if_splits)
qed

theorem push_message_appends_witness:
  "\<exists>mb' m. push_message mailbox_new 3 4 1 9 [7, 8] = Some (True, mb') \<and> mailbox_messages mb' = [m] \<and> msg_len m = 2"
  using push_message_appends[OF mailbox_new_wf(1), of 3 4 1 9 "[7, 8]"]
  by (auto simp: mailbox_new_wf(2) MAX_MSG_SIZE_def MAILBOX_CAP_def)

text \<open>
  C26. Receiving delivers in order and never to the wrong thread: \<^emph>\<open>pop_valid_for_receiver_copy\<close> terminates without
  a panic, discards the messages at the front that are addressed to another thread, slot or generation, and
  delivers the first one addressed to the receiver: its sender, its bytes (as many as the buffer holds) and its page
  list. The messages behind it stay, in order; with no message for the receiver the mailbox ends empty and the buffer untouched.
\<close>

theorem pop_valid_delivers_first_addressed:
  assumes "mailbox_wf mb"
  shows "\<exists>r mb' out'. pop_valid_for_receiver_copy mb receiver sl g out = Some (r, mb', out') \<and> mailbox_wf mb'
    \<and> length out' = length out
    \<and> (case dropWhile (\<lambda>m. \<not> addressed_to receiver sl g m) (mailbox_messages mb) of
         [] \<Rightarrow> r = None \<and> mailbox_messages mb' = [] \<and> out' = out
       | m # ms \<Rightarrow> (let n = min (msg_len m) (length out) in
           addressed_to receiver sl g m
           \<and> r = Some (msg_from m, n, msg_ext_pages_count m, msg_ext_pages m)
           \<and> take n out' = take n (msg_data m) \<and> drop n out' = drop n out \<and> mailbox_messages mb' = ms))"
proof -
  obtain r mb' out' where p: "pop_valid_for_receiver_copy mb receiver sl g out = Some (r, mb', out')" "mailbox_wf mb'"
    "case dropWhile (\<lambda>m. \<not> addressed_to receiver sl g m) (mailbox_messages mb) of
         [] \<Rightarrow> r = None \<and> mailbox_messages mb' = [] \<and> out' = out
       | m # ms \<Rightarrow> r = Some (delivered m out) \<and> mailbox_messages mb' = ms \<and> out' = copied m out"
    using pop_valid_inv[OF assms, of receiver sl g out] by blast
  show ?thesis
  proof (cases "dropWhile (\<lambda>m. \<not> addressed_to receiver sl g m) (mailbox_messages mb)")
    case Nil
    then show ?thesis using p by (simp del: dropWhile_eq_Nil_conv)
  next
    case (Cons m ms)
    then have "m \<in> set (mailbox_messages mb)" by (metis list.set_intros(1) set_dropWhileD)
    then have "message_wf m" using assms by (simp add: mb_inv_def)
    then have "min (msg_len m) (length out) \<le> length (msg_data m)" by (auto simp: message_wf_def)
    moreover have "addressed_to receiver sl g m"
      using hd_dropWhile[of "\<lambda>m. \<not> addressed_to receiver sl g m" "mailbox_messages mb"] Cons by auto
    ultimately show ?thesis
      using p Cons by (simp add: delivered_def copied_def Let_def overwrite_front_def)
  qed
qed

theorem pop_valid_delivers_first_addressed_witness:
  "\<exists>mb out' pages mb'. push_message mailbox_new 3 4 1 9 [7, 8] = Some (True, mb)
    \<and> pop_valid_for_receiver_copy mb 4 1 9 [0, 0] = Some (Some (3, 2, 0, pages), mb', out') \<and> out' = [7, 8]"
proof -
  let ?m = "fill_message 3 4 1 9 [7, 8] message_empty"
  obtain mb where mb: "push_message mailbox_new 3 4 1 9 [7, 8] = Some (True, mb)" "mailbox_wf mb"
    "mailbox_messages mb = [?m]"
    using push_message_inv[OF mailbox_new_wf(1), of 3 4 1 9 "[7, 8]"]
    by (auto simp: mailbox_new_wf(2) MAX_MSG_SIZE_def MAILBOX_CAP_def split: if_splits)
  have "addressed_to 4 1 9 ?m" "msg_len ?m = 2" "take (Suc (Suc 0)) (msg_data ?m) = [7, 8]" "msg_from ?m = 3"
    "msg_ext_pages_count ?m = 0"
    by (simp_all add: fill_message_def addressed_to_def overwrite_front_def)
  then show ?thesis
    using pop_valid_delivers_first_addressed[OF mb(2), of 4 1 9 "[0, 0]"] mb by (auto simp: Let_def)
qed

text \<open>
  Remark. Receiving from one sender: \<^emph>\<open>pop_from_sender_copy\<close> takes the oldest message of that sender addressed to
  the receiver and loses no other message, but the messages that were in front of it move behind all the others;
  when there is none, the mailbox keeps its messages in order.
\<close>

theorem pop_from_sender_keeps_others:
  assumes "mailbox_wf mb"
  shows "\<exists>r mb' out'. pop_from_sender_copy mb sender receiver sl g out = Some (r, mb', out') \<and> mailbox_wf mb'
    \<and> (case dropWhile (\<lambda>m. \<not> sent_by sender receiver sl g m) (mailbox_messages mb) of
         [] \<Rightarrow> r = None \<and> mailbox_messages mb' = mailbox_messages mb \<and> out' = out
       | m # ms \<Rightarrow> r = Some (sender, min (msg_len m) (length out)) \<and> out' = copied m out
           \<and> mailbox_messages mb' = ms @ takeWhile (\<lambda>m. \<not> sent_by sender receiver sl g m) (mailbox_messages mb))"
proof (cases "mb_count mb = 0")
  case True
  then have "mailbox_messages mb = []" by (metis length_0_conv length_mailbox_messages)
  then show ?thesis using True assms(1) by (simp add: pop_from_sender_copy_def)
next
  case False
  obtain r mb' out' where "pop_from_sender_loop (mb_count mb) mb sender receiver sl g out = Some (r, mb', out')"
    "mailbox_wf mb'" "case dropWhile (\<lambda>m. \<not> sent_by sender receiver sl g m) (mailbox_messages mb) of
         [] \<Rightarrow> r = None \<and> mailbox_messages mb' = [] @ mailbox_messages mb \<and> out' = out
       | m # ms \<Rightarrow> r = Some (sender, min (msg_len m) (length out))
           \<and> mailbox_messages mb' = ms @ [] @ takeWhile (\<lambda>m. \<not> sent_by sender receiver sl g m) (mailbox_messages mb)
           \<and> out' = copied m out"
    using pop_from_sender_loop_inv[OF assms(1), of "mailbox_messages mb" "[]" "mb_count mb" sender receiver sl g out]
    unfolding sent_by_def Let_def by auto
  then show ?thesis using False
    by (intro exI[of _ r] exI[of _ mb'] exI[of _ out'])
      (simp add: pop_from_sender_copy_def split: list.splits del: dropWhile_eq_Nil_conv)
qed

theorem pop_from_sender_keeps_others_witness:
  "\<exists>mb out' mb'. push_message mailbox_new 3 4 1 9 [7, 8] = Some (True, mb)
    \<and> pop_from_sender_copy mb 3 4 1 9 [0] = Some (Some (3, 1), mb', out') \<and> mailbox_messages mb' = []"
proof -
  let ?m = "fill_message 3 4 1 9 [7, 8] message_empty"
  obtain mb where mb: "push_message mailbox_new 3 4 1 9 [7, 8] = Some (True, mb)" "mailbox_wf mb"
    "mailbox_messages mb = [?m]"
    using push_message_inv[OF mailbox_new_wf(1), of 3 4 1 9 "[7, 8]"]
    by (auto simp: mailbox_new_wf(2) MAX_MSG_SIZE_def MAILBOX_CAP_def split: if_splits)
  have "sent_by 3 4 1 9 ?m" "msg_len ?m = 2"
    by (simp_all add: fill_message_def addressed_to_def sent_by_def)
  then show ?thesis
    using pop_from_sender_keeps_others[OF mb(2), of 3 4 1 9 "[0]"] mb by auto
qed

end
