(* ===== verification/Errno.thy ===== *)
theory Errno
  imports Prelude
begin

text \<open>
  Result codes of the system calls, from \<^verbatim>\<open>src/src/core/syscall/types.rs\<close>: an error is the two's complement of the
  Linux error number as an unsigned 64-bit word.
\<close>

definition SUCCESS :: u64 where "SUCCESS = 0"

definition errno :: "nat \<Rightarrow> u64" where
  "errno n = - of_nat n"

definition EPERM :: u64 where "EPERM = errno 1"
definition ENOENT :: u64 where "ENOENT = errno 2"
definition ENOTDIR :: u64 where "ENOTDIR = errno 20"
definition ESRCH :: u64 where "ESRCH = errno 3"
definition EIO :: u64 where "EIO = errno 5"
definition EBADF :: u64 where "EBADF = errno 9"
definition EFAULT :: u64 where "EFAULT = errno 14"
definition ENXIO :: u64 where "ENXIO = errno 6"
definition EINVAL :: u64 where "EINVAL = errno 22"
definition ENOSYS :: u64 where "ENOSYS = errno 38"
definition ENODATA :: u64 where "ENODATA = errno 61"
definition EAGAIN :: u64 where "EAGAIN = errno 11"
definition ENOMEM :: u64 where "ENOMEM = errno 12"
definition EEXIST :: u64 where "EEXIST = errno 17"
definition ENOTTY :: u64 where "ENOTTY = errno 25"
definition ERANGE :: u64 where "ERANGE = errno 34"
definition ENOTSUP :: u64 where "ENOTSUP = errno 95"
definition EPIPE :: u64 where "EPIPE = errno 32"
definition EMFILE :: u64 where "EMFILE = errno 24"

lemmas errno_defs = errno_def SUCCESS_def EPERM_def ENOENT_def ENOTDIR_def ESRCH_def EIO_def EBADF_def EFAULT_def ENXIO_def EINVAL_def ENOSYS_def ENODATA_def EAGAIN_def ENOMEM_def EEXIST_def ENOTTY_def ERANGE_def ENOTSUP_def EPIPE_def EMFILE_def

end
