(* ===== verification/Pipe.thy ===== *)
theory Pipe
  imports Ring Bytes Errno Ids
begin

text \<open>
  Pipes, from \<^verbatim>\<open>src/src/core/syscall/pipe.rs\<close>: the 64 KiB ring buffer and the table of 64 pipes. An operation that wakes
  the registered reader returns the thread to wake; waking it is the scheduler's part. \<^term>\<open>None\<close> is a panic of
  the source.
\<close>

section \<open>Operations\<close>

definition PIPE_BUF_SIZE :: nat where "PIPE_BUF_SIZE = 65536"
definition MAX_PIPES :: nat where "MAX_PIPES = 64"

record pipe_buffer =
  pb_buf :: bytes
  pb_write_pos :: nat
  pb_read_pos :: nat
  pb_len :: nat
  pb_read_refs :: u32
  pb_write_refs :: u32
  pb_waiter :: u64

definition pipe_buffer_new :: pipe_buffer where
  "pipe_buffer_new = \<lparr>pb_buf = replicate PIPE_BUF_SIZE 0, pb_write_pos = 0, pb_read_pos = 0, pb_len = 0,
    pb_read_refs = 0, pb_write_refs = 0, pb_waiter = 0\<rparr>"

fun write_bytes_loop :: "bytes \<Rightarrow> pipe_buffer \<Rightarrow> pipe_buffer option" where
  "write_bytes_loop [] pb = Some pb"
| "write_bytes_loop (b # bs) pb = do {
     buf \<leftarrow> array_set (pb_buf pb) (pb_write_pos pb) b;
     write_bytes_loop bs (pb\<lparr>pb_buf := buf, pb_write_pos := (pb_write_pos pb + 1) mod PIPE_BUF_SIZE\<rparr>)
   }"

definition write_bytes :: "pipe_buffer \<Rightarrow> bytes \<Rightarrow> (nat \<times> pipe_buffer) option" where
  "write_bytes pb dat = do {
     avail \<leftarrow> usub PIPE_BUF_SIZE (pb_len pb);
     let to_write = min (length dat) avail;
     pb' \<leftarrow> write_bytes_loop (take to_write dat) pb;
     Some (to_write, pb'\<lparr>pb_len := pb_len pb' + to_write\<rparr>)
   }"

fun read_bytes_loop :: "nat \<Rightarrow> pipe_buffer \<Rightarrow> (bytes \<times> pipe_buffer) option" where
  "read_bytes_loop 0 pb = Some ([], pb)"
| "read_bytes_loop (Suc n) pb = do {
     b \<leftarrow> array_get (pb_buf pb) (pb_read_pos pb);
     (bs, pb') \<leftarrow> read_bytes_loop n (pb\<lparr>pb_read_pos := (pb_read_pos pb + 1) mod PIPE_BUF_SIZE\<rparr>);
     Some (b # bs, pb')
   }"

definition read_bytes :: "pipe_buffer \<Rightarrow> bytes \<Rightarrow> (nat \<times> bytes \<times> pipe_buffer) option" where
  "read_bytes pb dst = do {
     let to_read = min (length dst) (pb_len pb);
     (bs, pb') \<leftarrow> read_bytes_loop to_read pb;
     Some (to_read, overwrite_front dst bs, pb'\<lparr>pb_len := pb_len pb' - to_read\<rparr>)
   }"

definition pipe_is_full :: "pipe_buffer \<Rightarrow> bool" where
  "pipe_is_full pb \<longleftrightarrow> pb_len pb = PIPE_BUF_SIZE"

definition wake_reader :: "pipe_buffer \<Rightarrow> thread_id list" where
  "wake_reader pb = (if pb_waiter pb \<noteq> 0 then [pb_waiter pb] else [])"

type_synonym pipe_table = "pipe_buffer option list"

definition pipe_table_new :: pipe_table where
  "pipe_table_new = replicate MAX_PIPES None"

definition alloc_pipe :: "pipe_table \<Rightarrow> nat option \<times> pipe_table" where
  "alloc_pipe t =
    (case find_index (\<lambda>slot. slot = None) t of
       Some i \<Rightarrow> (Some i, t[i := Some (pipe_buffer_new\<lparr>pb_read_refs := 1, pb_write_refs := 1\<rparr>)])
     | None \<Rightarrow> (None, t))"

text \<open>\<^emph>\<open>table.get_mut(id)\<close>: out of range is the same as a free slot.\<close>

definition pipe_at :: "pipe_table \<Rightarrow> nat \<Rightarrow> pipe_buffer option" where
  "pipe_at t i = (if i < length t then t ! i else None)"

definition close_write_end :: "nat \<Rightarrow> pipe_table \<Rightarrow> thread_id list \<times> pipe_table" where
  "close_write_end i t =
    (case pipe_at t i of
       None \<Rightarrow> ([], t)
     | Some pb \<Rightarrow>
         let pb1 = (if pb_write_refs pb > 0 then pb\<lparr>pb_write_refs := pb_write_refs pb - 1\<rparr> else pb);
             woken = (if pb_write_refs pb1 = 0 then wake_reader pb1 else [])
         in (woken, t[i := if pb_read_refs pb1 = 0 \<and> pb_write_refs pb1 = 0 then None else Some pb1]))"

definition close_read_end :: "nat \<Rightarrow> pipe_table \<Rightarrow> pipe_table" where
  "close_read_end i t =
    (case pipe_at t i of
       None \<Rightarrow> t
     | Some pb \<Rightarrow>
         let pb1 = (if pb_read_refs pb > 0 then pb\<lparr>pb_read_refs := pb_read_refs pb - 1\<rparr> else pb)
         in t[i := if pb_read_refs pb1 = 0 \<and> pb_write_refs pb1 = 0 then None else Some pb1])"

definition pipe_write :: "nat \<Rightarrow> bytes \<Rightarrow> pipe_table \<Rightarrow> ((u64 + nat) \<times> thread_id list \<times> pipe_table) option" where
  "pipe_write i dat t =
    (case pipe_at t i of
       None \<Rightarrow> Some (Inl EPIPE, [], t)
     | Some pb \<Rightarrow>
         if pb_read_refs pb = 0 then Some (Inl EPIPE, [], t)
         else if pipe_is_full pb then Some (Inl EAGAIN, [], t)
         else do {
           (n, pb') \<leftarrow> write_bytes pb dat;
           Some (Inr n, wake_reader pb', t[i := Some pb'])
         })"

text \<open>
  One turn of the loop of \<^emph>\<open>pipe_read_blocking\<close> under the lock: it returns the bytes read, or end of file as no
  bytes, or registers the current thread and waits.
\<close>

datatype read_turn = ReadDone nat bytes | ReadWait

definition pipe_read_turn :: "nat \<Rightarrow> bytes \<Rightarrow> thread_id option \<Rightarrow> pipe_table \<Rightarrow> (read_turn \<times> pipe_table) option" where
  "pipe_read_turn i dst current t =
    (case pipe_at t i of
       None \<Rightarrow> Some (ReadDone 0 dst, t)
     | Some pb \<Rightarrow>
         if pb_len pb > 0 then do {
           (n, dst', pb') \<leftarrow> read_bytes pb dst;
           Some (ReadDone n dst', t[i := Some pb'])
         }
         else if pb_write_refs pb = 0 then Some (ReadDone 0 dst, t)
         else Some (ReadWait, t[i := Some (case current of Some tid \<Rightarrow> pb\<lparr>pb_waiter := tid\<rparr> | None \<Rightarrow> pb)]))"

definition pipe_clear_waiter :: "nat \<Rightarrow> pipe_table \<Rightarrow> pipe_table" where
  "pipe_clear_waiter i t =
    (case pipe_at t i of None \<Rightarrow> t | Some pb \<Rightarrow> t[i := Some (pb\<lparr>pb_waiter := 0\<rparr>)])"

section \<open>Invariant\<close>

definition pipe_contents :: "pipe_buffer \<Rightarrow> bytes" where
  "pipe_contents pb = ring_slice (pb_buf pb) (pb_read_pos pb) (pb_len pb)"

definition pipe_wf :: "pipe_buffer \<Rightarrow> bool" where
  "pipe_wf pb \<longleftrightarrow> length (pb_buf pb) = PIPE_BUF_SIZE \<and> pb_read_pos pb < PIPE_BUF_SIZE \<and> pb_len pb \<le> PIPE_BUF_SIZE
    \<and> pb_write_pos pb = (pb_read_pos pb + pb_len pb) mod PIPE_BUF_SIZE"

definition pipe_table_wf :: "pipe_table \<Rightarrow> bool" where
  "pipe_table_wf t \<longleftrightarrow> length t = MAX_PIPES \<and> (\<forall>pb. Some pb \<in> set t \<longrightarrow> pipe_wf pb)"

lemma pipe_buf_pos [simp]: "0 < PIPE_BUF_SIZE"
  by (simp add: PIPE_BUF_SIZE_def)

lemma length_pipe_contents [simp]: "length (pipe_contents pb) = pb_len pb"
  by (simp add: pipe_contents_def)

lemma pipe_new_wf: "pipe_wf (pipe_buffer_new\<lparr>pb_read_refs := r, pb_write_refs := w\<rparr>)"
  "pipe_contents (pipe_buffer_new\<lparr>pb_read_refs := r, pb_write_refs := w\<rparr>) = []"
  by (simp_all add: pipe_wf_def pipe_buffer_new_def pipe_contents_def)

text \<open>
  The write loop does not touch the length; the bytes it stores follow the ones already there.
\<close>

lemma write_bytes_loop_spec:
  assumes "length (pb_buf pb) = PIPE_BUF_SIZE" "n + length bs \<le> PIPE_BUF_SIZE"
    "pb_write_pos pb = (pb_read_pos pb + n) mod PIPE_BUF_SIZE"
  shows "\<exists>buf. write_bytes_loop bs pb = Some (pb\<lparr>pb_buf := buf, pb_write_pos := (pb_read_pos pb + n + length bs) mod PIPE_BUF_SIZE\<rparr>)
    \<and> length buf = PIPE_BUF_SIZE
    \<and> ring_slice buf (pb_read_pos pb) (n + length bs) = ring_slice (pb_buf pb) (pb_read_pos pb) n @ bs"
  using assms
proof (induction bs arbitrary: pb n)
  case Nil
  then show ?case by (intro exI[of _ "pb_buf pb"]) simp
next
  case (Cons b bs)
  let ?buf = "(pb_buf pb)[pb_write_pos pb := b]"
  let ?pb = "pb\<lparr>pb_buf := ?buf, pb_write_pos := (pb_write_pos pb + 1) mod PIPE_BUF_SIZE\<rparr>"
  have w: "pb_write_pos pb < length (pb_buf pb)" using Cons.prems by simp
  have s: "ring_slice ?buf (pb_read_pos pb) (Suc n) = ring_slice (pb_buf pb) (pb_read_pos pb) n @ [b]"
    using Cons.prems ring_slice_write[of n "pb_buf pb" "pb_read_pos pb" b] by simp
  obtain buf where IH: "write_bytes_loop bs ?pb =
      Some (?pb\<lparr>pb_buf := buf, pb_write_pos := (pb_read_pos ?pb + Suc n + length bs) mod PIPE_BUF_SIZE\<rparr>)"
    "length buf = PIPE_BUF_SIZE"
    "ring_slice buf (pb_read_pos ?pb) (Suc n + length bs) = ring_slice ?buf (pb_read_pos ?pb) (Suc n) @ bs"
    using Cons.IH[of ?pb "Suc n"] Cons.prems by (auto simp: mod_Suc_eq)
  show ?case
    using IH w s by (intro exI[of _ buf]) simp
qed

lemma write_bytes_spec:
  assumes "pipe_wf pb"
  shows "\<exists>pb'. write_bytes pb dat = Some (min (length dat) (PIPE_BUF_SIZE - pb_len pb), pb') \<and> pipe_wf pb'
    \<and> pipe_contents pb' = pipe_contents pb @ take (PIPE_BUF_SIZE - pb_len pb) dat
    \<and> pb_read_refs pb' = pb_read_refs pb \<and> pb_write_refs pb' = pb_write_refs pb \<and> pb_waiter pb' = pb_waiter pb"
proof -
  let ?n = "min (length dat) (PIPE_BUF_SIZE - pb_len pb)"
  have tk: "take ?n dat = take (PIPE_BUF_SIZE - pb_len pb) dat" by (metis min.commute take_all take_take order_refl)
  have len: "length (take ?n dat) = ?n" by simp
  have fits: "pb_len pb + ?n \<le> PIPE_BUF_SIZE" using assms by (auto simp: pipe_wf_def)
  obtain buf where b: "write_bytes_loop (take ?n dat) pb =
      Some (pb\<lparr>pb_buf := buf, pb_write_pos := (pb_read_pos pb + pb_len pb + ?n) mod PIPE_BUF_SIZE\<rparr>)"
    "length buf = PIPE_BUF_SIZE"
    "ring_slice buf (pb_read_pos pb) (pb_len pb + ?n) = pipe_contents pb @ take ?n dat"
    using write_bytes_loop_spec[of pb "pb_len pb" "take ?n dat"] fits assms unfolding len pipe_wf_def pipe_contents_def
    by blast
  let ?pb = "pb\<lparr>pb_buf := buf, pb_write_pos := (pb_read_pos pb + pb_len pb + ?n) mod PIPE_BUF_SIZE, pb_len := pb_len pb + ?n\<rparr>"
  have "write_bytes pb dat = Some (?n, ?pb)"
    using assms b(1) by (simp add: write_bytes_def pipe_wf_def Let_def)
  moreover have "pipe_wf ?pb" using assms b(2) by (auto simp: pipe_wf_def ac_simps)
  moreover have "pipe_contents ?pb = pipe_contents pb @ take (PIPE_BUF_SIZE - pb_len pb) dat"
    using b(3) tk by (simp add: pipe_contents_def)
  ultimately show ?thesis by (intro exI[of _ ?pb]) simp
qed

lemma read_bytes_loop_spec:
  assumes "length (pb_buf pb) = PIPE_BUF_SIZE" "pb_read_pos pb < PIPE_BUF_SIZE"
  shows "read_bytes_loop n pb =
    Some (ring_slice (pb_buf pb) (pb_read_pos pb) n, pb\<lparr>pb_read_pos := (pb_read_pos pb + n) mod PIPE_BUF_SIZE\<rparr>)"
  using assms
proof (induction n arbitrary: pb)
  case (Suc n)
  let ?pb = "pb\<lparr>pb_read_pos := (pb_read_pos pb + 1) mod PIPE_BUF_SIZE\<rparr>"
  have "read_bytes_loop n ?pb = Some (ring_slice (pb_buf pb) (Suc (pb_read_pos pb) mod PIPE_BUF_SIZE) n,
      ?pb\<lparr>pb_read_pos := (pb_read_pos pb + Suc n) mod PIPE_BUF_SIZE\<rparr>)"
    using Suc.IH[of ?pb] Suc.prems by (simp add: mod_add_left_eq)
  then show ?case
    using Suc.prems ring_slice_Suc[of "pb_buf pb" "pb_read_pos pb" n] by simp
qed simp

lemma ring_slice_split:
  "n \<le> m \<Longrightarrow> ring_slice arr h m = ring_slice arr h n @ ring_slice arr ((h + n) mod length arr) (m - n)"
  by (rule nth_equalityI) (auto simp: nth_append nth_ring_slice mod_add_left_eq ac_simps)

lemma read_bytes_spec:
  assumes "pipe_wf pb"
  shows "\<exists>pb'. read_bytes pb dst = Some (min (length dst) (pb_len pb),
      overwrite_front dst (take (length dst) (pipe_contents pb)), pb') \<and> pipe_wf pb'
    \<and> pipe_contents pb' = drop (length dst) (pipe_contents pb)
    \<and> pb_read_refs pb' = pb_read_refs pb \<and> pb_write_refs pb' = pb_write_refs pb \<and> pb_waiter pb' = pb_waiter pb"
proof -
  let ?n = "min (length dst) (pb_len pb)"
  let ?pb = "pb\<lparr>pb_read_pos := (pb_read_pos pb + ?n) mod PIPE_BUF_SIZE, pb_len := pb_len pb - ?n\<rparr>"
  have c: "pipe_contents pb = ring_slice (pb_buf pb) (pb_read_pos pb) ?n @ pipe_contents ?pb"
    using ring_slice_split[of ?n "pb_len pb" "pb_buf pb" "pb_read_pos pb"] assms
    by (simp add: pipe_contents_def pipe_wf_def)
  have front: "take (length dst) (pipe_contents pb) = ring_slice (pb_buf pb) (pb_read_pos pb) ?n"
    and rest: "drop (length dst) (pipe_contents pb) = pipe_contents ?pb"
  proof -
    have "length dst = ?n \<or> pipe_contents ?pb = [] \<and> pb_len pb \<le> length dst"
      by (auto simp: min_def pipe_contents_def)
    then show "take (length dst) (pipe_contents pb) = ring_slice (pb_buf pb) (pb_read_pos pb) ?n"
      "drop (length dst) (pipe_contents pb) = pipe_contents ?pb"
      using c by (auto simp: min_def split: if_splits)
  qed
  have "read_bytes pb dst = Some (?n, overwrite_front dst (take (length dst) (pipe_contents pb)), ?pb)"
    using assms read_bytes_loop_spec[of pb ?n] front by (simp add: read_bytes_def pipe_wf_def Let_def)
  moreover have "pipe_wf ?pb"
  proof -
    have "((pb_read_pos pb + ?n) mod PIPE_BUF_SIZE + (pb_len pb - ?n)) mod PIPE_BUF_SIZE =
        (pb_read_pos pb + pb_len pb) mod PIPE_BUF_SIZE"
      unfolding mod_add_left_eq by simp
    then show ?thesis using assms by (simp add: pipe_wf_def) linarith
  qed
  ultimately show ?thesis using rest by (intro exI[of _ ?pb]) simp
qed

section \<open>The table\<close>

lemma pipe_at_wf: "\<lbrakk>pipe_table_wf t; pipe_at t i = Some pb\<rbrakk> \<Longrightarrow> pipe_wf pb \<and> i < length t"
  by (auto simp: pipe_table_wf_def pipe_at_def split: if_splits) (metis nth_mem)

lemma pipe_table_wf_update:
  "\<lbrakk>pipe_table_wf t; \<And>pb. slot = Some pb \<Longrightarrow> pipe_wf pb\<rbrakk> \<Longrightarrow> pipe_table_wf (t[i := slot])"
  using set_update_subset_insert[of t i slot] by (auto simp: pipe_table_wf_def)

lemma pipe_at_update: "i < length t \<Longrightarrow> pipe_at (t[i := slot]) j = (if j = i then slot else pipe_at t j)"
  by (auto simp: pipe_at_def)

lemma pipe_table_new_wf [simp]: "pipe_table_wf pipe_table_new"
  by (auto simp: pipe_table_wf_def pipe_table_new_def)

lemma alloc_pipe_wf: "pipe_table_wf t \<Longrightarrow> pipe_table_wf (snd (alloc_pipe t))"
  using pipe_new_wf(1)[of 1 1] by (auto simp: alloc_pipe_def intro!: pipe_table_wf_update split: option.splits)

lemma close_write_end_wf: "pipe_table_wf t \<Longrightarrow> pipe_table_wf (snd (close_write_end i t))"
  using pipe_at_wf[of t i]
  by (auto simp: close_write_end_def Let_def pipe_wf_def intro!: pipe_table_wf_update split: option.splits if_splits)

lemma close_read_end_wf: "pipe_table_wf t \<Longrightarrow> pipe_table_wf (close_read_end i t)"
  using pipe_at_wf[of t i]
  by (auto simp: close_read_end_def Let_def pipe_wf_def intro!: pipe_table_wf_update split: option.splits if_splits)

lemma pipe_clear_waiter_wf: "pipe_table_wf t \<Longrightarrow> pipe_table_wf (pipe_clear_waiter i t)"
  using pipe_at_wf[of t i]
  by (auto simp: pipe_clear_waiter_def pipe_wf_def intro!: pipe_table_wf_update split: option.splits)

lemma pipe_write_spec:
  assumes "pipe_table_wf t" "pipe_at t i = Some pb" "pb_read_refs pb \<noteq> 0"
  shows "\<exists>r w t' pb'. pipe_write i dat t = Some (r, w, t') \<and> pipe_table_wf t' \<and> pipe_at t' i = Some pb'
    \<and> pb_read_refs pb' = pb_read_refs pb \<and> pb_write_refs pb' = pb_write_refs pb
    \<and> (if pb_len pb = PIPE_BUF_SIZE then r = Inl EAGAIN \<and> w = [] \<and> pb' = pb
       else r = Inr (min (length dat) (PIPE_BUF_SIZE - pb_len pb)) \<and> w = wake_reader pb
         \<and> pipe_contents pb' = pipe_contents pb @ take (PIPE_BUF_SIZE - pb_len pb) dat)"
proof (cases "pb_len pb = PIPE_BUF_SIZE")
  case True
  then show ?thesis using assms by (simp add: pipe_write_def pipe_is_full_def)
next
  case False
  have pb: "pipe_wf pb" "i < length t" using pipe_at_wf[OF assms(1,2)] by simp_all
  obtain pb' where w: "write_bytes pb dat = Some (min (length dat) (PIPE_BUF_SIZE - pb_len pb), pb')" "pipe_wf pb'"
    "pipe_contents pb' = pipe_contents pb @ take (PIPE_BUF_SIZE - pb_len pb) dat"
    "pb_read_refs pb' = pb_read_refs pb" "pb_write_refs pb' = pb_write_refs pb" "pb_waiter pb' = pb_waiter pb"
    using write_bytes_spec[OF pb(1)] by blast
  have "wake_reader pb' = wake_reader pb" using w(6) by (simp add: wake_reader_def)
  then have "pipe_write i dat t = Some (Inr (min (length dat) (PIPE_BUF_SIZE - pb_len pb)), wake_reader pb, t[i := Some pb'])"
    using assms False w(1) by (simp add: pipe_write_def pipe_is_full_def)
  moreover have "pipe_table_wf (t[i := Some pb'])" using assms(1) w(2) by (intro pipe_table_wf_update) simp_all
  ultimately show ?thesis using False w pb(2) by (simp add: pipe_at_update)
qed

lemma pipe_read_turn_spec:
  assumes "pipe_table_wf t" "pipe_at t i = Some pb"
  shows "\<exists>r t' pb'. pipe_read_turn i dst cur t = Some (r, t') \<and> pipe_table_wf t' \<and> pipe_at t' i = Some pb'
    \<and> pb_read_refs pb' = pb_read_refs pb \<and> pb_write_refs pb' = pb_write_refs pb
    \<and> (if 0 < pb_len pb then
         r = ReadDone (min (length dst) (pb_len pb)) (overwrite_front dst (take (length dst) (pipe_contents pb)))
         \<and> pipe_contents pb' = drop (length dst) (pipe_contents pb)
       else pipe_contents pb' = pipe_contents pb \<and>
         r = (if pb_write_refs pb = 0 then ReadDone 0 dst else ReadWait))"
proof -
  have pb: "pipe_wf pb" "i < length t" using pipe_at_wf[OF assms] by simp_all
  show ?thesis
  proof (cases "0 < pb_len pb")
    case True
    obtain pb' where r: "read_bytes pb dst = Some (min (length dst) (pb_len pb),
        overwrite_front dst (take (length dst) (pipe_contents pb)), pb')" "pipe_wf pb'"
      "pipe_contents pb' = drop (length dst) (pipe_contents pb)"
      "pb_read_refs pb' = pb_read_refs pb" "pb_write_refs pb' = pb_write_refs pb"
      using read_bytes_spec[OF pb(1)] by blast
    have "pipe_table_wf (t[i := Some pb'])" using assms(1) r(2) by (intro pipe_table_wf_update) simp_all
    then show ?thesis using assms True r pb(2) by (simp add: pipe_read_turn_def pipe_at_update)
  next
    case False
    let ?pb = "case cur of Some tid \<Rightarrow> pb\<lparr>pb_waiter := tid\<rparr> | None \<Rightarrow> pb"
    have "pipe_wf ?pb" "pipe_contents ?pb = pipe_contents pb" "pb_read_refs ?pb = pb_read_refs pb"
      "pb_write_refs ?pb = pb_write_refs pb"
      using pb(1) by (auto simp: pipe_wf_def pipe_contents_def split: option.splits)
    moreover from this have "pipe_table_wf (t[i := Some ?pb])"
      using assms(1) by (intro pipe_table_wf_update) simp_all
    ultimately show ?thesis
      using assms False pb(2) by (cases "pb_write_refs pb = 0") (auto simp: pipe_read_turn_def pipe_at_update)
  qed
qed

section \<open>Properties\<close>

text \<open>
  A run of writes and reads on one pipe: the bytes the writes accepted and the bytes the reads returned, each
  in order.
\<close>

datatype pipe_op = PipeWrite bytes | PipeRead nat

fun run_pipe :: "nat \<Rightarrow> pipe_op list \<Rightarrow> pipe_table \<Rightarrow> (bytes \<times> bytes \<times> pipe_table) option" where
  "run_pipe i [] t = Some ([], [], t)"
| "run_pipe i (PipeWrite d # ops) t = do {
     (r, _, t') \<leftarrow> pipe_write i d t;
     (a, b, t'') \<leftarrow> run_pipe i ops t';
     Some ((case r of Inr n \<Rightarrow> take n d | Inl _ \<Rightarrow> []) @ a, b, t'')
   }"
| "run_pipe i (PipeRead n # ops) t = do {
     (r, t') \<leftarrow> pipe_read_turn i (replicate n 0) None t;
     (a, b, t'') \<leftarrow> run_pipe i ops t';
     Some (a, (case r of ReadDone k dst \<Rightarrow> take k dst | ReadWait \<Rightarrow> []) @ b, t'')
   }"

text \<open>
  C30. A pipe is a byte stream: for every sequence of writes and reads on an open pipe no operation panics, and
  the bytes already buffered followed by the bytes the writes accepted are exactly the bytes the reads returned
  followed by the bytes still buffered, so none is lost, repeated or reordered.
\<close>

theorem pipe_is_byte_stream:
  assumes "pipe_table_wf t" "pipe_at t i = Some pb" "pb_read_refs pb \<noteq> 0"
  shows "\<exists>accepted returned t' pb'. run_pipe i ops t = Some (accepted, returned, t')
    \<and> pipe_table_wf t' \<and> pipe_at t' i = Some pb'
    \<and> pipe_contents pb @ accepted = returned @ pipe_contents pb' \<and> pb_len pb' \<le> PIPE_BUF_SIZE"
  using assms
proof (induction ops arbitrary: t pb)
  case Nil
  then show ?case using pipe_at_wf[OF Nil(1,2)] by (auto simp: pipe_wf_def)
next
  case (Cons op ops)
  show ?case
  proof (cases op)
    case (PipeWrite d)
    obtain r w t' pb' where w: "pipe_write i d t = Some (r, w, t')" "pipe_table_wf t'" "pipe_at t' i = Some pb'"
      "pb_read_refs pb' = pb_read_refs pb"
      and c: "if pb_len pb = PIPE_BUF_SIZE then r = Inl EAGAIN \<and> w = [] \<and> pb' = pb
       else r = Inr (min (length d) (PIPE_BUF_SIZE - pb_len pb)) \<and> w = wake_reader pb
         \<and> pipe_contents pb' = pipe_contents pb @ take (PIPE_BUF_SIZE - pb_len pb) d"
      using pipe_write_spec[OF Cons.prems, of d] by blast
    have acc: "pipe_contents pb' = pipe_contents pb @ (case r of Inr n \<Rightarrow> take n d | Inl _ \<Rightarrow> [])"
      using c by (auto split: if_splits simp: min_def)
    obtain a b t'' pb'' where "run_pipe i ops t' = Some (a, b, t'')" "pipe_table_wf t''" "pipe_at t'' i = Some pb''"
      "pipe_contents pb' @ a = b @ pipe_contents pb''" "pb_len pb'' \<le> PIPE_BUF_SIZE"
      using Cons.IH[OF w(2,3)] w(4) Cons.prems(3) by auto
    then show ?thesis using PipeWrite w(1) acc by auto
  next
    case (PipeRead n)
    obtain r t' pb' where w: "pipe_read_turn i (replicate n 0) None t = Some (r, t')" "pipe_table_wf t'"
      "pipe_at t' i = Some pb'" "pb_read_refs pb' = pb_read_refs pb"
      and c: "if 0 < pb_len pb then
         r = ReadDone (min (length (replicate n (0::u8))) (pb_len pb))
           (overwrite_front (replicate n 0) (take (length (replicate n (0::u8))) (pipe_contents pb)))
         \<and> pipe_contents pb' = drop (length (replicate n (0::u8))) (pipe_contents pb)
       else pipe_contents pb' = pipe_contents pb \<and> r = (if pb_write_refs pb = 0 then ReadDone 0 (replicate n 0) else ReadWait)"
      using pipe_read_turn_spec[OF Cons.prems(1,2), of "replicate n 0" None] by blast
    have ret: "pipe_contents pb = (case r of ReadDone k dst \<Rightarrow> take k dst | ReadWait \<Rightarrow> []) @ pipe_contents pb'"
      using c by (auto split: if_splits simp: min_def overwrite_front_def)
    obtain a b t'' pb'' where "run_pipe i ops t' = Some (a, b, t'')" "pipe_table_wf t''" "pipe_at t'' i = Some pb''"
      "pipe_contents pb' @ a = b @ pipe_contents pb''" "pb_len pb'' \<le> PIPE_BUF_SIZE"
      using Cons.IH[OF w(2,3)] w(4) Cons.prems(3) by auto
    then show ?thesis using PipeRead w(1) ret by auto
  qed
qed

theorem pipe_is_byte_stream_witness:
  "\<exists>accepted returned t' pb'. run_pipe 0 [PipeWrite [1, 2, 3], PipeRead 2, PipeWrite [4], PipeRead 9]
      (snd (alloc_pipe pipe_table_new)) = Some (accepted, returned, t')
    \<and> pipe_at t' 0 = Some pb' \<and> accepted = returned @ pipe_contents pb'"
proof -
  let ?pb = "pipe_buffer_new\<lparr>pb_read_refs := 1, pb_write_refs := 1\<rparr>"
  have "find_index (\<lambda>slot. slot = None) pipe_table_new = Some 0"
    by (simp add: find_index_Some pipe_table_new_def MAX_PIPES_def)
  then have "pipe_at (snd (alloc_pipe pipe_table_new)) 0 = Some ?pb"
    by (simp add: alloc_pipe_def pipe_at_def pipe_table_new_def MAX_PIPES_def)
  then show ?thesis
    using pipe_is_byte_stream[OF alloc_pipe_wf[OF pipe_table_new_wf], of 0 ?pb
        "[PipeWrite [1, 2, 3], PipeRead 2, PipeWrite [4], PipeRead 9]"]
    unfolding pipe_new_wf(2)[of 1 1] by fastforce
qed

end
