(* ===== verification/Memory.thy ===== *)
theory Memory
  imports Bytes
begin

text \<open>
  Physical memory as a map from addresses to bytes. The kernel reaches physical address \<^emph>\<open>p\<close> through the direct map
  at virtual address \<^emph>\<open>p + phys_offset\<close>; an access through such a pointer is an access at \<^emph>\<open>p\<close> here.
\<close>

type_synonym phys_mem = "u64 \<Rightarrow> u8"

definition mem_read :: "phys_mem \<Rightarrow> u64 \<Rightarrow> nat \<Rightarrow> bytes" where
  "mem_read m a n = map (\<lambda>i. m (a + of_nat i)) [0..<n]"

definition mem_write :: "phys_mem \<Rightarrow> u64 \<Rightarrow> bytes \<Rightarrow> phys_mem" where
  "mem_write m a bs = (\<lambda>x. if unat (x - a) < length bs then bs ! unat (x - a) else m x)"

definition mem_read_u64 :: "phys_mem \<Rightarrow> u64 \<Rightarrow> u64" where
  "mem_read_u64 m a = from_le_bytes (mem_read m a 8)"

definition mem_write_u64 :: "phys_mem \<Rightarrow> u64 \<Rightarrow> u64 \<Rightarrow> phys_mem" where
  "mem_write_u64 m a v = mem_write m a (to_le_bytes v)"

lemma length_mem_read [simp]: "length (mem_read m a n) = n"
  by (simp add: mem_read_def)

lemma mem_read_write_same:
  "length bs \<le> 2 ^ 64 - 1 \<Longrightarrow> mem_read (mem_write m a bs) a (length bs) = bs"
  by (rule nth_equalityI) (auto simp: mem_read_def mem_write_def unat_of_nat)

lemma mem_read_cong: "(\<And>i. i < n \<Longrightarrow> m (a + of_nat i) = m' (a + of_nat i)) \<Longrightarrow> mem_read m a n = mem_read m' a n"
  by (simp add: mem_read_def)

lemma mem_read_u64_write_same [simp]: "mem_read_u64 (mem_write_u64 m a v) a = v"
proof -
  have "mem_read (mem_write m a (to_le_bytes v)) a 8 = to_le_bytes v"
    using mem_read_write_same[of "to_le_bytes v" m a] by simp
  then show ?thesis by (simp add: mem_read_u64_def mem_write_u64_def)
qed

text \<open>Two aligned 8-byte cells are the same or disjoint.\<close>

definition aligned8 :: "u64 \<Rightarrow> bool" where
  "aligned8 a \<longleftrightarrow> unat a mod 8 = 0"

lemma aligned8_room: "aligned8 a \<Longrightarrow> unat a + 8 \<le> 2 ^ 64"
proof -
  assume "aligned8 a"
  then obtain k where k: "unat a = 8 * k" by (auto simp: aligned8_def)
  then have "8 * k < 2 ^ 64" using unat_u64_lt[of a] by simp
  then show ?thesis using k by simp
qed

lemma aligned8_disjoint:
  assumes "aligned8 a" "aligned8 b" "a \<noteq> b" "i < 8"
  shows "\<not> unat (b + of_nat i - a) < 8"
proof -
  have a: "8 dvd unat a" and b: "8 dvd unat b" using assms by (auto simp: aligned8_def)
  have bi: "unat (b + of_nat i) = unat b + i"
  proof -
    have "unat b + unat (of_nat i :: u64) < 2 ^ 64" using aligned8_room[OF assms(2)] assms(4) by (simp add: unat_of_nat)
    then show ?thesis using assms(4) by (simp add: unat_word_ariths unat_of_nat)
  qed
  show ?thesis
  proof (cases "unat a \<le> unat b")
    case True
    then have "unat a + 8 \<le> unat b"
      using a b assms(3) by (metis dvd_imp_le dvd_minus_self le_add_diff_inverse add_left_mono dvd_diff_nat
          nat_less_le word_unat_eq_iff zero_less_diff)
    then have "unat (b + of_nat i - a) = unat b + i - unat a"
      using bi by (subst unat_sub) (simp_all add: word_le_nat_alt)
    then show ?thesis using \<open>unat a + 8 \<le> unat b\<close> by simp
  next
    case False
    then have "unat b + 8 \<le> unat a"
      using a b by (metis dvd_imp_le dvd_diff_nat le_add_diff_inverse add_left_mono not_le zero_less_diff less_imp_le)
    then have lt: "unat (b + of_nat i) < unat a" using bi assms(4) by simp
    have "unat (b + of_nat i - a) = 2 ^ 64 + unat (b + of_nat i) - unat a"
      using lt by (simp add: unat_sub_if')
    then show ?thesis using lt bi aligned8_room[OF assms(1)] by simp
  qed
qed

lemma mem_read_u64_write_other:
  assumes "aligned8 a" "aligned8 b" "a \<noteq> b"
  shows "mem_read_u64 (mem_write_u64 m a v) b = mem_read_u64 m b"
proof -
  have "mem_read (mem_write m a (to_le_bytes v)) b 8 = mem_read m b 8"
    by (rule mem_read_cong) (use aligned8_disjoint[OF assms] in \<open>simp add: mem_write_def\<close>)
  then show ?thesis by (simp add: mem_read_u64_def mem_write_u64_def)
qed

end
