(* ===== verification/Frame.thy ===== *)
theory Frame
  imports Memory
begin

text \<open>
  The physical frame allocator and the MMIO policy, from \<^verbatim>\<open>src/src/core/mem/frame.rs\<close>, over the memory map of
  \<^verbatim>\<open>src/src/core/lib.rs\<close>. Freed frames form a list threaded through their own first eight bytes; fresh ones come from
  a scan of the memory map upwards from 1 MiB. A frame is its start address. \<^emph>\<open>PhysFrame::containing_address\<close>
  belongs to the x86\_64 crate and is the argument \<^emph>\<open>phys_frame\<close>; what is used of it is that it leaves a page-aligned
  address alone.
\<close>

section \<open>Operations\<close>

datatype memory_type = Usable | Reserved | AcpiReclaimable | AcpiNvs | BadMemory | BootloaderReclaimable
  | KernelStack | PageTable | Framebuffer

record memory_region =
  mr_start :: u64
  mr_len :: u64
  mr_type :: memory_type

record frame_allocator =
  fa_memory_map :: "memory_region list"
  fa_next_frame :: nat
  fa_free_list_head :: u64
  fa_phys_offset :: u64

definition frame_allocator_new :: "memory_region list \<Rightarrow> u64 \<Rightarrow> frame_allocator" where
  "frame_allocator_new mm off = \<lparr>fa_memory_map = mm, fa_next_frame = 0x100000 div 4096,
    fa_free_list_head = 0, fa_phys_offset = off\<rparr>"

definition is_usable_frame_addr :: "memory_region list \<Rightarrow> u64 \<Rightarrow> bool" where
  "is_usable_frame_addr mm p \<longleftrightarrow>
    (\<exists>r\<in>set mm. mr_type r = Usable \<and> mr_start r \<le> p \<and> p < mr_start r + mr_len r)"

definition fa_deallocate_frame :: "u64 \<Rightarrow> frame_allocator \<Rightarrow> phys_mem \<Rightarrow> bool \<times> frame_allocator \<times> phys_mem" where
  "fa_deallocate_frame p fa m =
    (if p AND 0xfff \<noteq> 0 \<or> \<not> is_usable_frame_addr (fa_memory_map fa) p then (False, fa, m)
     else if fa_phys_offset fa = 0 then (False, fa, m)
     else (True, fa\<lparr>fa_free_list_head := p\<rparr>, mem_write_u64 m p (fa_free_list_head fa)))"

definition usable_memory :: "frame_allocator \<Rightarrow> u64" where
  "usable_memory fa = sum_list (map mr_len (filter (\<lambda>r. mr_type r = Usable) (fa_memory_map fa)))"

definition usable_frames :: "frame_allocator \<Rightarrow> u64" where
  "usable_frames fa = usable_memory fa div 4096"

definition max_frame :: "memory_region list \<Rightarrow> nat" where
  "max_frame mm = foldr (\<lambda>r acc. max (unat ((mr_start r + mr_len r) div 4096)) acc) mm 0"

definition fa_allocate_frame ::
  "(u64 \<Rightarrow> u64) \<Rightarrow> frame_allocator \<Rightarrow> phys_mem \<Rightarrow> u64 option \<times> frame_allocator \<times> phys_mem" where
  "fa_allocate_frame phys_frame fa m =
    (if fa_free_list_head fa \<noteq> 0 \<and> fa_phys_offset fa \<noteq> 0 then
       let phys = fa_free_list_head fa
       in (Some (phys_frame phys), fa\<lparr>fa_free_list_head := mem_read_u64 m phys\<rparr>, mem_write_u64 m phys 0)
     else
       case find (\<lambda>f. is_usable_frame_addr (fa_memory_map fa) (of_nat f * 4096))
              [fa_next_frame fa..<Suc (max_frame (fa_memory_map fa))] of
         Some f \<Rightarrow> (Some (phys_frame (of_nat f * 4096)), fa\<lparr>fa_next_frame := f + 1\<rparr>, m)
       | None \<Rightarrow> (None, fa, m))"

definition fa_set_phys_offset :: "u64 \<Rightarrow> frame_allocator \<Rightarrow> frame_allocator" where
  "fa_set_phys_offset off fa = fa\<lparr>fa_phys_offset := off\<rparr>"

definition ALLOW_RECLAIMABLE_MMIO :: bool where "ALLOW_RECLAIMABLE_MMIO = False"

fun mmio_region_type_allowed :: "memory_type \<Rightarrow> bool" where
  "mmio_region_type_allowed BadMemory = False"
| "mmio_region_type_allowed Reserved = True"
| "mmio_region_type_allowed AcpiNvs = True"
| "mmio_region_type_allowed Framebuffer = True"
| "mmio_region_type_allowed AcpiReclaimable = ALLOW_RECLAIMABLE_MMIO"
| "mmio_region_type_allowed BootloaderReclaimable = ALLOW_RECLAIMABLE_MMIO"
| "mmio_region_type_allowed _ = False"

text \<open>The loop over the memory map, with its two flags.\<close>

fun mmio_scan :: "u64 \<Rightarrow> u64 \<Rightarrow> memory_region list \<Rightarrow> bool \<Rightarrow> bool \<Rightarrow> bool" where
  "mmio_scan start_phys end_phys [] overlaps_any inside = (if inside then True else \<not> overlaps_any)"
| "mmio_scan start_phys end_phys (r # rs) overlaps_any inside =
    (if mr_len r = 0 then mmio_scan start_phys end_phys rs overlaps_any inside
     else case checked_add (mr_start r) (mr_len r - 1) of
         None \<Rightarrow> mmio_scan start_phys end_phys rs overlaps_any inside
       | Some region_end \<Rightarrow>
           if \<not> (start_phys \<le> region_end \<and> end_phys \<ge> mr_start r)
           then mmio_scan start_phys end_phys rs overlaps_any inside
           else if \<not> mmio_region_type_allowed (mr_type r) then False
           else mmio_scan start_phys end_phys rs True
                  (inside \<or> (start_phys \<ge> mr_start r \<and> end_phys \<le> region_end)))"

definition is_allowed_mmio_range :: "frame_allocator option \<Rightarrow> u64 \<Rightarrow> u64 \<Rightarrow> bool" where
  "is_allowed_mmio_range guard start_phys sz =
    (if sz = 0 then False
     else case checked_add start_phys (sz - 1) of
         None \<Rightarrow> False
       | Some end_phys \<Rightarrow> (case guard of
             None \<Rightarrow> False
           | Some fa \<Rightarrow> mmio_scan start_phys end_phys (fa_memory_map fa) False False))"

section \<open>Invariant\<close>

text \<open>The list of free frames threaded through memory from its head.\<close>

fun free_chain :: "phys_mem \<Rightarrow> u64 \<Rightarrow> u64 list \<Rightarrow> bool" where
  "free_chain m p [] \<longleftrightarrow> p = 0"
| "free_chain m p (q # qs) \<longleftrightarrow> p = q \<and> q \<noteq> 0 \<and> free_chain m (mem_read_u64 m q) qs"

definition frame_number :: "u64 \<Rightarrow> nat" where
  "frame_number p = unat p div 4096"

definition frame_aligned :: "u64 \<Rightarrow> bool" where
  "frame_aligned p \<longleftrightarrow> unat p mod 4096 = 0"

text \<open>
  \<^emph>\<open>A\<close> is the set of frames handed out and not given back. No free frame is in it, and every frame that was ever handed
  out is an aligned frame of usable memory below the scan position.
\<close>

definition frame_inv :: "u64 set \<Rightarrow> frame_allocator \<Rightarrow> phys_mem \<Rightarrow> bool" where
  "frame_inv A fa m \<longleftrightarrow> 256 \<le> fa_next_frame fa \<and> (\<exists>fl. free_chain m (fa_free_list_head fa) fl \<and> distinct fl \<and> set fl \<inter> A = {}
    \<and> (\<forall>p\<in>A \<union> set fl. frame_aligned p \<and> is_usable_frame_addr (fa_memory_map fa) p
          \<and> 256 \<le> frame_number p \<and> frame_number p < fa_next_frame fa))"

lemma frame_aligned_and: "frame_aligned p \<longleftrightarrow> p AND 0xfff = 0"
proof -
  have "p AND 0xfff = take_bit 12 p"
    by (simp add: take_bit_eq_mask mask_eq_exp_minus_1)
  moreover have "unat (take_bit 12 p) = unat p mod 4096"
    by (simp add: take_bit_eq_mod unat_mod)
  ultimately show ?thesis
    by (metis frame_aligned_def unat_eq_0)
qed

lemma frame_aligned_aligned8: "frame_aligned p \<Longrightarrow> aligned8 p"
  using mod_mod_cancel[of 8 4096 "unat p"] by (simp add: frame_aligned_def aligned8_def)

lemma frame_number_inj: "\<lbrakk>frame_aligned p; frame_aligned q; frame_number p = frame_number q\<rbrakk> \<Longrightarrow> p = q"
  unfolding frame_aligned_def frame_number_def by (metis mult_div_mod_eq word_unat_eq_iff)

lemma frame_number_offset:
  assumes "frame_aligned p" "i < 4096"
  shows "frame_number (p + of_nat i) = frame_number p"
proof -
  obtain k where k: "unat p = 4096 * k" using assms(1) by (auto simp: frame_aligned_def)
  have "4096 * k < 2 ^ 64" using unat_u64_lt[of p] k by simp
  then have "unat p + i < 2 ^ 64" using k assms(2) by simp
  then have "unat (p + of_nat i) = unat p + i"
    using assms(2) by (simp add: unat_word_ariths unat_of_nat)
  then show ?thesis using k assms(2) by (simp add: frame_number_def)
qed

lemma max_frame_bound: "max_frame mm < 2 ^ 52"
proof (induction mm)
  case (Cons r mm)
  have "unat ((mr_start r + mr_len r) div 4096) = unat (mr_start r + mr_len r) div 4096"
    by (simp add: unat_div)
  also have "\<dots> < 2 ^ 52"
    using unat_u64_lt[of "mr_start r + mr_len r"] by (simp add: less_mult_imp_div_less)
  finally show ?case using Cons by (simp add: max_frame_def)
qed (simp add: max_frame_def)

lemma bump_frame:
  assumes "f < 2 ^ 52"
  shows "frame_number (of_nat f * 4096) = f" "frame_aligned (of_nat f * 4096)"
proof -
  have "f * 4096 < 2 ^ 64" using assms by simp
  then have "unat ((of_nat f :: u64) * 4096) = f * 4096"
    by (simp add: unat_word_ariths unat_of_nat)
  then show "frame_number (of_nat f * 4096) = f" "frame_aligned (of_nat f * 4096)"
    by (simp_all add: frame_number_def frame_aligned_def)
qed

lemma free_chain_cong:
  "\<lbrakk>free_chain m p fl; \<forall>q\<in>set fl. mem_read_u64 m' q = mem_read_u64 m q\<rbrakk> \<Longrightarrow> free_chain m' p fl"
  by (induction fl arbitrary: p) auto

lemma mem_read_u64_unchanged:
  assumes "frame_aligned p" "\<And>x. frame_number x = frame_number p \<Longrightarrow> m' x = m x"
  shows "mem_read_u64 m' p = mem_read_u64 m p"
proof -
  have "mem_read m' p 8 = mem_read m p 8"
    by (rule mem_read_cong) (use assms frame_number_offset in simp)
  then show ?thesis by (simp add: mem_read_u64_def)
qed

lemma mem_write_u64_frame:
  assumes "frame_aligned p" "frame_number x \<noteq> frame_number p"
  shows "mem_write_u64 m p v x = m x"
proof -
  have "\<not> unat (x - p) < 8"
  proof
    assume "unat (x - p) < 8"
    then have "frame_number (p + of_nat (unat (x - p))) = frame_number p"
      by (intro frame_number_offset[OF assms(1)]) simp
    then show False using assms(2) by simp
  qed
  then show ?thesis by (simp add: mem_write_u64_def mem_write_def)
qed

section \<open>Steps\<close>

lemma frame_inv_new: "frame_inv {} (frame_allocator_new mm off) m"
  by (simp add: frame_inv_def frame_allocator_new_def exI[of _ "[]"])

lemma frame_inv_allocate:
  assumes inv: "frame_inv A fa m" and pf: "\<forall>a. a AND 0xfff = 0 \<longrightarrow> phys_frame a = a"
    and alloc: "fa_allocate_frame phys_frame fa m = (Some p, fa', m')"
  shows "p \<notin> A" "frame_aligned p" "is_usable_frame_addr (fa_memory_map fa) p" "256 \<le> frame_number p"
    "frame_inv (insert p A) fa' m'" "\<And>x. frame_number x \<noteq> frame_number p \<Longrightarrow> m' x = m x"
    "fa_memory_map fa' = fa_memory_map fa"
proof -
  obtain fl where fl: "free_chain m (fa_free_list_head fa) fl" "distinct fl" "set fl \<inter> A = {}" "256 \<le> fa_next_frame fa"
    and ok: "\<And>q. q \<in> A \<union> set fl \<Longrightarrow> frame_aligned q \<and> is_usable_frame_addr (fa_memory_map fa) q
          \<and> 256 \<le> frame_number q \<and> frame_number q < fa_next_frame fa"
    using inv by (auto simp: frame_inv_def)
  have "p \<notin> A \<and> frame_aligned p \<and> is_usable_frame_addr (fa_memory_map fa) p \<and> 256 \<le> frame_number p
    \<and> frame_inv (insert p A) fa' m' \<and> (\<forall>x. frame_number x \<noteq> frame_number p \<longrightarrow> m' x = m x)
    \<and> fa_memory_map fa' = fa_memory_map fa"
  proof (cases "fa_free_list_head fa \<noteq> 0 \<and> fa_phys_offset fa \<noteq> 0")
    case True
    then obtain q qs where q: "fl = q # qs" "fa_free_list_head fa = q" using fl(1) by (cases fl) auto
    have al: "frame_aligned q" using ok q by simp
    have p: "p = q" "fa' = fa\<lparr>fa_free_list_head := mem_read_u64 m q\<rparr>" "m' = mem_write_u64 m q 0"
      using alloc True q al pf by (auto simp: fa_allocate_frame_def frame_aligned_and)
    have "free_chain (mem_write_u64 m q 0) (mem_read_u64 m q) qs"
    proof (rule free_chain_cong)
      show "free_chain m (mem_read_u64 m q) qs" using fl(1) q by simp
      show "\<forall>x\<in>set qs. mem_read_u64 (mem_write_u64 m q 0) x = mem_read_u64 m x"
        using fl(2) q ok by (auto intro!: mem_read_u64_write_other frame_aligned_aligned8)
    qed
    then have "frame_inv (insert p A) fa' m'"
      using fl q ok p by (auto simp: frame_inv_def intro!: exI[of _ qs])
    then show ?thesis using fl q ok[of q] p mem_write_u64_frame[OF al] by auto
  next
    case False
    then obtain f where f: "find (\<lambda>f. is_usable_frame_addr (fa_memory_map fa) (of_nat f * 4096))
              [fa_next_frame fa..<Suc (max_frame (fa_memory_map fa))] = Some f"
      and res: "p = phys_frame (of_nat f * 4096)" "fa' = fa\<lparr>fa_next_frame := f + 1\<rparr>" "m' = m"
      using alloc by (auto simp: fa_allocate_frame_def split: option.splits)
    have fu: "is_usable_frame_addr (fa_memory_map fa) (of_nat f * 4096)"
      and fr: "fa_next_frame fa \<le> f" "f \<le> max_frame (fa_memory_map fa)"
    proof -
      have "f \<in> set [fa_next_frame fa..<Suc (max_frame (fa_memory_map fa))]"
        using f by (metis find_Some_iff nth_mem)
      then show "fa_next_frame fa \<le> f" "f \<le> max_frame (fa_memory_map fa)" by auto
      show "is_usable_frame_addr (fa_memory_map fa) (of_nat f * 4096)" using f by (auto simp: find_Some_iff)
    qed
    have "f < 2 ^ 52" using fr max_frame_bound[of "fa_memory_map fa"] by linarith
    note b = bump_frame[OF this]
    have p: "p = of_nat f * 4096" using res(1) pf b(2) by (simp add: frame_aligned_and)
    have new: "q \<noteq> p" if "q \<in> A \<union> set fl" for q using ok[OF that] b(1) fr p by auto
    have good: "frame_aligned q \<and> is_usable_frame_addr (fa_memory_map fa) q \<and> 256 \<le> frame_number q
        \<and> frame_number q < f + 1" if "q \<in> insert p A \<union> set fl" for q
    proof (cases "q = p")
      case True
      then show ?thesis using b fu fr fl(4) p by simp
    next
      case False
      then show ?thesis using ok[of q] that fr by simp
    qed
    have "set fl \<inter> insert p A = {}" using fl(3) new by blast
    then have "frame_inv (insert p A) fa' m'"
      unfolding frame_inv_def using fl good fr res by (intro conjI exI[of _ fl]) simp_all
    moreover have "p \<notin> A" using new by blast
    ultimately show ?thesis using good[of p] res(2,3) by simp
  qed
  then show "p \<notin> A" "frame_aligned p" "is_usable_frame_addr (fa_memory_map fa) p" "256 \<le> frame_number p"
    "frame_inv (insert p A) fa' m'" "\<And>x. frame_number x \<noteq> frame_number p \<Longrightarrow> m' x = m x"
    "fa_memory_map fa' = fa_memory_map fa"
    by blast+
qed

lemma frame_inv_deallocate:
  assumes inv: "frame_inv A fa m" and p: "p \<in> A"
    and dealloc: "fa_deallocate_frame p fa m = (ok, fa', m')"
  shows "ok \<longleftrightarrow> fa_phys_offset fa \<noteq> 0" "frame_inv (if ok then A - {p} else A) fa' m'"
    "ok \<Longrightarrow> fa_free_list_head fa' = p" "fa_memory_map fa' = fa_memory_map fa"
proof -
  obtain fl where fl: "free_chain m (fa_free_list_head fa) fl" "distinct fl" "set fl \<inter> A = {}" "256 \<le> fa_next_frame fa"
    and ok: "\<And>q. q \<in> A \<union> set fl \<Longrightarrow> frame_aligned q \<and> is_usable_frame_addr (fa_memory_map fa) q
          \<and> 256 \<le> frame_number q \<and> frame_number q < fa_next_frame fa"
    using inv by (auto simp: frame_inv_def)
  have al: "frame_aligned p" "is_usable_frame_addr (fa_memory_map fa) p" "256 \<le> frame_number p"
    using ok p by auto
  then have nz: "p \<noteq> 0" by (auto simp: frame_number_def)
  show "ok \<longleftrightarrow> fa_phys_offset fa \<noteq> 0" "ok \<Longrightarrow> fa_free_list_head fa' = p" "fa_memory_map fa' = fa_memory_map fa"
    using dealloc al by (auto simp: fa_deallocate_frame_def frame_aligned_and split: if_splits)
  show "frame_inv (if ok then A - {p} else A) fa' m'"
  proof (cases "fa_phys_offset fa = 0")
    case True
    then show ?thesis using dealloc inv by (auto simp: fa_deallocate_frame_def split: if_splits)
  next
    case False
    then have r: "ok" "fa' = fa\<lparr>fa_free_list_head := p\<rparr>" "m' = mem_write_u64 m p (fa_free_list_head fa)"
      using dealloc al by (auto simp: fa_deallocate_frame_def frame_aligned_and split: if_splits)
    have "free_chain m' (fa_free_list_head fa) fl"
    proof (rule free_chain_cong[OF fl(1)], rule ballI)
      fix q assume q: "q \<in> set fl"
      then show "mem_read_u64 m' q = mem_read_u64 m q"
        using fl(3) p ok al unfolding r(3)
        by (intro mem_read_u64_write_other frame_aligned_aligned8) auto
    qed
    then have "free_chain m' p (p # fl)" using nz r(3) by simp
    then show ?thesis
      using fl ok al p r by (auto simp: frame_inv_def intro!: exI[of _ "p # fl"])
  qed
qed

lemma frame_inv_write:
  assumes inv: "frame_inv A fa m" and w: "\<And>x. m' x \<noteq> m x \<Longrightarrow> \<exists>p\<in>A. frame_number x = frame_number p"
  shows "frame_inv A fa m'"
proof -
  obtain fl where fl: "free_chain m (fa_free_list_head fa) fl" "distinct fl" "set fl \<inter> A = {}" "256 \<le> fa_next_frame fa"
    and ok: "\<And>q. q \<in> A \<union> set fl \<Longrightarrow> frame_aligned q \<and> is_usable_frame_addr (fa_memory_map fa) q
          \<and> 256 \<le> frame_number q \<and> frame_number q < fa_next_frame fa"
    using inv by (auto simp: frame_inv_def)
  have "free_chain m' (fa_free_list_head fa) fl"
  proof (rule free_chain_cong[OF fl(1)], rule ballI)
    fix q assume q: "q \<in> set fl"
    show "mem_read_u64 m' q = mem_read_u64 m q"
    proof (rule mem_read_u64_unchanged)
      show "frame_aligned q" using ok q by blast
      show "m' x = m x" if "frame_number x = frame_number q" for x
        using w[of x] that frame_number_inj[of q] ok q fl(3) by fastforce
    qed
  qed
  then show ?thesis using fl ok by (auto simp: frame_inv_def)
qed

section \<open>Properties\<close>

text \<open>
  The states the allocator reaches: it starts empty, gets its direct-map offset once paging is up, hands out frames and
  takes back frames it handed out, while the holders of frames write into them.
\<close>

inductive frame_reach :: "(u64 \<Rightarrow> u64) \<Rightarrow> u64 set \<Rightarrow> frame_allocator \<Rightarrow> phys_mem \<Rightarrow> bool" for phys_frame where
  init: "frame_reach phys_frame {} (frame_allocator_new mm 0) m"
| offset: "frame_reach phys_frame A fa m \<Longrightarrow> frame_reach phys_frame A (fa_set_phys_offset off fa) m"
| alloc: "\<lbrakk>frame_reach phys_frame A fa m; fa_allocate_frame phys_frame fa m = (Some p, fa', m')\<rbrakk> \<Longrightarrow>
    frame_reach phys_frame (insert p A) fa' m'"
| dealloc: "\<lbrakk>frame_reach phys_frame A fa m; p \<in> A; fa_deallocate_frame p fa m = (ok, fa', m')\<rbrakk> \<Longrightarrow>
    frame_reach phys_frame (if ok then A - {p} else A) fa' m'"
| store: "\<lbrakk>frame_reach phys_frame A fa m; \<forall>x. m' x \<noteq> m x \<longrightarrow> (\<exists>p\<in>A. frame_number x = frame_number p)\<rbrakk> \<Longrightarrow>
    frame_reach phys_frame A fa m'"

lemma frame_reach_inv:
  assumes "frame_reach phys_frame A fa m" "\<forall>a. a AND 0xfff = 0 \<longrightarrow> phys_frame a = a"
  shows "frame_inv A fa m"
  using assms(1)
proof induction
  case (init mm m)
  show ?case by (rule frame_inv_new)
next
  case (offset A fa m off)
  then show ?case by (simp add: frame_inv_def fa_set_phys_offset_def)
next
  case (alloc A fa m p fa' m')
  then show ?case using frame_inv_allocate(5) assms(2) by blast
next
  case (dealloc A fa m p ok fa' m')
  then show ?case using frame_inv_deallocate(2) by blast
next
  case (store A fa m m')
  then show ?case using frame_inv_write by blast
qed

text \<open>
  C28. A frame has one owner: in every state the allocator can reach, a frame it hands out is page aligned, lies in
  usable memory at or above 1 MiB, and is not among the frames handed out before and not yet given back.
  Handing it out changes no byte of any other frame.
\<close>

theorem allocated_frames_distinct:
  assumes "frame_reach phys_frame A fa m" "\<forall>a. a AND 0xfff = 0 \<longrightarrow> phys_frame a = a"
    "fa_allocate_frame phys_frame fa m = (Some p, fa', m')"
  shows "p \<notin> A \<and> p AND 0xfff = 0 \<and> 0x100000 \<le> unat p \<and> is_usable_frame_addr (fa_memory_map fa) p
    \<and> (\<forall>x. frame_number x \<noteq> frame_number p \<longrightarrow> m' x = m x)"
proof -
  note a = frame_inv_allocate[OF frame_reach_inv[OF assms(1,2)] assms(2,3)]
  have "256 * 4096 \<le> unat p div 4096 * 4096" using a(4) by (simp add: frame_number_def)
  then have "0x100000 \<le> unat p" using div_times_less_eq_dividend[of "unat p" 4096] by linarith
  then show ?thesis using a by (simp add: frame_aligned_and)
qed

theorem allocated_frames_distinct_witness:
  "let mm = [\<lparr>mr_start = 0x100000, mr_len = 0x4000, mr_type = Usable\<rparr>]; pf = (\<lambda>a. a AND NOT 0xfff);
       (r, fa, m) = fa_allocate_frame pf (frame_allocator_new mm 0) (\<lambda>_. 0);
       (r', fa', m') = fa_allocate_frame pf fa m
   in r = Some 0x100000 \<and> (\<exists>p. r' = Some p \<and> p \<noteq> 0x100000 \<and> p AND 0xfff = 0)"
proof -
  let ?mm = "[\<lparr>mr_start = 0x100000, mr_len = 0x4000, mr_type = Usable\<rparr>]" and ?pf = "\<lambda>a::u64. a AND NOT 0xfff"
  have pf: "\<forall>a::u64. a AND 0xfff = 0 \<longrightarrow> ?pf a = a" by (intro allI impI and_not_disjoint)
  have mx: "max_frame ?mm = 260" by (simp add: max_frame_def)
  let ?fa = "frame_allocator_new ?mm 0" and ?m = "\<lambda>_. 0 :: u8"
  have r: "frame_reach ?pf {} ?fa ?m" by (rule frame_reach.init)
  have a1: "fa_allocate_frame ?pf ?fa ?m = (Some 0x100000, ?fa\<lparr>fa_next_frame := 257\<rparr>, ?m)"
    by (simp add: fa_allocate_frame_def frame_allocator_new_def mx is_usable_frame_addr_def upt_rec[of 256])
  have r1: "frame_reach ?pf {0x100000} (?fa\<lparr>fa_next_frame := 257\<rparr>) ?m"
    using frame_reach.alloc[OF r a1] by simp
  have a2: "fa_allocate_frame ?pf (?fa\<lparr>fa_next_frame := 257\<rparr>) ?m = (Some 0x101000, ?fa\<lparr>fa_next_frame := 258\<rparr>, ?m)"
    by (simp add: fa_allocate_frame_def frame_allocator_new_def mx is_usable_frame_addr_def upt_rec[of 257])
  show ?thesis
    using allocated_frames_distinct[OF r1 pf a2] a1 a2 by (simp add: Let_def)
qed

text \<open>
  Remark. Frames given back are reused first, last in first out: once the direct map is known, giving back a frame that was
  handed out succeeds, and the next allocation returns that frame.
\<close>

theorem deallocated_frame_reused:
  assumes "frame_reach phys_frame A fa m" "\<forall>a. a AND 0xfff = 0 \<longrightarrow> phys_frame a = a" "p \<in> A" "fa_phys_offset fa \<noteq> 0"
  shows "\<exists>fa' m' fa'' m''. fa_deallocate_frame p fa m = (True, fa', m')
    \<and> fa_allocate_frame phys_frame fa' m' = (Some p, fa'', m'') \<and> fa_free_list_head fa'' = fa_free_list_head fa"
proof -
  have inv: "frame_inv A fa m" by (rule frame_reach_inv[OF assms(1,2)])
  then have p: "frame_aligned p" "is_usable_frame_addr (fa_memory_map fa) p" "256 \<le> frame_number p"
    using assms(3) by (auto simp: frame_inv_def)
  then have "p \<noteq> 0" by (auto simp: frame_number_def)
  then show ?thesis
    using p assms(2,4) by (simp add: fa_deallocate_frame_def fa_allocate_frame_def frame_aligned_and)
qed

theorem deallocated_frame_reused_witness:
  "\<exists>fa m A fa' m' fa'' m''. frame_reach (\<lambda>a. a AND NOT 0xfff) A fa m \<and> 0x100000 \<in> A
    \<and> fa_deallocate_frame 0x100000 fa m = (True, fa', m')
    \<and> fa_allocate_frame (\<lambda>a. a AND NOT 0xfff) fa' m' = (Some 0x100000, fa'', m'')"
proof -
  let ?mm = "[\<lparr>mr_start = 0x100000, mr_len = 0x4000, mr_type = Usable\<rparr>]" and ?pf = "\<lambda>a::u64. a AND NOT 0xfff"
  have pf: "\<forall>a::u64. a AND 0xfff = 0 \<longrightarrow> ?pf a = a" by (intro allI impI and_not_disjoint)
  have mx: "max_frame ?mm = 260" by (simp add: max_frame_def)
  let ?fa = "fa_set_phys_offset 0x1000 (frame_allocator_new ?mm 0)" and ?m = "\<lambda>_. 0 :: u8"
  have r: "frame_reach ?pf {} ?fa ?m" by (intro frame_reach.offset frame_reach.init)
  have a1: "fa_allocate_frame ?pf ?fa ?m = (Some 0x100000, ?fa\<lparr>fa_next_frame := 257\<rparr>, ?m)"
    by (simp add: fa_allocate_frame_def frame_allocator_new_def fa_set_phys_offset_def mx is_usable_frame_addr_def upt_rec[of 256])
  have r1: "frame_reach ?pf {0x100000} (?fa\<lparr>fa_next_frame := 257\<rparr>) ?m"
    using frame_reach.alloc[OF r a1] by simp
  have "fa_phys_offset (?fa\<lparr>fa_next_frame := 257\<rparr>) \<noteq> 0" by (simp add: fa_set_phys_offset_def)
  then show ?thesis
    using deallocated_frame_reused[OF r1 pf, of "0x100000"] r1 by blast
qed

lemma mmio_scan_sound:
  assumes "mmio_scan s e mm ov ins" "r \<in> set mm" "mr_type r = Usable" "mr_len r \<noteq> 0"
    "checked_add (mr_start r) (mr_len r - 1) = Some re"
  shows "\<not> (s \<le> re \<and> mr_start r \<le> e)"
  using assms(1,2)
proof (induction mm arbitrary: ov ins)
  case (Cons q mm)
  show ?case
  proof (cases "q = r")
    case True
    then show ?thesis using Cons.prems(1) assms(3-5) by (simp split: if_splits)
  next
    case False
    moreover have "\<exists>ov' ins'. mmio_scan s e mm ov' ins'"
      using Cons.prems(1) by (auto simp only: mmio_scan.simps split: if_splits option.splits)
    ultimately show ?thesis using Cons.IH Cons.prems(2) by auto
  qed
qed simp

lemma usable_region_end:
  assumes "mr_start r \<le> x" "x < mr_start r + mr_len r"
  shows "mr_len r \<noteq> 0" "\<exists>re. checked_add (mr_start r) (mr_len r - 1) = Some re \<and> x \<le> re"
proof -
  show nz: "mr_len r \<noteq> 0" using assms by auto
  have len: "unat (mr_len r - 1) = unat (mr_len r) - 1" using nz by (simp add: unat_minus_one)
  have nowrap: "unat (mr_start r + mr_len r) = unat (mr_start r) + unat (mr_len r)"
  proof (rule ccontr)
    assume "unat (mr_start r + mr_len r) \<noteq> unat (mr_start r) + unat (mr_len r)"
    then have "unat (mr_start r + mr_len r) < unat (mr_start r)"
      using unat_u64_lt[of "mr_len r"] unat_u64_lt[of "mr_start r"]
      by (simp add: unat_word_ariths mod_if split: if_splits)
    then show False using assms by (simp add: word_le_nat_alt word_less_nat_alt)
  qed
  have pos: "0 < unat (mr_len r)" using nz by (simp add: unat_gt_0)
  have sum: "unat (mr_start r) + unat (mr_len r) < 2 ^ 64" using nowrap unat_u64_lt[of "mr_start r + mr_len r"] by simp
  then have ca: "checked_add (mr_start r) (mr_len r - 1) = Some (mr_start r + (mr_len r - 1))"
    using len pos by (simp add: checked_add_def)
  have "unat (mr_start r + (mr_len r - 1)) = unat (mr_start r) + unat (mr_len r) - 1"
    using checked_add_Some(1)[OF ca] len pos by simp
  then have "x \<le> mr_start r + (mr_len r - 1)"
    using assms(2) nowrap pos by (simp add: word_le_nat_alt word_less_nat_alt)
  then show "\<exists>re. checked_add (mr_start r) (mr_len r - 1) = Some re \<and> x \<le> re" using ca by blast
qed

text \<open>
  C35. MMIO mappings never reach RAM: no address of a range that \<^emph>\<open>is_allowed_mmio_range\<close> accepts is usable memory, the
  only memory the frame allocator hands out.
\<close>

theorem mmio_never_usable_ram:
  assumes "is_allowed_mmio_range (Some fa) start_phys sz" "start_phys \<le> x" "x \<le> start_phys + (sz - 1)"
  shows "\<not> is_usable_frame_addr (fa_memory_map fa) x"
proof
  assume "is_usable_frame_addr (fa_memory_map fa) x"
  then obtain r where r: "r \<in> set (fa_memory_map fa)" "mr_type r = Usable" "mr_start r \<le> x" "x < mr_start r + mr_len r"
    by (auto simp: is_usable_frame_addr_def)
  obtain re where re: "checked_add (mr_start r) (mr_len r - 1) = Some re" "x \<le> re" "mr_len r \<noteq> 0"
    using usable_region_end[OF r(3,4)] by blast
  obtain e where e: "checked_add start_phys (sz - 1) = Some e" "mmio_scan start_phys e (fa_memory_map fa) False False"
    using assms(1) by (auto simp: is_allowed_mmio_range_def split: if_splits option.splits)
  have "e = start_phys + (sz - 1)" using e(1) by (auto simp: checked_add_def split: if_splits)
  then show False
    using mmio_scan_sound[OF e(2) r(1,2) re(3,1)] assms(2,3) r(3) re(2) by (auto dest: order_trans)
qed

theorem mmio_never_usable_ram_witness:
  "let fa = frame_allocator_new [\<lparr>mr_start = 0x100000, mr_len = 0x4000, mr_type = Usable\<rparr>,
                                \<lparr>mr_start = 0xB8000, mr_len = 0x1000, mr_type = Reserved\<rparr>] 0
   in is_allowed_mmio_range (Some fa) 0xB8000 0x1000 \<and> \<not> is_usable_frame_addr (fa_memory_map fa) 0xB8010"
  using mmio_never_usable_ram[of "frame_allocator_new [\<lparr>mr_start = 0x100000, mr_len = 0x4000, mr_type = Usable\<rparr>,
                                \<lparr>mr_start = 0xB8000, mr_len = 0x1000, mr_type = Reserved\<rparr>] 0" "0xB8000" "0x1000" "0xB8010"]
  by (simp add: Let_def is_allowed_mmio_range_def frame_allocator_new_def checked_add_def)

end
