(* ===== verification/Kresult.thy ===== *)
theory Kresult
  imports Prelude
begin

text \<open>
  The kernel's error values, from \<^verbatim>\<open>src/src/core/result.rs\<close>. A computation that panics, faults or waits for a lock it holds
  itself has no result; that outcome is \<^emph>\<open>Stuck\<close>.
\<close>

datatype memory_error = OutOfMemory | InvalidAddress | PermissionDenied | AlreadyMapped | NotMapped | AlignmentError

datatype service_error = ServiceNotFound | StartFailure | StopFailure | NoResponse | ServiceInsufficientPrivilege
  | InvalidState | Conflict | Unregistered

datatype process_error = InvalidPid | ProcessNotFound | ZombieProcess | MaxProcessesReached | InsufficientPrivilege
  | IpcError | ProcessTimeout | RogueProcessDetected | Service service_error | CreationOk

datatype elf_error = InvalidFormat | UnsupportedType | SegmentLoadFailure | SymbolResolutionFailure | InsufficientLength

datatype device_error = Busy | HardwareFailure | DeviceTimeout | InvalidOperation | DeviceNotFound | DriverLoadFailure
  | Disconnected | Unsupported | CommunicationLost | ResourceUnavailable

datatype kernel_error = KMemory memory_error | KProcess process_error | KDevice device_error | KElf elf_error
  | InvalidParam | NotImplemented

definition is_fatal :: "kernel_error \<Rightarrow> bool" where
  "is_fatal e \<longleftrightarrow> e = KMemory OutOfMemory \<or> e = KDevice HardwareFailure"

definition is_retryable :: "kernel_error \<Rightarrow> bool" where
  "is_retryable e \<longleftrightarrow> e = KDevice Busy \<or> e = KDevice DeviceTimeout"

datatype 'a kres = Ok 'a | Err kernel_error | Stuck

text \<open>The \<^emph>\<open>ok_or\<close> of the standard library, and sequencing of computations over a state.\<close>

definition ok_or :: "'a option \<Rightarrow> kernel_error \<Rightarrow> 'a kres" where
  "ok_or r e = (case r of Some x \<Rightarrow> Ok x | None \<Rightarrow> Err e)"

fun kbind :: "('s \<Rightarrow> 'a kres \<times> 's) \<Rightarrow> ('a \<Rightarrow> 's \<Rightarrow> 'b kres \<times> 's) \<Rightarrow> 's \<Rightarrow> 'b kres \<times> 's" where
  "kbind m f s = (case m s of (Ok x, s') \<Rightarrow> f x s' | (Err e, s') \<Rightarrow> (Err e, s') | (Stuck, s') \<Rightarrow> (Stuck, s'))"

definition kreturn :: "'a \<Rightarrow> 's \<Rightarrow> 'a kres \<times> 's" where
  "kreturn x s = (Ok x, s)"

definition klift :: "'a kres \<Rightarrow> 's \<Rightarrow> 'a kres \<times> 's" where
  "klift r s = (r, s)"

lemma kbind_Ok: "kbind m f s = (Ok y, s'') \<longleftrightarrow> (\<exists>x s'. m s = (Ok x, s') \<and> f x s' = (Ok y, s''))"
  by (auto split: prod.splits kres.splits)

lemma ok_or_Ok [simp]: "ok_or r e = Ok x \<longleftrightarrow> r = Some x"
  by (simp add: ok_or_def split: option.split)

declare kbind.simps [simp del]

end
