(* ===== verification/Paging.thy ===== *)
theory Paging
  imports Frame Kresult "HOL-Library.Monad_Syntax"
begin

text \<open>
  Page tables, from \<^verbatim>\<open>src/src/core/mem/paging.rs\<close>: the walks that the kernel does by hand over the four levels, copying to and from a
  user address space, and the functions that build, change and tear down tables.

  A table is a frame of 512 eight-byte entries. The layout of an entry, the flag constants, the index functions of
  \<^emph>\<open>VirtAddr\<close> and the operations of \<^emph>\<open>OffsetPageTable\<close> belong to the x86\_64 crate; they are the fields of the argument
  \<^emph>\<open>X\<close>. That an unused entry is the word 0 and that \<^emph>\<open>flags.contains(f)\<close> is \<^emph>\<open>flags AND f = f\<close> is documented there.
  Addresses given to \<^emph>\<open>PhysAddr::new\<close> are below 2 to the 52, and to \<^emph>\<open>VirtAddr::new\<close> are canonical unless the function checks.
\<close>

section \<open>State\<close>

record vm =
  vm_mem :: phys_mem
  vm_frames :: "frame_allocator option"
  vm_phys_offset :: "u64 option"
  vm_kernel_l4 :: u64
  vm_page_table :: "u64 option"
  vm_cr3 :: u64
  vm_next_stack_top :: u64

datatype map_to_result = MapOk | PageAlreadyMapped | MapError

record x86 =
  x_present :: u64
  x_writable :: u64
  x_user :: u64
  x_huge :: u64
  x_no_execute :: u64
  x_flags :: "u64 \<Rightarrow> u64"
  x_addr :: "u64 \<Rightarrow> u64"
  x_entry :: "u64 \<Rightarrow> u64 \<Rightarrow> u64"
  x_p4_index :: "u64 \<Rightarrow> nat"
  x_p3_index :: "u64 \<Rightarrow> nat"
  x_p2_index :: "u64 \<Rightarrow> nat"
  x_p1_index :: "u64 \<Rightarrow> nat"
  x_canonical :: "u64 \<Rightarrow> bool"
  x_phys_frame :: "u64 \<Rightarrow> u64"
  x_translate_page :: "u64 \<Rightarrow> u64 \<Rightarrow> vm \<Rightarrow> bool"
  x_map_to :: "u64 \<Rightarrow> u64 \<Rightarrow> u64 \<Rightarrow> u64 \<Rightarrow> vm \<Rightarrow> map_to_result \<times> vm"
  x_unmap :: "u64 \<Rightarrow> u64 \<Rightarrow> vm \<Rightarrow> u64 option \<times> vm"
  x_update_flags :: "u64 \<Rightarrow> u64 \<Rightarrow> u64 \<Rightarrow> vm \<Rightarrow> bool \<times> vm"

definition USER_SPACE_END :: u64 where "USER_SPACE_END = 0x00007FFFFFFFFFFF"

definition has_flag :: "u64 \<Rightarrow> u64 \<Rightarrow> bool" where
  "has_flag flags f \<longleftrightarrow> flags AND f = f"

definition page_base :: "u64 \<Rightarrow> u64" where
  "page_base a = a AND NOT 0xfff"

definition entry_cell :: "u64 \<Rightarrow> nat \<Rightarrow> u64" where
  "entry_cell table i = table + 8 * of_nat i"

definition entry_at :: "vm \<Rightarrow> u64 \<Rightarrow> nat \<Rightarrow> u64" where
  "entry_at v table i = mem_read_u64 (vm_mem v) (entry_cell table i)"

definition set_entry :: "u64 \<Rightarrow> nat \<Rightarrow> u64 \<Rightarrow> vm \<Rightarrow> vm" where
  "set_entry table i e v = v\<lparr>vm_mem := mem_write_u64 (vm_mem v) (entry_cell table i) e\<rparr>"

definition index_of :: "nat \<Rightarrow> u64 \<Rightarrow> nat" where
  "index_of shift a = unat (drop_bit shift a AND 0x1ff)"

section \<open>Walks\<close>

definition entry_present :: "x86 \<Rightarrow> u64 \<Rightarrow> bool" where
  "entry_present X e \<longleftrightarrow> e \<noteq> 0 \<and> has_flag (x_flags X e) (x_present X)"

definition translate_addr_in_table :: "x86 \<Rightarrow> vm \<Rightarrow> u64 \<Rightarrow> u64 \<Rightarrow> (u64 \<times> u64) option" where
  "translate_addr_in_table X v table_phys addr =
    do {
      phys_off \<leftarrow> vm_phys_offset v;
      if table_phys AND 0xfff \<noteq> 0 then None else do {
      _ \<leftarrow> checked_add table_phys phys_off;
      let l4e = entry_at v table_phys (x_p4_index X addr);
      if \<not> entry_present X l4e then None else do {
      _ \<leftarrow> checked_add (x_addr X l4e) phys_off;
      let l3e = entry_at v (x_addr X l4e) (x_p3_index X addr);
      if \<not> entry_present X l3e then None
      else if has_flag (x_flags X l3e) (x_huge X) then do {
        phys \<leftarrow> checked_add (x_addr X l3e) (addr AND (2 ^ 30 - 1));
        Some (phys, x_flags X l3e) }
      else do {
      _ \<leftarrow> checked_add (x_addr X l3e) phys_off;
      let l2e = entry_at v (x_addr X l3e) (x_p2_index X addr);
      if \<not> entry_present X l2e then None
      else if has_flag (x_flags X l2e) (x_huge X) then do {
        phys \<leftarrow> checked_add (x_addr X l2e) (addr AND (2 ^ 21 - 1));
        Some (phys, x_flags X l2e) }
      else do {
      _ \<leftarrow> checked_add (x_addr X l2e) phys_off;
      let l1e = entry_at v (x_addr X l2e) (x_p1_index X addr);
      if \<not> entry_present X l1e then None else do {
        phys \<leftarrow> checked_add (x_addr X l1e) (addr AND 0xfff);
        Some (phys, x_flags X l1e) }}}}}}"

definition read_u64_in_table :: "x86 \<Rightarrow> vm \<Rightarrow> u64 \<Rightarrow> u64 \<Rightarrow> u64 option" where
  "read_u64_in_table X v table_phys vaddr =
    do {
      phys_off \<leftarrow> vm_phys_offset v;
      (phys, _) \<leftarrow> translate_addr_in_table X v table_phys vaddr;
      _ \<leftarrow> checked_add phys phys_off;
      Some (mem_read_u64 (vm_mem v) phys) }"

definition virt_to_phys_in_table :: "x86 \<Rightarrow> vm \<Rightarrow> u64 \<Rightarrow> u64 \<Rightarrow> u64 option" where
  "virt_to_phys_in_table X v table_phys virt_addr = map_option fst (translate_addr_in_table X v table_phys virt_addr)"

definition entry_user :: "x86 \<Rightarrow> u64 \<Rightarrow> bool" where
  "entry_user X e \<longleftrightarrow> entry_present X e \<and> has_flag (x_flags X e) (x_user X)"

definition user_page_flags_in_table :: "x86 \<Rightarrow> vm \<Rightarrow> u64 \<Rightarrow> u64 \<Rightarrow> u64 option" where
  "user_page_flags_in_table X v table_phys page_addr =
    do {
      phys_off \<leftarrow> vm_phys_offset v;
      if table_phys AND 0xfff \<noteq> 0 then None else do {
      _ \<leftarrow> checked_add table_phys phys_off;
      let l4i = index_of 39 page_addr;
      if l4i \<ge> 256 then None else do {
      let l4e = entry_at v table_phys l4i;
      if \<not> entry_user X l4e then None else do {
      _ \<leftarrow> checked_add (x_addr X l4e) phys_off;
      let l3e = entry_at v (x_addr X l4e) (index_of 30 page_addr);
      if \<not> entry_user X l3e then None
      else if has_flag (x_flags X l3e) (x_huge X) then Some (x_flags X l3e)
      else do {
      _ \<leftarrow> checked_add (x_addr X l3e) phys_off;
      let l2e = entry_at v (x_addr X l3e) (index_of 21 page_addr);
      if \<not> entry_user X l2e then None
      else if has_flag (x_flags X l2e) (x_huge X) then Some (x_flags X l2e)
      else do {
      _ \<leftarrow> checked_add (x_addr X l2e) phys_off;
      let l1e = entry_at v (x_addr X l2e) (index_of 12 page_addr);
      if \<not> entry_user X l1e then None else Some (x_flags X l1e) }}}}}}"

definition page_is_user_mapped_in_table :: "x86 \<Rightarrow> vm \<Rightarrow> u64 \<Rightarrow> u64 \<Rightarrow> bool" where
  "page_is_user_mapped_in_table X v table_phys page_addr =
    (case user_page_flags_in_table X v table_phys page_addr of
       None \<Rightarrow> False
     | Some flags \<Rightarrow> has_flag flags (x_present X) \<and> has_flag flags (x_user X))"

definition translate_user_addr_in_table :: "x86 \<Rightarrow> vm \<Rightarrow> u64 \<Rightarrow> u64 \<Rightarrow> bool \<Rightarrow> (u64 \<times> nat) option" where
  "translate_user_addr_in_table X v table_phys addr require_writable =
    (if addr > USER_SPACE_END then None
     else do {
       flags \<leftarrow> user_page_flags_in_table X v table_phys (page_base addr);
       if \<not> has_flag flags (x_present X) \<or> \<not> has_flag flags (x_user X) then None
       else if require_writable \<and> \<not> has_flag flags (x_writable X) then None
       else do {
         (phys, _) \<leftarrow> translate_addr_in_table X v table_phys addr;
         Some (phys, unat (addr AND 0xfff)) }})"

section \<open>Copying to and from user memory\<close>

text \<open>The loops over pages; \<^emph>\<open>copied\<close> is the loop variable.\<close>

lemma page_offset_bound: "translate_user_addr_in_table X v t a w = Some (p, off) \<Longrightarrow> off < 4096"
proof -
  have "unat (a AND 0xfff) < 4096" for a :: u64
    using word_and_le1[of a "0xfff"] by (simp add: word_le_nat_alt)
  then show "translate_user_addr_in_table X v t a w = Some (p, off) \<Longrightarrow> off < 4096"
    by (auto simp: translate_user_addr_in_table_def bind_eq_Some_conv split: if_splits)
qed

function copy_from_user_loop ::
  "x86 \<Rightarrow> vm \<Rightarrow> u64 \<Rightarrow> u64 \<Rightarrow> u64 \<Rightarrow> nat \<Rightarrow> nat \<Rightarrow> bytes \<Rightarrow> bytes kres" where
  "copy_from_user_loop X v table_phys phys_off src_ptr len copied dst =
    (if \<not> copied < len then Ok dst
     else case checked_add src_ptr (of_nat copied) of
         None \<Rightarrow> Err (KMemory InvalidAddress)
       | Some cur \<Rightarrow> (case translate_user_addr_in_table X v table_phys cur False of
             None \<Rightarrow> Err (KMemory InvalidAddress)
           | Some (phys, page_off) \<Rightarrow>
               let chunk = min (4096 - page_off) (len - copied)
               in case checked_add phys phys_off of
                    None \<Rightarrow> Err (KMemory InvalidAddress)
                  | Some _ \<Rightarrow> copy_from_user_loop X v table_phys phys_off src_ptr len (copied + chunk)
                      (dst @ mem_read (vm_mem v) phys chunk)))"
  by pat_completeness auto
termination
proof (relation "measure (\<lambda>(X, v, t, po, s, len, copied, d). len - copied)")
qed (auto dest: page_offset_bound)

definition copy_from_user_in_table :: "x86 \<Rightarrow> vm \<Rightarrow> u64 \<Rightarrow> u64 \<Rightarrow> nat \<Rightarrow> bytes kres" where
  "copy_from_user_in_table X v table_phys src_ptr len =
    (if len = 0 then Ok []
     else case vm_phys_offset v of
         None \<Rightarrow> Err (KMemory NotMapped)
       | Some phys_off \<Rightarrow> (case checked_add src_ptr (of_nat len - 1) of
             None \<Rightarrow> Err (KMemory InvalidAddress)
           | Some end_ptr \<Rightarrow>
               if src_ptr = 0 \<or> src_ptr > USER_SPACE_END \<or> end_ptr > USER_SPACE_END then Err (KMemory InvalidAddress)
               else copy_from_user_loop X v table_phys phys_off src_ptr len 0 []))"

function copy_to_user_loop ::
  "x86 \<Rightarrow> u64 \<Rightarrow> u64 \<Rightarrow> u64 \<Rightarrow> bytes \<Rightarrow> nat \<Rightarrow> vm \<Rightarrow> unit kres \<times> vm" where
  "copy_to_user_loop X table_phys phys_off dst_ptr src copied v =
    (if \<not> copied < length src then (Ok (), v)
     else case checked_add dst_ptr (of_nat copied) of
         None \<Rightarrow> (Err (KMemory InvalidAddress), v)
       | Some cur \<Rightarrow> (case translate_user_addr_in_table X v table_phys cur True of
             None \<Rightarrow> (Err (KMemory PermissionDenied), v)
           | Some (phys, page_off) \<Rightarrow>
               let chunk = min (4096 - page_off) (length src - copied)
               in case checked_add phys phys_off of
                    None \<Rightarrow> (Err (KMemory InvalidAddress), v)
                  | Some _ \<Rightarrow> copy_to_user_loop X table_phys phys_off dst_ptr src (copied + chunk)
                      (v\<lparr>vm_mem := mem_write (vm_mem v) phys (take chunk (drop copied src))\<rparr>)))"
  by pat_completeness auto
termination
proof (relation "measure (\<lambda>(X, t, po, d, src, copied, v). length src - copied)")
qed (auto dest: page_offset_bound)

definition copy_to_user_in_table :: "x86 \<Rightarrow> u64 \<Rightarrow> u64 \<Rightarrow> bytes \<Rightarrow> vm \<Rightarrow> unit kres \<times> vm" where
  "copy_to_user_in_table X table_phys dst_ptr src v =
    (if src = [] then (Ok (), v)
     else case vm_phys_offset v of
         None \<Rightarrow> (Err (KMemory NotMapped), v)
       | Some phys_off \<Rightarrow> (case checked_add dst_ptr (of_nat (length src) - 1) of
             None \<Rightarrow> (Err (KMemory InvalidAddress), v)
           | Some end_ptr \<Rightarrow>
               if dst_ptr = 0 \<or> dst_ptr > USER_SPACE_END \<or> end_ptr > USER_SPACE_END
               then (Err (KMemory InvalidAddress), v)
               else copy_to_user_loop X table_phys phys_off dst_ptr src 0 v))"

function user_range_loop :: "x86 \<Rightarrow> vm \<Rightarrow> u64 \<Rightarrow> u64 \<Rightarrow> u64 \<Rightarrow> bool" where
  "user_range_loop X v table_phys page_addr end_page =
    (if \<not> page_is_user_mapped_in_table X v table_phys page_addr then False
     else if page_addr = end_page then True
     else case checked_add page_addr 4096 of
         None \<Rightarrow> False
       | Some next_page \<Rightarrow> user_range_loop X v table_phys next_page end_page)"
  by pat_completeness auto
termination
proof (relation "measure (\<lambda>(X, v, t, a, e). 2 ^ 64 - unat a)")
  fix page_addr next_page :: u64
  assume "checked_add page_addr 4096 = Some next_page"
  then have "unat next_page = unat page_addr + 4096" using checked_add_Some[of page_addr 4096] by auto
  then show "((X, v, t, next_page, e), (X, v, t, page_addr, e)) \<in> measure (\<lambda>(X, v, t, a, e). 2 ^ 64 - unat a)"
    for X :: x86 and v :: vm and t e :: u64
    using unat_u64_lt[of next_page] by simp
qed simp

definition is_user_range_mapped_in_table :: "x86 \<Rightarrow> vm \<Rightarrow> u64 \<Rightarrow> u64 \<Rightarrow> u64 \<Rightarrow> bool" where
  "is_user_range_mapped_in_table X v table_phys addr len =
    (if addr > USER_SPACE_END then False
     else if len = 0 then True
     else case checked_add addr (len - 1) of
         None \<Rightarrow> False
       | Some end_inclusive \<Rightarrow>
           if end_inclusive \<le> USER_SPACE_END
           then user_range_loop X v table_phys (page_base addr) (page_base end_inclusive)
           else False)"

declare copy_from_user_loop.simps [simp del] copy_to_user_loop.simps [simp del] user_range_loop.simps [simp del]

section \<open>Address arithmetic\<close>

text \<open>What is documented of the crate: the index functions, and that an entry's address is a frame address below 2 to the 52.\<close>

definition x86_laws :: "x86 \<Rightarrow> bool" where
  "x86_laws X \<longleftrightarrow>
    (\<forall>a. x_p4_index X a = index_of 39 a \<and> x_p3_index X a = index_of 30 a \<and> x_p2_index X a = index_of 21 a
      \<and> x_p1_index X a = index_of 12 a)
    \<and> (\<forall>e. x_addr X e AND 0xfff = 0 \<and> unat (x_addr X e) < 2 ^ 52)"

lemma unat_and_mask: "unat (a AND (2 ^ n - 1) :: u64) = unat a mod 2 ^ n"
proof -
  have "a AND (2 ^ n - 1) = take_bit n a" by (simp add: take_bit_eq_mask mask_eq_exp_minus_1)
  then have "unat (a AND (2 ^ n - 1)) = take_bit n (unat a)" by (simp only: unsigned_take_bit_eq)
  then show ?thesis by (simp add: take_bit_eq_mod)
qed

lemma unat_and_fff: "unat (a AND 0xfff :: u64) = unat a mod 4096"
  using unat_and_mask[of a 12] by simp

lemma index_of_unat: "index_of s a = unat a div 2 ^ s mod 512"
proof -
  have "drop_bit s a AND 0x1ff = drop_bit s a AND (2 ^ 9 - 1)" by simp
  then show ?thesis
    unfolding index_of_def by (simp only: unat_and_mask unat_drop_bit_eq) (simp add: drop_bit_eq_div)
qed

lemma index_of_lt: "index_of s a < 512"
  by (simp add: index_of_unat)

lemma unat_page_base: "unat (page_base a) = unat a - unat a mod 4096"
proof -
  have "(a AND NOT m) + (a AND m) = a" for m
  proof -
    have "(a AND NOT m) + (a AND m) = (a AND NOT m) OR (a AND m)"
      by (rule disjunctive_add) (auto simp: bit_and_iff bit_not_iff)
    also have "\<dots> = a" by (rule bit_eqI) (auto simp: bit_and_iff bit_or_iff bit_not_iff bit_imp_le_length)
    finally show ?thesis .
  qed
  then have "page_base a = a - (a AND 0xfff)" unfolding page_base_def by (metis add_diff_cancel_right')
  moreover have "(a AND 0xfff) \<le> a" by (rule word_and_le2)
  ultimately show ?thesis by (simp add: unat_sub unat_and_fff)
qed

lemma page_no_offset: "12 \<le> s \<Longrightarrow> (x :: nat) mod 4096 + k < 4096 \<Longrightarrow> (x + k) div 2 ^ s = x div 2 ^ s"
proof -
  assume s: "12 \<le> s" and k: "x mod 4096 + k < 4096"
  have e: "(2 :: nat) ^ s = 4096 * 2 ^ (s - 12)"
    using s power_add[of "2 :: nat" 12 "s - 12"] by simp
  have "x + k = (x mod 4096 + k) + x div 4096 * 4096" by simp
  also have "\<dots> div 4096 = x div 4096 + (x mod 4096 + k) div 4096" by (rule div_mult_self1) simp
  finally have "(x + k) div 4096 = x div 4096" using k by simp
  then show ?thesis by (simp add: e div_mult2_eq)
qed

lemma unat_page_offset:
  assumes "unat (a :: u64) mod 4096 + k < 4096"
  shows "unat (a + of_nat k) = unat a + k"
proof -
  have "unat a div 4096 * 4096 + unat a mod 4096 = unat a" by (rule div_mult_mod_eq)
  moreover have "unat a div 4096 < 2 ^ 52" using unat_u64_lt[of a] by (simp add: div_less_iff_less_mult)
  moreover have "q * 4096 + r = x \<Longrightarrow> q < 2 ^ 52 \<Longrightarrow> r + k < 4096 \<Longrightarrow> x + k < 2 ^ 64" for q r x :: nat by simp
  ultimately have "unat a + k < 2 ^ 64" using assms by blast
  then show ?thesis by (simp add: unat_word_ariths unat_of_nat)
qed

lemma index_of_same_page: "12 \<le> s \<Longrightarrow> unat a mod 4096 + k < 4096 \<Longrightarrow> index_of s (a + of_nat k) = index_of s a"
  by (simp add: index_of_unat unat_page_offset page_no_offset)

lemma mod_page_offset: "12 \<le> n \<Longrightarrow> (x :: nat) mod 4096 + k < 4096 \<Longrightarrow> (x + k) mod 2 ^ n = x mod 2 ^ n + k"
proof -
  assume n: "12 \<le> n" and k: "x mod 4096 + k < 4096"
  have d: "(x + k) div 2 ^ n = x div 2 ^ n" by (rule page_no_offset[OF n k])
  then have "(x + k) mod 2 ^ n = x + k - x div 2 ^ n * 2 ^ n"
    by (metis minus_div_mult_eq_mod)
  moreover have "x div 2 ^ n * 2 ^ n \<le> x" by simp
  ultimately show ?thesis by (simp add: minus_div_mult_eq_mod[symmetric])
qed

lemma and_mask_same_page:
  assumes "12 \<le> n" "n < 64" "unat a mod 4096 + k < 4096"
  shows "unat ((a + of_nat k) AND (2 ^ n - 1) :: u64) = unat (a AND (2 ^ n - 1)) + k"
  by (simp add: unat_and_mask unat_page_offset[OF assms(3)] mod_page_offset[OF assms(1,3)])

lemma index_of_page_base: "12 \<le> s \<Longrightarrow> index_of s (page_base a) = index_of s a"
proof -
  assume s: "12 \<le> s"
  have "(unat a - unat a mod 4096) div 2 ^ s = unat a div 2 ^ s"
    using page_no_offset[OF s, of "unat a - unat a mod 4096" "unat a mod 4096"]
    by (simp add: minus_mod_eq_mult_div)
  then show ?thesis by (simp add: index_of_unat unat_page_base)
qed

section \<open>Within a page\<close>

lemma checked_add_small:
  "unat (a :: u64) + unat b + k < 2 ^ 64 \<Longrightarrow>
    checked_add a b = Some (a + b) \<and> unat b' = unat b + k \<longrightarrow> checked_add a b' = Some (a + b + of_nat k)"
proof
  assume lt: "unat a + unat b + k < 2 ^ 64" and "checked_add a b = Some (a + b) \<and> unat b' = unat b + k"
  then have b': "unat b' = unat b + k" by simp
  have "b' = b + of_nat k"
    by (rule word_unat_eq_iff[THEN iffD2]) (use b' lt in \<open>simp add: unat_word_ariths unat_of_nat\<close>)
  then show "checked_add a b' = Some (a + b + of_nat k)" using lt b' by (simp add: checked_add_def)
qed

lemma entry_offset_same_page:
  assumes "unat b < 2 ^ 52" "12 \<le> n" "n \<le> 30" "unat a mod 4096 + k < 4096"
  shows "checked_add b (a AND (2 ^ n - 1) :: u64) = Some (b + (a AND (2 ^ n - 1)))"
    "checked_add b ((a + of_nat k) AND (2 ^ n - 1)) = Some (b + (a AND (2 ^ n - 1)) + of_nat k)"
    "unat (b + (a AND (2 ^ n - 1)) + of_nat k) < 2 ^ 53"
proof -
  have "unat (a AND (2 ^ n - 1)) < 2 ^ 30"
    unfolding unat_and_mask using power_increasing[of n 30 "2 :: nat"] assms(3)
    by (meson less_le_trans mod_less_divisor one_le_numeral zero_less_numeral zero_less_power)
  moreover have "k < 4096" using assms(4) by simp
  ultimately have small: "unat b + unat (a AND (2 ^ n - 1)) + k < 2 ^ 53" using assms(1) by simp
  then show 1: "checked_add b (a AND (2 ^ n - 1) :: u64) = Some (b + (a AND (2 ^ n - 1)))" by (simp add: checked_add_def)
  show "checked_add b ((a + of_nat k) AND (2 ^ n - 1)) = Some (b + (a AND (2 ^ n - 1)) + of_nat k)"
    using checked_add_small[of b "a AND (2 ^ n - 1)" k "(a + of_nat k) AND (2 ^ n - 1)"] small 1
      and_mask_same_page[of n a k] assms by simp
  show "unat (b + (a AND (2 ^ n - 1)) + of_nat k) < 2 ^ 53"
    using small by (simp add: unat_word_ariths unat_of_nat)
qed

lemma translate_same_page:
  assumes X: "x86_laws X" and k: "unat a mod 4096 + k < 4096"
  shows "translate_addr_in_table X v t (a + of_nat k) =
    map_option (\<lambda>(p, f). (p + of_nat k, f)) (translate_addr_in_table X v t a)"
proof -
  have i: "x_p4_index X (a + of_nat k) = x_p4_index X a" "x_p3_index X (a + of_nat k) = x_p3_index X a"
    "x_p2_index X (a + of_nat k) = x_p2_index X a" "x_p1_index X (a + of_nat k) = x_p1_index X a"
    using X k by (simp_all add: x86_laws_def index_of_same_page)
  have b: "unat (x_addr X e) < 2 ^ 52" for e using X by (simp add: x86_laws_def)
  have o: "checked_add (x_addr X e) (a AND 0xfff) = Some (x_addr X e + (a AND 0xfff))"
    "checked_add (x_addr X e) (a + of_nat k AND 0xfff) = Some (x_addr X e + (a AND 0xfff) + of_nat k)"
    "checked_add (x_addr X e) (a AND (2 ^ 21 - 1)) = Some (x_addr X e + (a AND (2 ^ 21 - 1)))"
    "checked_add (x_addr X e) (a + of_nat k AND (2 ^ 21 - 1)) = Some (x_addr X e + (a AND (2 ^ 21 - 1)) + of_nat k)"
    "checked_add (x_addr X e) (a AND (2 ^ 30 - 1)) = Some (x_addr X e + (a AND (2 ^ 30 - 1)))"
    "checked_add (x_addr X e) (a + of_nat k AND (2 ^ 30 - 1)) = Some (x_addr X e + (a AND (2 ^ 30 - 1)) + of_nat k)" for e
    using entry_offset_same_page(1,2)[OF b _ _ k, of 12 e] entry_offset_same_page(1,2)[OF b _ _ k, of 21 e]
      entry_offset_same_page(1,2)[OF b _ _ k, of 30 e] by simp_all
  show ?thesis
    unfolding translate_addr_in_table_def i o Let_def
    by (cases "vm_phys_offset v") (auto split: bind_split)
qed

lemma user_space_page: "(a \<le> USER_SPACE_END) = (unat a div 4096 < 2 ^ 35)"
  by (auto simp: USER_SPACE_END_def word_le_nat_alt div_less_iff_less_mult)

lemma page_base_eq_iff: "page_base a = page_base b \<longleftrightarrow> unat a div 4096 = unat b div 4096"
  by (auto simp: word_unat_eq_iff unat_page_base minus_mod_eq_div_mult)

lemma div_same_page: "(x :: nat) mod 4096 + k < 4096 \<Longrightarrow> (x + k) div 4096 = x div 4096"
  using page_no_offset[of 12 x k] by simp

lemma page_base_same_page: "unat a mod 4096 + k < 4096 \<Longrightarrow> page_base (a + of_nat k) = page_base a"
  by (simp add: page_base_eq_iff unat_page_offset div_same_page)

lemma translate_user_same_page:
  assumes X: "x86_laws X" and k: "unat a mod 4096 + k < 4096"
  shows "translate_user_addr_in_table X v t (a + of_nat k) w =
    map_option (\<lambda>(p, off). (p + of_nat k, off + k)) (translate_user_addr_in_table X v t a w)"
proof -
  have e: "(a + of_nat k > USER_SPACE_END) = (a > USER_SPACE_END)"
    using user_space_page[of a] user_space_page[of "a + of_nat k"] unat_page_offset[OF k] div_same_page[OF k]
    by (simp add: not_le[symmetric])
  have off: "unat (a + of_nat k AND 0xfff) = unat (a AND 0xfff) + k"
    using and_mask_same_page[of 12 a k] k by simp
  show ?thesis
    unfolding translate_user_addr_in_table_def e page_base_same_page[OF k] translate_same_page[OF X k] off
    by (auto split: bind_split option.split)
qed

lemma translate_bound:
  assumes X: "x86_laws X" and t: "translate_addr_in_table X v t a = Some (p, f)"
  shows "unat p < 2 ^ 53"
proof -
  have b: "unat (x_addr X e) < 2 ^ 52" for e using X by (simp add: x86_laws_def)
  have m: "unat (a AND (2 ^ n - 1)) < 2 ^ 30" if "n \<le> 30" for n
    unfolding unat_and_mask using power_increasing[of n 30 "2 :: nat"] that
    by (meson less_le_trans mod_less_divisor one_le_numeral zero_less_numeral zero_less_power)
  have "unat p < 2 ^ 53" if "checked_add (x_addr X e) (a AND (2 ^ n - 1)) = Some p" "n \<le> 30" for e n
    using checked_add_Some(1)[OF that(1)] b[of e] m[OF that(2)] by simp
  from this[of _ 12] this[of _ 21] this[of _ 30] show ?thesis
    using t by (auto simp: translate_addr_in_table_def bind_eq_Some_conv Let_def split: if_splits)
qed

lemma translate_user_bound:
  "\<lbrakk>x86_laws X; translate_user_addr_in_table X v t a w = Some (p, off)\<rbrakk> \<Longrightarrow> unat p < 2 ^ 53 \<and> off = unat a mod 4096"
  using translate_bound by (fastforce simp: translate_user_addr_in_table_def bind_eq_Some_conv unat_and_fff split: if_splits)

section \<open>Copying is pointwise\<close>

text \<open>The byte of a user address: what a read of one byte gives.\<close>

definition user_byte :: "x86 \<Rightarrow> vm \<Rightarrow> u64 \<Rightarrow> u64 \<Rightarrow> u8 option" where
  "user_byte X v t a = map_option (\<lambda>(p, _). vm_mem v p) (translate_user_addr_in_table X v t a False)"

lemma user_bytes_in_page:
  assumes X: "x86_laws X" and t: "translate_user_addr_in_table X v t a False = Some (p, off)" and n: "off + n \<le> 4096"
  shows "map (\<lambda>i. user_byte X v t (a + of_nat i)) [0..<n] = map (\<lambda>i. Some (vm_mem v (p + of_nat i))) [0..<n]"
proof -
  have "user_byte X v t (a + of_nat i) = Some (vm_mem v (p + of_nat i))" if "i < n" for i
    using translate_user_same_page[OF X, of a i] translate_user_bound[OF X t] t n that by (simp add: user_byte_def)
  then show ?thesis by simp
qed

lemma copy_from_user_loop_pointwise:
  assumes X: "x86_laws X" and po: "unat phys_off + 2 ^ 53 \<le> 2 ^ 64" and len: "unat src + len \<le> 2 ^ 64" "copied \<le> len"
  shows "copy_from_user_loop X v t phys_off src len copied dst =
    (case those (map (\<lambda>i. user_byte X v t (src + of_nat i)) [copied..<len]) of
       Some bs \<Rightarrow> Ok (dst @ bs) | None \<Rightarrow> Err (KMemory InvalidAddress))"
  using len(2)
proof (induction "len - copied" arbitrary: copied dst rule: less_induct)
  case less
  show ?case
  proof (cases "copied < len")
    case False
    then show ?thesis by (subst copy_from_user_loop.simps) simp
  next
    case True
    let ?cur = "src + of_nat copied" and ?ub = "\<lambda>i. user_byte X v t (src + of_nat i)"
    have cur: "checked_add src (of_nat copied) = Some ?cur"
      using len(1) True by (simp add: checked_add_def unat_of_nat)
    show ?thesis
    proof (cases "translate_user_addr_in_table X v t ?cur False")
      case None
      then have "?ub copied = None" by (simp add: user_byte_def)
      then have "those (map ?ub [copied..<len]) = None"
        using True by (simp add: those_None) (metis atLeastLessThan_iff image_eqI order_refl)
      then show ?thesis using True cur None by (subst copy_from_user_loop.simps) simp
    next
      case (Some r)
      obtain p off where r: "r = (p, off)" by (cases r)
      define chunk where "chunk = min (4096 - off) (len - copied)"
      have tr: "translate_user_addr_in_table X v t ?cur False = Some (p, off)" using Some r by simp
      have b: "unat p < 2 ^ 53" "off < 4096" using translate_user_bound[OF X tr] page_offset_bound[OF tr] by simp_all
      have po': "checked_add p phys_off = Some (p + phys_off)" using b(1) po by (simp add: checked_add_def)
      have ch: "0 < chunk" "copied + chunk \<le> len" "off + chunk \<le> 4096" using b(2) True by (auto simp: chunk_def)
      have "[copied..<len] = map ((+) copied) [0..<chunk] @ [copied + chunk..<len]"
        using ch(2) by (intro nth_equalityI) (auto simp: nth_append)
      moreover have "map ?ub (map ((+) copied) [0..<chunk]) = map (\<lambda>i. Some (vm_mem v (p + of_nat i))) [0..<chunk]"
        using user_bytes_in_page[OF X tr ch(3)] by (simp add: comp_def add.assoc)
      ultimately have "those (map ?ub [copied..<len]) =
          map_option (\<lambda>bs. mem_read (vm_mem v) p chunk @ bs) (those (map ?ub [copied + chunk..<len]))"
        by (simp add: those_append those_map_Some mem_read_def del: map_map)
      moreover have "copy_from_user_loop X v t phys_off src len copied dst =
          copy_from_user_loop X v t phys_off src len (copied + chunk) (dst @ mem_read (vm_mem v) p chunk)"
        using True cur tr po' by (subst copy_from_user_loop.simps) (simp add: chunk_def Let_def)
      moreover have "len - (copied + chunk) < len - copied" using ch True by simp
      ultimately show ?thesis using less.hyps[of "copied + chunk"] ch(2) by (simp split: option.split)
    qed
  qed
qed

section \<open>Mapped ranges\<close>

lemma flags_translate:
  assumes X: "x86_laws X" and f: "user_page_flags_in_table X v t (page_base a) = Some f"
  shows "\<exists>p. translate_addr_in_table X v t a = Some (p, f)" "has_flag f (x_present X)" "has_flag f (x_user X)"
proof -
  have i: "x_p4_index X a = index_of 39 a" "x_p3_index X a = index_of 30 a" "x_p2_index X a = index_of 21 a"
    "x_p1_index X a = index_of 12 a"
    using X by (simp_all add: x86_laws_def)
  have j: "index_of 39 (page_base a) = index_of 39 a" "index_of 30 (page_base a) = index_of 30 a"
    "index_of 21 (page_base a) = index_of 21 a" "index_of 12 (page_base a) = index_of 12 a"
    by (simp_all add: index_of_page_base)
  have b: "unat (x_addr X e) < 2 ^ 52" for e using X by (simp add: x86_laws_def)
  have z: "unat a mod 4096 + 0 < 4096" by simp
  have o: "checked_add (x_addr X e) (a AND 0xfff) = Some (x_addr X e + (a AND 0xfff))"
    "checked_add (x_addr X e) (a AND (2 ^ 21 - 1)) = Some (x_addr X e + (a AND (2 ^ 21 - 1)))"
    "checked_add (x_addr X e) (a AND (2 ^ 30 - 1)) = Some (x_addr X e + (a AND (2 ^ 30 - 1)))" for e
    using entry_offset_same_page(1)[OF b _ _ z, of 12 e] entry_offset_same_page(1)[OF b _ _ z, of 21 e]
      entry_offset_same_page(1)[OF b _ _ z, of 30 e] by simp_all
  have "(\<exists>p. translate_addr_in_table X v t a = Some (p, f)) \<and> has_flag f (x_present X) \<and> has_flag f (x_user X)"
    using f unfolding translate_addr_in_table_def user_page_flags_in_table_def i j o Let_def
    by (auto simp: bind_eq_Some_conv entry_user_def entry_present_def split: if_splits)
  then show "\<exists>p. translate_addr_in_table X v t a = Some (p, f)" "has_flag f (x_present X)" "has_flag f (x_user X)"
    by simp_all
qed

text \<open>A byte of user space can be read exactly when its page is mapped for the user.\<close>

lemma user_byte_mapped:
  assumes X: "x86_laws X"
  shows "user_byte X v t a \<noteq> None \<longleftrightarrow> a \<le> USER_SPACE_END \<and> page_is_user_mapped_in_table X v t (page_base a)"
  using flags_translate[OF X, of v t a]
  by (auto simp: user_byte_def translate_user_addr_in_table_def page_is_user_mapped_in_table_def not_le split: bind_split option.splits)

lemma unat_page_base_le: "unat (page_base a) \<le> unat a" "unat a < unat (page_base a) + 4096"
  by (simp_all add: unat_page_base)

lemma page_base_aligned [simp]: "unat (page_base a) mod 4096 = 0"
  by (simp add: unat_page_base minus_mod_eq_mult_div)

lemma user_range_loop_pages:
  assumes "unat e mod 4096 = 0" "unat p mod 4096 = 0" "p \<le> e"
  shows "user_range_loop X v t p e \<longleftrightarrow>
    (\<forall>q. unat q mod 4096 = 0 \<and> p \<le> q \<and> q \<le> e \<longrightarrow> page_is_user_mapped_in_table X v t q)"
  using assms(2,3)
proof (induction "unat e - unat p" arbitrary: p rule: less_induct)
  case less
  show ?case
  proof (cases "p = e")
    case True
    then have "(\<forall>q. unat q mod 4096 = 0 \<and> p \<le> q \<and> q \<le> e \<longrightarrow> page_is_user_mapped_in_table X v t q) \<longleftrightarrow>
        page_is_user_mapped_in_table X v t e"
      using assms(1) by (metis order_antisym order_refl)
    then show ?thesis using True by (subst user_range_loop.simps) simp
  next
    case False
    then have lt: "unat p < unat e" using less.prems(2) by (simp add: word_le_nat_alt order_less_le word_unat_eq_iff)
    then obtain k where k: "unat e = unat p + 4096 * k" "0 < k"
      using assms(1) less.prems(1) by (metis add_diff_inverse_nat dvd_diff_nat dvd_def dvd_eq_mod_eq_0 gr0I less_irrefl
          mult_0_right not_less_iff_gr_or_eq add_0_right)
    have n: "checked_add p 4096 = Some (p + 4096)" "unat (p + 4096) = unat p + 4096"
      using k unat_u64_lt[of e] by (auto simp: checked_add_def unat_word_ariths)
    have le: "p + 4096 \<le> e" using n(2) k by (simp add: word_le_nat_alt)
    have al: "unat (p + 4096) mod 4096 = 0" using n(2) less.prems(1) by simp
    have split: "unat q mod 4096 = 0 \<and> p \<le> q \<and> q \<le> e \<longleftrightarrow> q = p \<or> unat q mod 4096 = 0 \<and> p + 4096 \<le> q \<and> q \<le> e" for q
    proof
      assume q: "unat q mod 4096 = 0 \<and> p \<le> q \<and> q \<le> e"
      show "q = p \<or> unat q mod 4096 = 0 \<and> p + 4096 \<le> q \<and> q \<le> e"
      proof (cases "q = p")
        case False
        then have "unat p < unat q" using q by (simp add: word_le_nat_alt order_less_le word_unat_eq_iff)
        then have "unat p + 4096 \<le> unat q"
          using q less.prems(1) by (metis (no_types) add_le_cancel_left dvd_diff_nat dvd_eq_mod_eq_0 dvd_imp_le
              le_add_diff_inverse less_imp_le_nat zero_less_diff)
        then show ?thesis using q n(2) by (simp add: word_le_nat_alt)
      qed simp
    next
      assume "q = p \<or> unat q mod 4096 = 0 \<and> p + 4096 \<le> q \<and> q \<le> e"
      then show "unat q mod 4096 = 0 \<and> p \<le> q \<and> q \<le> e"
        using less.prems n(2) by (auto simp: word_le_nat_alt)
    qed
    have "user_range_loop X v t (p + 4096) e \<longleftrightarrow>
        (\<forall>q. unat q mod 4096 = 0 \<and> p + 4096 \<le> q \<and> q \<le> e \<longrightarrow> page_is_user_mapped_in_table X v t q)"
      by (rule less.hyps) (use al le n k in auto)
    then show ?thesis unfolding split using False n(1) by (subst user_range_loop.simps) auto
  qed
qed

lemma page_base_mono: "a \<le> b \<Longrightarrow> page_base a \<le> page_base b"
  by (simp add: word_le_nat_alt unat_page_base minus_mod_eq_div_mult div_le_mono)

lemma page_base_id: "unat q mod 4096 = 0 \<Longrightarrow> page_base q = q"
  by (simp add: word_unat_eq_iff unat_page_base)

lemma user_range_loop_bytes:
  assumes e: "checked_add addr (len - 1) = Some e" and len: "len \<noteq> 0"
  shows "user_range_loop X v t (page_base addr) (page_base e) \<longleftrightarrow>
    (\<forall>i < unat len. page_is_user_mapped_in_table X v t (page_base (addr + of_nat i)))"
proof -
  have ue: "unat e = unat addr + (unat len - 1)"
    using checked_add_Some(1)[OF e] len by (metis unat_minus_one)
  have pos: "0 < unat len" using len by (simp add: unat_gt_0)
  have ui: "unat (addr + of_nat i) = unat addr + i" if "i < unat len" for i
    using that ue pos unat_u64_lt[of e] by (simp add: unat_word_ariths unat_of_nat)
  have le: "addr \<le> e" using checked_add_Some(2)[OF e] .
  let ?M = "page_is_user_mapped_in_table X v t"
  have "(\<forall>q. unat q mod 4096 = 0 \<and> page_base addr \<le> q \<and> q \<le> page_base e \<longrightarrow> ?M q) \<longleftrightarrow>
      (\<forall>i < unat len. ?M (page_base (addr + of_nat i)))" (is "?L \<longleftrightarrow> ?R")
  proof
    assume L: ?L
    show ?R
    proof (intro allI impI)
      fix i assume i: "i < unat len"
      then have "addr \<le> addr + of_nat i" "addr + of_nat i \<le> e" using ui ue by (simp_all add: word_le_nat_alt)
      then show "?M (page_base (addr + of_nat i))" using L page_base_mono page_base_aligned by blast
    qed
  next
    assume R: ?R
    show ?L
    proof (intro allI impI)
      fix q assume q: "unat q mod 4096 = 0 \<and> page_base addr \<le> q \<and> q \<le> page_base e"
      show "?M q"
      proof (cases "q \<le> addr")
        case True
        then have "page_base q \<le> page_base addr" by (rule page_base_mono)
        then have "q = page_base addr" using q page_base_id[of q] by simp
        then show ?thesis using R[rule_format, OF pos] by simp
      next
        case False
        let ?i = "unat q - unat addr"
        have lt: "unat addr < unat q" using False by (simp add: word_le_nat_alt)
        have "unat q \<le> unat e" using q unat_page_base_le(1)[of e] by (auto simp: word_le_nat_alt)
        then have i: "?i < unat len" using ue lt pos by simp
        then have "addr + of_nat ?i = q" using ui[OF i] lt by (simp add: word_unat_eq_iff)
        then show ?thesis using R[rule_format, OF i] page_base_id q by simp
      qed
    qed
  qed
  then show ?thesis using user_range_loop_pages[of "page_base e" "page_base addr"] page_base_mono[OF le] by simp
qed

lemma is_user_range_mapped_bytes:
  "is_user_range_mapped_in_table X v t addr len \<longleftrightarrow> addr \<le> USER_SPACE_END
    \<and> (\<forall>i < unat len. unat addr + i \<le> unat USER_SPACE_END \<and> page_is_user_mapped_in_table X v t (page_base (addr + of_nat i)))"
proof (cases "len = 0")
  case True
  then show ?thesis by (auto simp: is_user_range_mapped_in_table_def)
next
  case False
  then have pos: "0 < unat len" "unat (len - 1) = unat len - 1" by (simp_all add: unat_gt_0 unat_minus_one)
  have all: "(\<forall>i < unat len. unat addr + i \<le> unat USER_SPACE_END) \<longleftrightarrow> unat addr + (unat len - 1) \<le> unat USER_SPACE_END"
    using pos by (auto dest: spec[of _ "unat len - 1"])
  show ?thesis
  proof (cases "checked_add addr (len - 1)")
    case None
    then have "\<not> unat addr + (unat len - 1) \<le> unat USER_SPACE_END"
      using pos unat_u64_lt[of USER_SPACE_END] by (simp add: checked_add_def split: if_splits)
    then show ?thesis using None False all by (auto simp: is_user_range_mapped_in_table_def)
  next
    case (Some e)
    then have "e \<le> USER_SPACE_END \<longleftrightarrow> unat addr + (unat len - 1) \<le> unat USER_SPACE_END"
      using checked_add_Some(1)[OF Some] pos by (simp add: word_le_nat_alt)
    then show ?thesis
      using Some False all user_range_loop_bytes[OF Some False] by (auto simp: is_user_range_mapped_in_table_def not_le)
  qed
qed

lemma copy_from_user_spec:
  assumes "x86_laws X" "vm_phys_offset v = Some phys_off" "unat phys_off + 2 ^ 53 \<le> 2 ^ 64"
    "src_ptr \<noteq> 0" "0 < len" "len < 2 ^ 64"
  shows "copy_from_user_in_table X v t src_ptr len =
    (if is_user_range_mapped_in_table X v t src_ptr (of_nat len)
     then Ok (map (\<lambda>i. the (user_byte X v t (src_ptr + of_nat i))) [0..<len])
     else Err (KMemory InvalidAddress))"
proof -
  have ul: "unat (of_nat len :: u64) = len" using assms(6) by (simp add: unat_of_nat)
  then have l1: "unat (of_nat len - 1 :: u64) = len - 1" "(of_nat len :: u64) \<noteq> 0"
    using assms(5) by (metis gr0I unat_0 less_numeral_extra(3) unat_minus_one) (metis assms(5) less_irrefl ul unat_0)
  let ?ub = "\<lambda>i. user_byte X v t (src_ptr + of_nat i)"
  show ?thesis
  proof (cases "\<exists>e. checked_add src_ptr (of_nat len - 1) = Some e \<and> e \<le> USER_SPACE_END \<and> src_ptr \<le> USER_SPACE_END")
    case False
    then have "\<not> is_user_range_mapped_in_table X v t src_ptr (of_nat len)"
      using l1(2) by (auto simp: is_user_range_mapped_in_table_def split: option.splits)
    then show ?thesis
      using False assms by (auto simp: copy_from_user_in_table_def not_le split: option.split)
  next
    case True
    then obtain e where e: "checked_add src_ptr (of_nat len - 1) = Some e" "e \<le> USER_SPACE_END" "src_ptr \<le> USER_SPACE_END" by blast
    have ue: "unat e = unat src_ptr + (len - 1)" using checked_add_Some(1)[OF e(1)] l1(1) by simp
    have room: "unat src_ptr + len \<le> 2 ^ 64" using ue unat_u64_lt[of e] assms(5) by simp
    have inr: "src_ptr + of_nat i \<le> USER_SPACE_END" if "i < len" for i
    proof -
      have "unat (src_ptr + of_nat i) = unat src_ptr + i"
        using that room assms(6) by (simp add: unat_word_ariths unat_of_nat)
      then show ?thesis using that ue e(2) by (simp add: word_le_nat_alt)
    qed
    have m: "is_user_range_mapped_in_table X v t src_ptr (of_nat len) \<longleftrightarrow> (\<forall>i < len. ?ub i \<noteq> None)"
      using user_range_loop_bytes[OF e(1) l1(2)] user_byte_mapped[OF assms(1), of v t] inr e l1(2) ul
      by (auto simp: is_user_range_mapped_in_table_def leD)
    have t: "those (map ?ub [0..<len]) = (if \<forall>i < len. ?ub i \<noteq> None then Some (map (\<lambda>i. the (?ub i)) [0..<len]) else None)"
    proof (cases "\<forall>i < len. ?ub i \<noteq> None")
      case True
      then have "map ?ub [0..<len] = map (\<lambda>i. Some (the (?ub i))) [0..<len]" by (auto intro!: map_cong)
      then have "those (map ?ub [0..<len]) = Some (map (\<lambda>i. the (?ub i)) [0..<len])" by (simp only: those_map_Some)
      then show ?thesis using True by simp
    next
      case False
      then obtain i where "i < len" "?ub i = None" by blast
      then have "None \<in> ?ub ` {0..<len}" by (intro image_eqI[of _ _ i]) simp_all
      then have "those (map ?ub [0..<len]) = None" by (simp add: those_None)
      then show ?thesis using False by (simp only: if_False)
    qed
    have "copy_from_user_in_table X v t src_ptr len = copy_from_user_loop X v t phys_off src_ptr len 0 []"
      using e assms by (simp add: copy_from_user_in_table_def leD)
    then show ?thesis
      using copy_from_user_loop_pointwise[OF assms(1,3) room, of 0 v t "[]"] m t by auto
  qed
qed

section \<open>Writing user memory\<close>

text \<open>
  The physical bytes that the user of a table may write through it, and the condition that the table itself is not among them:
  changing such bytes changes no translation.
\<close>

definition writable_bytes :: "x86 \<Rightarrow> vm \<Rightarrow> u64 \<Rightarrow> u64 set" where
  "writable_bytes X v t = {p. \<exists>a off. translate_user_addr_in_table X v t a True = Some (p, off)}"

definition tables_protected :: "x86 \<Rightarrow> vm \<Rightarrow> u64 \<Rightarrow> bool" where
  "tables_protected X v t \<longleftrightarrow> (\<forall>m. (\<forall>x. m x \<noteq> vm_mem v x \<longrightarrow> x \<in> writable_bytes X v t) \<longrightarrow>
    (\<forall>a w. translate_user_addr_in_table X (v\<lparr>vm_mem := m\<rparr>) t a w = translate_user_addr_in_table X v t a w))"

lemma tables_protected_write:
  assumes "tables_protected X v t" "\<forall>x. m x \<noteq> vm_mem v x \<longrightarrow> x \<in> writable_bytes X v t"
  shows "tables_protected X (v\<lparr>vm_mem := m\<rparr>) t"
    "translate_user_addr_in_table X (v\<lparr>vm_mem := m\<rparr>) t a w = translate_user_addr_in_table X v t a w"
proof -
  show t: "translate_user_addr_in_table X (v\<lparr>vm_mem := m\<rparr>) t a w = translate_user_addr_in_table X v t a w" for a w
    using assms by (simp add: tables_protected_def)
  have w: "writable_bytes X (v\<lparr>vm_mem := m\<rparr>) t = writable_bytes X v t" by (simp add: writable_bytes_def t)
  show "tables_protected X (v\<lparr>vm_mem := m\<rparr>) t"
    unfolding tables_protected_def w
  proof (intro allI impI)
    fix m' a w'
    assume "\<forall>x. m' x \<noteq> vm_mem (v\<lparr>vm_mem := m\<rparr>) x \<longrightarrow> x \<in> writable_bytes X v t"
    then have "\<forall>x. m' x \<noteq> m x \<longrightarrow> x \<in> writable_bytes X v t" by simp
    then have "\<forall>x. m' x \<noteq> vm_mem v x \<longrightarrow> x \<in> writable_bytes X v t" using assms(2) by metis
    then show "translate_user_addr_in_table X (v\<lparr>vm_mem := m, vm_mem := m'\<rparr>) t a w' =
        translate_user_addr_in_table X (v\<lparr>vm_mem := m\<rparr>) t a w'"
      using assms(1) t by (simp add: tables_protected_def)
  qed
qed

lemma mem_write_range: "mem_write m p bs x \<noteq> m x \<Longrightarrow> \<exists>i < length bs. x = p + of_nat i"
  by (rule exI[of _ "unat (x - p)"]) (auto simp: mem_write_def split: if_splits)

lemma mem_write_at: "\<lbrakk>i < length bs; length bs \<le> 4096\<rbrakk> \<Longrightarrow> mem_write m p bs (p + of_nat i) = bs ! i"
  by (simp add: mem_write_def unat_of_nat)

text \<open>The translations of the bytes of a chunk.\<close>

lemma chunk_translations:
  assumes X: "x86_laws X" and t: "translate_user_addr_in_table X v t cur w = Some (p, off)" and i: "off + i < 4096"
  shows "translate_user_addr_in_table X v t (cur + of_nat i) w = Some (p + of_nat i, off + i)"
  using translate_user_same_page[OF X, of cur i v t w] translate_user_bound[OF X t] t i by simp

definition copied_prefix :: "x86 \<Rightarrow> vm \<Rightarrow> u64 \<Rightarrow> u64 \<Rightarrow> bytes \<Rightarrow> nat \<Rightarrow> bool" where
  "copied_prefix X v t dst src n \<longleftrightarrow> (\<forall>i < n. \<exists>p off. translate_user_addr_in_table X v t (dst + of_nat i) True = Some (p, off)
    \<and> vm_mem v p = src ! i)"

definition no_alias :: "x86 \<Rightarrow> vm \<Rightarrow> u64 \<Rightarrow> u64 \<Rightarrow> nat \<Rightarrow> bool" where
  "no_alias X v t a n \<longleftrightarrow> (\<forall>i j p off off'. i < n \<and> j < n
    \<and> translate_user_addr_in_table X v t (a + of_nat i) True = Some (p, off)
    \<and> translate_user_addr_in_table X v t (a + of_nat j) True = Some (p, off') \<longrightarrow> i = j)"

lemma no_aliasD:
  "\<lbrakk>no_alias X v t a n; i < n; j < n; translate_user_addr_in_table X v t (a + of_nat i) True = Some (p, off);
    translate_user_addr_in_table X v t (a + of_nat j) True = Some (p, off')\<rbrakk> \<Longrightarrow> i = j"
  unfolding no_alias_def by blast

lemma copy_to_user_loop_correct:
  assumes X: "x86_laws X" and po: "unat phys_off + 2 ^ 53 \<le> 2 ^ 64" and len: "unat dst + length src \<le> 2 ^ 64"
    and le: "copied \<le> length src" and prot: "tables_protected X v t"
    and l: "copy_to_user_loop X t phys_off dst src copied v = (r, v')"
  shows "\<exists>m. v' = v\<lparr>vm_mem := m\<rparr>
      \<and> (\<forall>x. m x \<noteq> vm_mem v x \<longrightarrow> (\<exists>i off. copied \<le> i \<and> i < length src
            \<and> translate_user_addr_in_table X v t (dst + of_nat i) True = Some (x, off)))
      \<and> (r = Ok () \<longleftrightarrow> (\<forall>i. copied \<le> i \<and> i < length src \<longrightarrow> translate_user_addr_in_table X v t (dst + of_nat i) True \<noteq> None))
      \<and> (no_alias X v t dst (length src) \<and> copied_prefix X v t dst src copied \<and> r = Ok () \<longrightarrow>
            copied_prefix X v' t dst src (length src))"
  using le prot l
proof (induction "length src - copied" arbitrary: copied v rule: less_induct)
  case less
  show ?case
  proof (cases "copied < length src")
    case False
    then have "r = Ok ()" "v' = v" "copied = length src"
      using less.prems(1,3) copy_to_user_loop.simps[of X t phys_off dst src copied v] by simp_all
    then show ?thesis by (intro exI[of _ "vm_mem v"]) auto
  next
    case True
    let ?T = "\<lambda>v i. translate_user_addr_in_table X v t (dst + of_nat i) True"
    have cur: "checked_add dst (of_nat copied) = Some (dst + of_nat copied)"
      using len True by (simp add: checked_add_def unat_of_nat)
    show ?thesis
    proof (cases "?T v copied")
      case None
      then have "r = Err (KMemory PermissionDenied)" "v' = v"
        using less.prems(3) True cur by (simp_all add: copy_to_user_loop.simps[of X t phys_off dst src copied])
      then show ?thesis using None True by (intro exI[of _ "vm_mem v"]) auto
    next
      case (Some q)
      obtain p off where q: "q = (p, off)" by (cases q)
      define chunk where "chunk = min (4096 - off) (length src - copied)"
      define bs where "bs = take chunk (drop copied src)"
      define v1 where "v1 = v\<lparr>vm_mem := mem_write (vm_mem v) p bs\<rparr>"
      have tr: "?T v copied = Some (p, off)" using Some q by simp
      have b: "unat p < 2 ^ 53" "off < 4096" using translate_user_bound[OF X tr] page_offset_bound[OF tr] by simp_all
      have po': "checked_add p phys_off = Some (p + phys_off)" using b(1) po by (simp add: checked_add_def)
      have ch: "0 < chunk" "copied + chunk \<le> length src" "off + chunk \<le> 4096" using b(2) True by (auto simp: chunk_def)
      have lb: "length bs = chunk" using ch(2) by (simp add: bs_def)
      have tc: "?T v (copied + i) = Some (p + of_nat i, off + i)" if "i < chunk" for i
        using chunk_translations[OF X tr, of i] that ch(3) by (simp add: add.assoc)
      have diff: "\<exists>i < chunk. x = p + of_nat i" if "vm_mem v1 x \<noteq> vm_mem v x" for x
        using that mem_write_range[of "vm_mem v" p bs x] lb by (simp add: v1_def)
      then have "\<forall>x. mem_write (vm_mem v) p bs x \<noteq> vm_mem v x \<longrightarrow> x \<in> writable_bytes X v t"
        using tc by (fastforce simp: v1_def writable_bytes_def)
      note pr = tables_protected_write[OF less.prems(2) this, folded v1_def]
      have step: "copy_to_user_loop X t phys_off dst src (copied + chunk) v1 = (r, v')"
        using less.prems(3) True cur tr po'
        by (simp add: copy_to_user_loop.simps[of X t phys_off dst src copied] chunk_def bs_def v1_def Let_def)
      have dec: "length src - (copied + chunk) < length src - copied" using ch True by simp
      obtain m where m: "v' = v1\<lparr>vm_mem := m\<rparr>"
        "\<forall>x. m x \<noteq> vm_mem v1 x \<longrightarrow> (\<exists>i off. copied + chunk \<le> i \<and> i < length src \<and> ?T v1 i = Some (x, off))"
        "r = Ok () \<longleftrightarrow> (\<forall>i. copied + chunk \<le> i \<and> i < length src \<longrightarrow> ?T v1 i \<noteq> None)"
        "no_alias X v1 t dst (length src) \<and> copied_prefix X v1 t dst src (copied + chunk) \<and> r = Ok () \<longrightarrow>
            copied_prefix X v' t dst src (length src)"
        using less.hyps[OF dec ch(2) pr(1) step] by blast
      show ?thesis
      proof (intro exI[of _ m] conjI allI impI)
        show "v' = v\<lparr>vm_mem := m\<rparr>" using m(1) by (simp add: v1_def)
        show "\<exists>i off. copied \<le> i \<and> i < length src \<and> ?T v i = Some (x, off)" if "m x \<noteq> vm_mem v x" for x
        proof (cases "m x = vm_mem v1 x")
          case True
          then obtain i where i: "i < chunk" "x = p + of_nat i" using diff[of x] \<open>m x \<noteq> vm_mem v x\<close> by auto
          then have "?T v (copied + i) = Some (x, off + i)" using tc by simp
          then show ?thesis using i(1) ch(2) by (intro exI[of _ "copied + i"] exI[of _ "off + i"]) simp
        next
          case False
          then obtain i off' where "copied + chunk \<le> i" "i < length src" "?T v1 i = Some (x, off')" using m(2) by blast
          then show ?thesis using pr(2) by (intro exI[of _ i] exI[of _ off']) simp
        qed
        have "?T v i \<noteq> None" if "copied \<le> i" "i < copied + chunk" for i
          using tc[of "i - copied"] that by simp
        then show "r = Ok () \<longleftrightarrow> (\<forall>i. copied \<le> i \<and> i < length src \<longrightarrow> ?T v i \<noteq> None)"
          unfolding m(3) pr(2) by (meson leI le_add1 order_trans)
        assume a: "no_alias X v t dst (length src) \<and> copied_prefix X v t dst src copied \<and> r = Ok ()"
        have "copied_prefix X v1 t dst src (copied + chunk)"
          unfolding copied_prefix_def pr(2)
        proof (intro allI impI)
          fix i assume i: "i < copied + chunk"
          show "\<exists>p off. ?T v i = Some (p, off) \<and> vm_mem v1 p = src ! i"
          proof (cases "copied \<le> i")
            case True
            then show ?thesis
              using tc[of "i - copied"] i lb ch(2,3) mem_write_at[of "i - copied" bs "vm_mem v" p]
              by (auto simp: v1_def bs_def)
          next
            case False
            then obtain p' off' where p': "?T v i = Some (p', off')" "vm_mem v p' = src ! i"
              using a unfolding copied_prefix_def by (meson not_le)
            have "vm_mem v1 p' = vm_mem v p'"
            proof (rule ccontr)
              assume "vm_mem v1 p' \<noteq> vm_mem v p'"
              then obtain j where j: "j < chunk" "p' = p + of_nat j" using diff by blast
              have "i = copied + j"
                using no_aliasD[OF _ _ _ p'(1) tc[OF j(1), folded j(2)], of "length src"] a i j(1) ch(2) by simp
              then show False using False by simp
            qed
            then show ?thesis using p' by simp
          qed
        qed
        moreover have "no_alias X v1 t dst (length src)" using a pr(2) by (simp add: no_alias_def)
        ultimately show "copied_prefix X v' t dst src (length src)" using m(4) a by blast
      qed
    qed
  qed
qed

lemma copy_to_user_enters_loop:
  assumes "vm_phys_offset v = Some phys_off" "copy_to_user_in_table X t dst_ptr src v = (r, v')" "length src < 2 ^ 64"
  shows "(r \<noteq> Ok () \<and> v' = v) \<or> src = [] \<or>
    (copy_to_user_loop X t phys_off dst_ptr src 0 v = (r, v') \<and> unat dst_ptr + length src \<le> 2 ^ 64 \<and> dst_ptr \<noteq> 0)"
proof (cases "src = []")
  case False
  then have "unat (of_nat (length src) - 1 :: u64) = length src - 1"
    using assms(3) by (subst unat_minus_one) (auto simp: unat_of_nat word_unat_eq_iff)
  then have "unat dst_ptr + length src \<le> 2 ^ 64" if "checked_add dst_ptr (of_nat (length src) - 1) = Some e" for e
    using checked_add_Some(1)[OF that] unat_u64_lt[of e] False by (cases src) auto
  then show ?thesis
    using assms(1,2) False by (auto simp: copy_to_user_in_table_def split: option.splits if_splits)
qed simp

text \<open>Bytes change only where the user may write an address of the range.\<close>

text \<open>What the tables say of a byte that the user may write: its page is in user space, present, accessible to the user and writable.\<close>

definition user_may_write :: "x86 \<Rightarrow> vm \<Rightarrow> u64 \<Rightarrow> u64 \<Rightarrow> u64 \<Rightarrow> bool" where
  "user_may_write X v t a x \<longleftrightarrow> a \<le> USER_SPACE_END \<and> (\<exists>flags e. user_page_flags_in_table X v t (page_base a) = Some flags
    \<and> has_flag flags (x_present X) \<and> has_flag flags (x_user X) \<and> has_flag flags (x_writable X)
    \<and> translate_addr_in_table X v t a = Some (x, e))"

lemma translate_user_may_write: "translate_user_addr_in_table X v t a True = Some (x, off) \<Longrightarrow> user_may_write X v t a x"
  by (auto simp: translate_user_addr_in_table_def user_may_write_def split: if_splits Option.bind_splits)

lemma copy_to_user_changes:
  assumes "x86_laws X" "vm_phys_offset v = Some phys_off" "unat phys_off + 2 ^ 53 \<le> 2 ^ 64" "length src < 2 ^ 64"
    "tables_protected X v t" "copy_to_user_in_table X t dst_ptr src v = (r, v')"
  shows "\<exists>m. v' = v\<lparr>vm_mem := m\<rparr> \<and> (\<forall>x. m x \<noteq> vm_mem v x \<longrightarrow>
    (\<exists>i off. i < length src \<and> translate_user_addr_in_table X v t (dst_ptr + of_nat i) True = Some (x, off)))"
proof -
  have same: ?thesis if "v' = v" using that by (intro exI[of _ "vm_mem v"]) simp
  consider "v' = v" | "copy_to_user_loop X t phys_off dst_ptr src 0 v = (r, v')" "unat dst_ptr + length src \<le> 2 ^ 64"
    using copy_to_user_enters_loop[OF assms(2,6,4)] assms(6) by (auto simp: copy_to_user_in_table_def)
  then show ?thesis
  proof cases
    case 2
    from copy_to_user_loop_correct[OF assms(1,3) 2(2) _ assms(5) 2(1)] show ?thesis by auto
  qed (rule same)
qed

text \<open>After a copy that succeeded, reading a byte of the range gives the byte that was written there.\<close>

lemma copy_to_user_bytes:
  assumes "x86_laws X" "vm_phys_offset v = Some phys_off" "unat phys_off + 2 ^ 53 \<le> 2 ^ 64" "length src < 2 ^ 64"
    "tables_protected X v t" "no_alias X v t dst_ptr (length src)" "copy_to_user_in_table X t dst_ptr src v = (Ok (), v')" "i < length src"
  shows "user_byte X v' t (dst_ptr + of_nat i) = Some (src ! i)"
proof -
  have l: "copy_to_user_loop X t phys_off dst_ptr src 0 v = (Ok (), v')" "unat dst_ptr + length src \<le> 2 ^ 64"
    using copy_to_user_enters_loop[OF assms(2,7,4)] assms(8) by auto
  have pre: "copied_prefix X v' t dst_ptr src (length src)"
    using copy_to_user_loop_correct[OF assms(1,3) l(2) _ assms(5) l(1)] assms(6) by (auto simp: copied_prefix_def)
  have relax: "translate_user_addr_in_table X v' t a True = Some r \<Longrightarrow> translate_user_addr_in_table X v' t a False = Some r" for a r
    by (auto simp: translate_user_addr_in_table_def bind_eq_Some_conv split: if_splits)
  show ?thesis using pre assms(8) relax unfolding copied_prefix_def user_byte_def by fastforce
qed

lemma copy_to_user_ok:
  assumes "x86_laws X" "vm_phys_offset v = Some phys_off" "unat phys_off + 2 ^ 53 \<le> 2 ^ 64" "length src < 2 ^ 64"
    "tables_protected X v t" "dst_ptr \<noteq> 0" "unat dst_ptr + length src \<le> 2 ^ 47"
    "\<forall>i < length src. translate_user_addr_in_table X v t (dst_ptr + of_nat i) True \<noteq> None"
  shows "\<exists>v'. copy_to_user_in_table X t dst_ptr src v = (Ok (), v')"
proof (cases "src = []")
  case False
  have u: "unat (of_nat (length src) - 1 :: u64) = length src - 1"
    using assms(4) False by (subst unat_minus_one) (auto simp: unat_of_nat word_unat_eq_iff)
  have "unat dst_ptr + unat (of_nat (length src) - 1 :: u64) < 2 ^ 64" using u assms(7) by simp
  then obtain e where c: "checked_add dst_ptr (of_nat (length src) - 1) = Some e" by (simp add: checked_add_def)
  have e: "checked_add dst_ptr (of_nat (length src) - 1) = Some e" "unat e = unat dst_ptr + (length src - 1)"
    using c checked_add_Some(1)[OF c] u by auto
  have b: "dst_ptr \<le> USER_SPACE_END" "e \<le> USER_SPACE_END"
    using assms(7) e(2) False by (cases src; simp add: USER_SPACE_END_def word_le_nat_alt)+
  obtain r v' where l: "copy_to_user_loop X t phys_off dst_ptr src 0 v = (r, v')" by fastforce
  have "r = Ok ()"
    using copy_to_user_loop_correct[OF assms(1,3) _ _ assms(5) l] assms(7,8) by auto
  then show ?thesis using l assms(2,6) False e(1) b by (auto simp: copy_to_user_in_table_def not_le)
qed (simp add: copy_to_user_in_table_def)

section \<open>A concrete table\<close>

text \<open>
  The entry format of the processor, and a table in frames 1 to 4 that maps the page at address 0x1000 to frame 5 for the user.
\<close>

definition flat_x86 :: x86 where
  "flat_x86 = \<lparr>x_present = 1, x_writable = 2, x_user = 4, x_huge = 0x80, x_no_execute = 0x8000000000000000,
    x_flags = (\<lambda>e. e AND 0xFFF0000000000FFF), x_addr = (\<lambda>e. e AND 0x000FFFFFFFFFF000), x_entry = (\<lambda>a f. a OR f),
    x_p4_index = index_of 39, x_p3_index = index_of 30, x_p2_index = index_of 21, x_p1_index = index_of 12,
    x_canonical = (\<lambda>a. a \<le> 0x00007FFFFFFFFFFF \<or> 0xFFFF800000000000 \<le> a), x_phys_frame = (\<lambda>a. a AND NOT 0xfff),
    x_translate_page = (\<lambda>t p v. False), x_map_to = (\<lambda>t p f fl v. (MapError, v)), x_unmap = (\<lambda>t p v. (None, v)), x_update_flags = (\<lambda>t p fl v. (False, v))\<rparr>"

definition one_page_vm :: vm where
  "one_page_vm = \<lparr>vm_mem = mem_write_u64 (mem_write_u64 (mem_write_u64 (mem_write_u64 (\<lambda>_. 0)
      0x1000 0x2007) 0x2000 0x3007) 0x3000 0x4007) 0x4008 0x5007,
    vm_frames = None, vm_phys_offset = Some 0, vm_kernel_l4 = 0, vm_page_table = None, vm_cr3 = 0,
    vm_next_stack_top = 0x80000000\<rparr>"

lemma flat_x86_simps [simp]:
  "x_present flat_x86 = 1" "x_writable flat_x86 = 2" "x_user flat_x86 = 4" "x_huge flat_x86 = 0x80"
  "x_no_execute flat_x86 = 0x8000000000000000" "x_flags flat_x86 e = e AND 0xFFF0000000000FFF"
  "x_addr flat_x86 e = e AND 0x000FFFFFFFFFF000" "x_entry flat_x86 a f = a OR f"
  "x_p4_index flat_x86 = index_of 39" "x_p3_index flat_x86 = index_of 30" "x_p2_index flat_x86 = index_of 21"
  "x_p1_index flat_x86 = index_of 12"
  by (simp_all add: flat_x86_def)

lemma flat_x86_laws: "x86_laws flat_x86"
proof -
  have "unat (e AND 0x000FFFFFFFFFF000 :: u64) < 2 ^ 52" for e
    using word_and_le1[of e "0x000FFFFFFFFFF000"] by (simp add: word_le_nat_alt)
  moreover have "e AND 0x000FFFFFFFFFF000 AND 0xfff = (0 :: u64)" for e
    by (simp add: and.assoc)
  ultimately show ?thesis by (simp add: x86_laws_def and.assoc)
qed

text \<open>The same table, whatever is in the frames from frame 5 on.\<close>

definition maps_one_page :: "vm \<Rightarrow> bool" where
  "maps_one_page v \<longleftrightarrow> vm_phys_offset v = Some 0 \<and> (\<forall>x < 0x5000. vm_mem v x = vm_mem one_page_vm x)"

lemma unat_entry_cell: "\<lbrakk>unat t \<le> 0x4000; i < 512\<rbrakk> \<Longrightarrow> unat (entry_cell t i) = unat t + 8 * i"
  by (simp add: entry_cell_def unat_word_ariths unat_of_nat)

lemma one_page_entries:
  assumes v: "maps_one_page v" and i: "i < 512"
  shows "entry_at v 0x1000 i = (if i = 0 then 0x2007 else 0)" "entry_at v 0x2000 i = (if i = 0 then 0x3007 else 0)"
    "entry_at v 0x3000 i = (if i = 0 then 0x4007 else 0)" "entry_at v 0x4000 i = (if i = 1 then 0x5007 else 0)"
proof -
  have cell: "entry_cell t i = c \<longleftrightarrow> unat t + 8 * i = unat c" if "unat t \<le> 0x4000" for t c
    using unat_entry_cell[OF that i] by (simp add: word_unat_eq_iff)
  have al: "aligned8 (entry_cell t i)" if "unat t \<le> 0x4000" "8 dvd unat t" for t
    using unat_entry_cell[OF that(1) i] that(2) by (simp add: aligned8_def mod_eq_0_iff_dvd)
  have z: "mem_read_u64 (\<lambda>_. 0) a = 0" for a
    by (simp add: mem_read_u64_def mem_read_def from_le_bytes.simps upt_rec)
  have same: "entry_at v t i = entry_at one_page_vm t i" if t: "unat t \<le> 0x4000" "8 dvd unat t" for t
  proof -
    have "vm_mem v (entry_cell t i + of_nat j) = vm_mem one_page_vm (entry_cell t i + of_nat j)" if j: "j < 8" for j
    proof -
      have "unat (entry_cell t i + of_nat j) = unat t + 8 * i + j"
        using unat_entry_cell[OF t(1) i] j i t(1) by (simp add: unat_word_ariths unat_of_nat)
      then have "entry_cell t i + of_nat j < 0x5000" using i j t(1) by (simp add: word_less_nat_alt)
      then show ?thesis using v by (simp add: maps_one_page_def)
    qed
    then show ?thesis unfolding entry_at_def mem_read_u64_def by (metis mem_read_cong)
  qed
  have rd: "entry_at one_page_vm t i = (let c = entry_cell t i in
      if c = 0x4008 then 0x5007 else if c = 0x3000 then 0x4007 else if c = 0x2000 then 0x3007 else if c = 0x1000 then 0x2007 else 0)"
    if t: "unat t \<le> 0x4000" "8 dvd unat t" for t
    using al[OF t]
    by (auto simp: entry_at_def one_page_vm_def Let_def z mem_read_u64_write_other aligned8_def)
  show "entry_at v 0x1000 i = (if i = 0 then 0x2007 else 0)" "entry_at v 0x2000 i = (if i = 0 then 0x3007 else 0)"
    "entry_at v 0x3000 i = (if i = 0 then 0x4007 else 0)" "entry_at v 0x4000 i = (if i = 1 then 0x5007 else 0)"
    using i by (auto simp: same rd Let_def cell)
qed

lemma one_page_flags:
  assumes v: "maps_one_page v"
  shows "user_page_flags_in_table flat_x86 v 0x1000 a =
    (if index_of 39 a = 0 \<and> index_of 30 a = 0 \<and> index_of 21 a = 0 \<and> index_of 12 a = 1 then Some 7 else None)"
  using v index_of_lt[of _ a] one_page_entries[OF v]
  by (simp add: user_page_flags_in_table_def Let_def maps_one_page_def entry_user_def entry_present_def has_flag_def
      checked_add_def)

lemma one_page_translate:
  assumes v: "maps_one_page v"
  shows "translate_addr_in_table flat_x86 v 0x1000 a =
    (if index_of 39 a = 0 \<and> index_of 30 a = 0 \<and> index_of 21 a = 0 \<and> index_of 12 a = 1
     then Some (0x5000 + (a AND 0xfff), 7) else None)"
proof -
  have "unat (a AND 0xfff) < 4096" by (simp add: unat_and_fff)
  then show ?thesis
    using v index_of_lt[of _ a] one_page_entries[OF v]
    by (simp add: translate_addr_in_table_def Let_def maps_one_page_def entry_present_def has_flag_def
        checked_add_def)
qed

lemma one_page_user:
  assumes v: "maps_one_page v"
  shows "translate_user_addr_in_table flat_x86 v 0x1000 a w =
    (if unat a div 4096 = 1 then Some (0x5000 + (a AND 0xfff), unat a mod 4096) else None)"
proof -
  have ix: "a \<le> USER_SPACE_END \<and> index_of 39 a = 0 \<and> index_of 30 a = 0 \<and> index_of 21 a = 0 \<and> index_of 12 a = 1 \<longleftrightarrow>
      unat a div 4096 = 1"
  proof -
    define n1 n2 n3 n4 where n: "n1 = unat a div 4096" "n2 = n1 div 512" "n3 = n2 div 512" "n4 = n3 div 512"
    have d: "unat a div 2 ^ 12 = n1" "unat a div 2 ^ 21 = n2" "unat a div 2 ^ 30 = n3" "unat a div 2 ^ 39 = n4"
      by (simp_all add: n div_mult2_eq[symmetric])
    have m: "n1 = n1 mod 512 + 512 * n2" "n2 = n2 mod 512 + 512 * n3" "n3 = n3 mod 512 + 512 * n4"
      by (simp_all add: n)
    show ?thesis
    proof
      assume L: "a \<le> USER_SPACE_END \<and> index_of 39 a = 0 \<and> index_of 30 a = 0 \<and> index_of 21 a = 0 \<and> index_of 12 a = 1"
      then have z: "n4 mod 512 = 0" "n3 = 512 * n4" "n2 = 512 * n3" "n1 = 1 + 512 * n2" and lt: "n1 < 2 ^ 35"
        using m unfolding index_of_unat user_space_page d n(1)[symmetric] by linarith+
      have "n4 < 512" using z(2-4) lt by simp
      then have "n4 = 0" using z(1) by simp
      then show "unat a div 4096 = 1" using z n(1) by simp
    next
      assume "unat a div 4096 = 1"
      then have "n1 = 1" "n2 = 0" "n3 = 0" "n4 = 0" using n by simp_all
      then show "a \<le> USER_SPACE_END \<and> index_of 39 a = 0 \<and> index_of 30 a = 0 \<and> index_of 21 a = 0 \<and> index_of 12 a = 1"
        unfolding index_of_unat user_space_page d n(1)[symmetric] by simp
    qed
  qed
  show ?thesis
    using ix by (auto simp: translate_user_addr_in_table_def one_page_flags[OF v] one_page_translate[OF v]
        index_of_page_base has_flag_def unat_and_fff not_le)
qed

lemma one_page_maps: "maps_one_page one_page_vm"
  by (simp add: maps_one_page_def) (simp add: one_page_vm_def)

lemma one_page_writable: "maps_one_page v \<Longrightarrow> writable_bytes flat_x86 v 0x1000 \<subseteq> {x. 0x5000 \<le> x}"
proof
  fix x assume v: "maps_one_page v" and "x \<in> writable_bytes flat_x86 v 0x1000"
  then obtain a where "x = 0x5000 + (a AND 0xfff)" by (auto simp: writable_bytes_def one_page_user split: if_splits)
  moreover have "unat (a AND 0xfff) < 4096" by (simp add: unat_and_fff)
  ultimately show "x \<in> {x. 0x5000 \<le> x}" by (simp add: word_le_nat_alt unat_word_ariths)
qed

lemma one_page_protected: "tables_protected flat_x86 one_page_vm 0x1000"
  unfolding tables_protected_def
proof (intro allI impI)
  fix m a w
  assume w: "\<forall>x. m x \<noteq> vm_mem one_page_vm x \<longrightarrow> x \<in> writable_bytes flat_x86 one_page_vm 0x1000"
  have "m x = vm_mem one_page_vm x" if "x < 0x5000" for x
  proof (rule ccontr)
    assume "m x \<noteq> vm_mem one_page_vm x"
    then have "0x5000 \<le> x" using w one_page_writable[OF one_page_maps] by blast
    then show False using that by simp
  qed
  then have "maps_one_page (one_page_vm\<lparr>vm_mem := m\<rparr>)" using one_page_maps by (simp add: maps_one_page_def)
  then show "translate_user_addr_in_table flat_x86 (one_page_vm\<lparr>vm_mem := m\<rparr>) 0x1000 a w =
      translate_user_addr_in_table flat_x86 one_page_vm 0x1000 a w"
    by (simp add: one_page_user one_page_maps)
qed

lemma one_page_offset: "vm_phys_offset one_page_vm = Some 0" "unat (0 :: u64) + 2 ^ 53 \<le> 2 ^ 64"
  by (simp_all add: one_page_vm_def)

section \<open>Properties\<close>

text \<open>
  C7. Reading user memory: the copy, which goes page by page, gives exactly the bytes of the range in order when the whole range
  is mapped for the user, and an error otherwise, so the range check that system calls make first decides whether the copy
  succeeds. The range check returns for every range, and the copy never reads outside user pages.
\<close>

theorem copy_from_user_pointwise:
  assumes "x86_laws X" "vm_phys_offset v = Some phys_off" "unat phys_off + 2 ^ 53 \<le> 2 ^ 64"
    "src_ptr \<noteq> 0" "0 < len" "len < 2 ^ 64"
  shows "copy_from_user_in_table X v t src_ptr len =
    (if is_user_range_mapped_in_table X v t src_ptr (of_nat len)
     then Ok (map (\<lambda>i. the (user_byte X v t (src_ptr + of_nat i))) [0..<len])
     else Err (KMemory InvalidAddress))"
  using assms by (rule copy_from_user_spec)

theorem copy_from_user_pointwise_witness:
  "\<exists>bs. copy_from_user_in_table flat_x86 one_page_vm 0x1000 0x1ffe 2 = Ok bs \<and> length bs = 2
    \<and> copy_from_user_in_table flat_x86 one_page_vm 0x1000 0x1fff 2 = Err (KMemory InvalidAddress)"
proof -
  have m: "page_is_user_mapped_in_table flat_x86 one_page_vm 0x1000 (page_base a) \<longleftrightarrow> unat a div 4096 = 1"
    if "a \<le> USER_SPACE_END" for a
    using user_byte_mapped[OF flat_x86_laws, of one_page_vm "0x1000" a] that
    by (simp add: user_byte_def one_page_user[OF one_page_maps] split: if_splits)
  have two: "(\<forall>i < unat (2 :: u64). P i) \<longleftrightarrow> P 0 \<and> P 1" for P by (auto simp: less_2_cases_iff)
  have "is_user_range_mapped_in_table flat_x86 one_page_vm 0x1000 0x1ffe 2"
    "\<not> is_user_range_mapped_in_table flat_x86 one_page_vm 0x1000 0x1fff 2"
    unfolding is_user_range_mapped_bytes two by (simp_all add: m USER_SPACE_END_def)
  then show ?thesis
    using copy_from_user_pointwise[OF flat_x86_laws one_page_offset, of "0x1ffe" 2 "0x1000"]
      copy_from_user_pointwise[OF flat_x86_laws one_page_offset, of "0x1fff" 2 "0x1000"] by simp
qed

text \<open>
  C3. Writing user memory is confined: whatever the table, the pointer and the outcome, every physical byte that changes is the
  translation of an address of the given range in a user page whose flags allow the user to write, and nothing else of the state changes. Here the table is not itself
  among the bytes its user can write.
\<close>

theorem copy_to_user_confined:
  assumes "x86_laws X" "vm_phys_offset v = Some phys_off" "unat phys_off + 2 ^ 53 \<le> 2 ^ 64" "length src < 2 ^ 64"
    "tables_protected X v t" "copy_to_user_in_table X t dst_ptr src v = (r, v')"
  shows "\<exists>m. v' = v\<lparr>vm_mem := m\<rparr> \<and> (\<forall>x. m x \<noteq> vm_mem v x \<longrightarrow> (\<exists>i < length src. user_may_write X v t (dst_ptr + of_nat i) x))"
  using copy_to_user_changes[OF assms] translate_user_may_write by blast

theorem copy_to_user_confined_witness:
  "\<exists>m. snd (copy_to_user_in_table flat_x86 0x1000 0x1010 [7] one_page_vm) = one_page_vm\<lparr>vm_mem := m\<rparr>
    \<and> (\<forall>x. x \<noteq> 0x5010 \<longrightarrow> m x = vm_mem one_page_vm x)"
proof -
  obtain r v' where c: "copy_to_user_in_table flat_x86 0x1000 0x1010 [7] one_page_vm = (r, v')" by fastforce
  from copy_to_user_confined[OF flat_x86_laws one_page_offset _ one_page_protected c]
  obtain m where m: "v' = one_page_vm\<lparr>vm_mem := m\<rparr>" "\<forall>x. m x \<noteq> vm_mem one_page_vm x \<longrightarrow>
      (\<exists>i < length [7 :: u8]. user_may_write flat_x86 one_page_vm 0x1000 (0x1010 + of_nat i) x)"
    by auto
  have "m x = vm_mem one_page_vm x" if "x \<noteq> 0x5010" for x
    using m(2) that by (force simp: user_may_write_def one_page_translate[OF one_page_maps] split: if_splits)
  then show ?thesis using c m(1) by auto
qed

text \<open>
  C6. What was written to user memory is what is read back, when the pages of the range are different frames.
\<close>

theorem copy_to_user_then_from_user:
  assumes "x86_laws X" "vm_phys_offset v = Some phys_off" "unat phys_off + 2 ^ 53 \<le> 2 ^ 64" "length src < 2 ^ 64"
    "tables_protected X v t" "no_alias X v t dst_ptr (length src)" "copy_to_user_in_table X t dst_ptr src v = (Ok (), v')"
  shows "copy_from_user_in_table X v' t dst_ptr (length src) = Ok src"
proof (cases "src = []")
  case True
  then show ?thesis by (simp add: copy_from_user_in_table_def)
next
  case False
  then have l: "copy_to_user_loop X t phys_off dst_ptr src 0 v = (Ok (), v')" "unat dst_ptr + length src \<le> 2 ^ 64" "dst_ptr \<noteq> 0"
    using copy_to_user_enters_loop[OF assms(2,7,4)] by auto
  obtain m where m: "v' = v\<lparr>vm_mem := m\<rparr>"
    using copy_to_user_loop_correct[OF assms(1,3) l(2) _ assms(5) l(1)] by auto
  note ub = copy_to_user_bytes[OF assms(1-7)]
  have off: "vm_phys_offset v' = Some phys_off" using m assms(2) by simp
  have "is_user_range_mapped_in_table X v' t dst_ptr (of_nat (length src))"
  proof -
    have "dst_ptr + of_nat i \<le> USER_SPACE_END \<and> page_is_user_mapped_in_table X v' t (page_base (dst_ptr + of_nat i))"
      if "i < length src" for i
      using ub[OF that] user_byte_mapped[OF assms(1), of v' t "dst_ptr + of_nat i"] by simp
    moreover have "unat (dst_ptr + of_nat i) = unat dst_ptr + i" if "i < length src" for i
      using that l(2) assms(4) by (simp add: unat_word_ariths unat_of_nat)
    ultimately show ?thesis
      using False assms(4) unfolding is_user_range_mapped_bytes
      by (fastforce simp: unat_of_nat word_le_nat_alt dest: spec[of _ 0])
  qed
  moreover have "map (\<lambda>i. the (user_byte X v' t (dst_ptr + of_nat i))) [0..<length src] = src"
    by (rule nth_equalityI) (simp_all add: ub)
  ultimately show ?thesis
    using copy_from_user_spec[OF assms(1) off assms(3) l(3) _ assms(4)] False by simp
qed

theorem copy_to_user_then_from_user_witness:
  "\<exists>v'. copy_to_user_in_table flat_x86 0x1000 0x1010 [7, 8] one_page_vm = (Ok (), v')
    \<and> copy_from_user_in_table flat_x86 v' 0x1000 0x1010 2 = Ok [7, 8]"
proof -
  let ?src = "[7, 8 :: u8]"
  have na: "no_alias flat_x86 one_page_vm 0x1000 0x1010 (length ?src)"
    by (auto simp: no_alias_def one_page_user[OF one_page_maps] less_Suc_eq)
  obtain r v' where c: "copy_to_user_in_table flat_x86 0x1000 0x1010 ?src one_page_vm = (r, v')" by fastforce
  have "checked_add 0x1010 (1 :: u64) = Some 0x1011" by (simp add: checked_add_def)
  then have "copy_to_user_loop flat_x86 0x1000 0 0x1010 ?src 0 one_page_vm = (r, v')"
    using c one_page_offset by (simp add: copy_to_user_in_table_def USER_SPACE_END_def)
  from copy_to_user_loop_correct[OF flat_x86_laws one_page_offset(2) _ _ one_page_protected this]
  have "r = Ok ()" by (auto simp: one_page_user[OF one_page_maps] less_Suc_eq)
  then have c: "copy_to_user_in_table flat_x86 0x1000 0x1010 ?src one_page_vm = (Ok (), v')" using c by simp
  have "copy_from_user_in_table flat_x86 v' 0x1000 0x1010 (length ?src) = Ok ?src"
    by (rule copy_to_user_then_from_user[OF flat_x86_laws one_page_offset _ one_page_protected na c]) simp
  moreover have "length ?src = 2" by simp
  ultimately show ?thesis using c by (metis (no_types))
qed

end
