(* ===== verification/Page_Tables.thy ===== *)
theory Page_Tables
  imports Paging
begin

text \<open>
  Building and changing page tables: the second half of \<^verbatim>\<open>src/src/core/mem/paging.rs\<close>, the frame functions of
  \<^verbatim>\<open>src/src/core/mem/frame.rs\<close> that it calls, and \<^verbatim>\<open>src/src/core/mem/user.rs\<close>. Every function threads the state of
  \<^verbatim>\<open>Paging\<close>; on an error the state keeps what had been done. Flushing the TLB has no counterpart.
\<close>

section \<open>Frames\<close>

definition allocate_frame :: "x86 \<Rightarrow> vm \<Rightarrow> u64 kres \<times> vm" where
  "allocate_frame X v =
    (case vm_frames v of
       None \<Rightarrow> (Err (KMemory OutOfMemory), v)
     | Some fa \<Rightarrow> (case fa_allocate_frame (x_phys_frame X) fa (vm_mem v) of
           (r, fa', m) \<Rightarrow> (ok_or r (KMemory OutOfMemory), v\<lparr>vm_frames := Some fa', vm_mem := m\<rparr>)))"

definition deallocate_frame :: "u64 \<Rightarrow> vm \<Rightarrow> unit kres \<times> vm" where
  "deallocate_frame p v =
    (case vm_frames v of
       None \<Rightarrow> (Err (KMemory OutOfMemory), v)
     | Some fa \<Rightarrow> (case fa_deallocate_frame p fa (vm_mem v) of
           (ok, fa', m) \<Rightarrow> (if ok then Ok () else Err (KMemory InvalidAddress), v\<lparr>vm_frames := Some fa', vm_mem := m\<rparr>)))"

definition zero_frame :: "u64 \<Rightarrow> vm \<Rightarrow> vm" where
  "zero_frame p v = v\<lparr>vm_mem := mem_write (vm_mem v) p (replicate 4096 0)\<rparr>"

text \<open>A loop whose body may fail, and the values of a loop variable that goes from page to page.\<close>

fun kfor :: "'a list \<Rightarrow> ('a \<Rightarrow> 's \<Rightarrow> unit kres \<times> 's) \<Rightarrow> 's \<Rightarrow> unit kres \<times> 's" where
  "kfor [] body s = (Ok (), s)"
| "kfor (x # xs) body s = kbind (body x) (\<lambda>_. kfor xs body) s"

definition page_range :: "u64 \<Rightarrow> u64 \<Rightarrow> u64 list" where
  "page_range start end_addr = map (\<lambda>i. start + 4096 * of_nat i) [0..<(unat end_addr - unat start + 4095) div 4096]"

definition page_align_up :: "u64 \<Rightarrow> u64 option" where
  "page_align_up a = map_option page_base (checked_add a 0xfff)"

section \<open>Mapping one page\<close>

text \<open>One level of \<^emph>\<open>map_page_in_table\<close>: the next table, allocated when there is none.\<close>

definition table_flags :: "x86 \<Rightarrow> bool \<Rightarrow> u64" where
  "table_flags X user_accessible = x_present X OR x_writable X OR (if user_accessible then x_user X else 0)"

definition next_table :: "x86 \<Rightarrow> bool \<Rightarrow> u64 \<Rightarrow> u64 \<Rightarrow> nat \<Rightarrow> vm \<Rightarrow> u64 kres \<times> vm" where
  "next_table X user_accessible phys_off table i v =
    (let e = entry_at v table i
     in if \<not> entry_present X e then
          kbind (allocate_frame X) (\<lambda>new v.
            case checked_add new phys_off of
              None \<Rightarrow> (Err (KMemory OutOfMemory), v)
            | Some _ \<Rightarrow> (Ok new, set_entry table i (x_entry X new (table_flags X user_accessible)) (zero_frame new v))) v
        else (Ok (x_addr X e),
          if user_accessible \<and> \<not> has_flag (x_flags X e) (x_user X)
          then set_entry table i (x_entry X (x_addr X e) (x_flags X e OR x_user X)) v else v))"

definition huge_entry :: "x86 \<Rightarrow> u64 \<Rightarrow> bool" where
  "huge_entry X e \<longleftrightarrow> entry_present X e \<and> has_flag (x_flags X e) (x_huge X)"

definition leaf_flags :: "x86 \<Rightarrow> bool \<Rightarrow> bool \<Rightarrow> u64" where
  "leaf_flags X writable user_accessible =
    x_present X OR (if writable then x_writable X else 0) OR (if user_accessible then x_user X else 0)"

text \<open>\<^emph>\<open>PhysAddr::new\<close> panics on an address of more than 52 bits.\<close>

definition phys_addr_ok :: "u64 \<Rightarrow> bool" where
  "phys_addr_ok a \<longleftrightarrow> unat a < 2 ^ 52"

definition map_page_in_table :: "x86 \<Rightarrow> u64 \<Rightarrow> u64 \<Rightarrow> u64 \<Rightarrow> bool \<Rightarrow> bool \<Rightarrow> vm \<Rightarrow> unit kres \<times> vm" where
  "map_page_in_table X table_phys virt_addr phys_addr writable user_accessible v =
    (if table_phys AND 0xfff \<noteq> 0 then (Err (KMemory AlignmentError), v)
     else if virt_addr AND 0xfff \<noteq> 0 then (Err (KMemory AlignmentError), v)
     else if phys_addr AND 0xfff \<noteq> 0 then (Err (KMemory AlignmentError), v)
     else case vm_phys_offset v of
         None \<Rightarrow> (Err (KMemory NotMapped), v)
       | Some phys_off \<Rightarrow> (case checked_add table_phys phys_off of
             None \<Rightarrow> (Err (KMemory OutOfMemory), v)
           | Some _ \<Rightarrow>
               if \<not> x_canonical X virt_addr then (Stuck, v)
               else
                 kbind (next_table X user_accessible phys_off table_phys (x_p4_index X virt_addr)) (\<lambda>l3 v.
                 case checked_add l3 phys_off of None \<Rightarrow> (Err (KMemory OutOfMemory), v) | Some _ \<Rightarrow>
                 if huge_entry X (entry_at v l3 (x_p3_index X virt_addr)) then (Err (KMemory AlreadyMapped), v)
                 else
                 kbind (next_table X user_accessible phys_off l3 (x_p3_index X virt_addr)) (\<lambda>l2 v.
                 case checked_add l2 phys_off of None \<Rightarrow> (Err (KMemory OutOfMemory), v) | Some _ \<Rightarrow>
                 if huge_entry X (entry_at v l2 (x_p2_index X virt_addr)) then (Err (KMemory AlreadyMapped), v)
                 else
                 kbind (next_table X user_accessible phys_off l2 (x_p2_index X virt_addr)) (\<lambda>l1 v.
                 case checked_add l1 phys_off of None \<Rightarrow> (Err (KMemory OutOfMemory), v) | Some _ \<Rightarrow>
                 if \<not> phys_addr_ok phys_addr then (Stuck, v)
                 else (Ok (), set_entry l1 (x_p1_index X virt_addr)
                    (x_entry X phys_addr (leaf_flags X writable user_accessible)) v)) v) v) v))"

definition unmap_page_in_table :: "x86 \<Rightarrow> u64 \<Rightarrow> u64 \<Rightarrow> vm \<Rightarrow> unit kres \<times> vm" where
  "unmap_page_in_table X table_phys virt_addr v =
    (if table_phys AND 0xfff \<noteq> 0 then (Err (KMemory AlignmentError), v)
     else if virt_addr AND 0xfff \<noteq> 0 then (Err (KMemory AlignmentError), v)
     else case vm_phys_offset v of
         None \<Rightarrow> (Err (KMemory NotMapped), v)
       | Some phys_off \<Rightarrow> (case checked_add table_phys phys_off of
             None \<Rightarrow> (Err (KMemory OutOfMemory), v)
           | Some _ \<Rightarrow>
               if \<not> x_canonical X virt_addr then (Stuck, v)
               else let l4e = entry_at v table_phys (x_p4_index X virt_addr)
               in if \<not> entry_present X l4e then (Ok (), v)
               else let l3 = x_addr X l4e
               in case checked_add l3 phys_off of None \<Rightarrow> (Err (KMemory OutOfMemory), v) | Some _ \<Rightarrow>
               let l3e = entry_at v l3 (x_p3_index X virt_addr)
               in if \<not> entry_present X l3e then (Ok (), v)
               else let l2 = x_addr X l3e
               in case checked_add l2 phys_off of None \<Rightarrow> (Err (KMemory OutOfMemory), v) | Some _ \<Rightarrow>
               let l2e = entry_at v l2 (x_p2_index X virt_addr)
               in if \<not> entry_present X l2e then (Ok (), v)
               else let l1 = x_addr X l2e
               in case checked_add l1 phys_off of None \<Rightarrow> (Err (KMemory OutOfMemory), v) | Some _ \<Rightarrow>
               (Ok (), set_entry l1 (x_p1_index X virt_addr) 0 v)))"

section \<open>Loading a segment\<close>

text \<open>
  One level of \<^emph>\<open>ensure_user_page_table_hierarchy\<close>: a missing table is made, the entry of an existing one is opened
  for the user. On the last level a huge page is replaced as well.
\<close>

definition ensure_level :: "x86 \<Rightarrow> bool \<Rightarrow> u64 \<Rightarrow> nat \<Rightarrow> vm \<Rightarrow> unit kres \<times> vm" where
  "ensure_level X replace_huge table i v =
    (let e = entry_at v table i; open_flags = x_present X OR x_writable X OR x_user X
     in if e = 0 \<or> (replace_huge \<and> has_flag (x_flags X e) (x_huge X)) then
          kbind (allocate_frame X) (\<lambda>new v. (Ok (), set_entry table i (x_entry X new open_flags) (zero_frame new v))) v
        else (Ok (), set_entry table i (x_entry X (x_addr X e) ((x_flags X e OR open_flags) AND NOT (x_no_execute X))) v))"

definition ensure_user_page_table_hierarchy :: "x86 \<Rightarrow> u64 \<Rightarrow> u64 \<Rightarrow> vm \<Rightarrow> unit kres \<times> vm" where
  "ensure_user_page_table_hierarchy X l4 vaddr v =
    kbind (ensure_level X False l4 (index_of 39 vaddr)) (\<lambda>_ v.
      let l3 = x_addr X (entry_at v l4 (index_of 39 vaddr))
      in kbind (ensure_level X False l3 (index_of 30 vaddr)) (\<lambda>_ v.
           let l2 = x_addr X (entry_at v l3 (index_of 30 vaddr))
           in ensure_level X True l2 (index_of 21 vaddr) v) v) v"

text \<open>What becomes of the entry of a page: the frame and the flags to set, or none when the segment's rights clash.\<close>

definition segment_entry :: "x86 \<Rightarrow> u64 \<Rightarrow> u64 \<Rightarrow> u64 \<Rightarrow> (u64 \<times> u64) option" where
  "segment_entry X e frame final_flags =
    (if e = 0 then Some (frame, final_flags)
     else let existing_flags = x_flags X e
          in if \<not> has_flag existing_flags (x_user X) then
               Some (frame, if has_flag existing_flags (x_no_execute X) then final_flags
                            else final_flags AND NOT (x_no_execute X))
             else let existing_exec = \<not> has_flag existing_flags (x_no_execute X);
                      existing_write = has_flag existing_flags (x_writable X);
                      new_exec = \<not> has_flag final_flags (x_no_execute X);
                      new_write = has_flag final_flags (x_writable X)
                  in if (existing_exec \<and> new_write) \<or> (existing_write \<and> new_exec) then None
                     else Some (x_addr X e, if existing_exec then final_flags AND NOT (x_no_execute X) else final_flags))"

definition segment_flags :: "x86 \<Rightarrow> bool \<Rightarrow> bool \<Rightarrow> u64" where
  "segment_flags X writable executable =
    x_present X OR x_user X OR (if writable then x_writable X else 0) OR (if executable then 0 else x_no_execute X)"

text \<open>The bytes of the file that fall into a page.\<close>

definition copy_segment_page :: "u64 \<Rightarrow> u64 \<Rightarrow> bytes \<Rightarrow> u64 \<Rightarrow> u64 \<Rightarrow> vm \<Rightarrow> vm" where
  "copy_segment_page vaddr file_end src page_addr frame v =
    (let copy_start = max page_addr vaddr; copy_end = min (page_addr + 4096) file_end
     in if copy_start < copy_end then
          v\<lparr>vm_mem := mem_write (vm_mem v) (frame + (copy_start - page_addr))
              (take (unat (copy_end - copy_start)) (drop (unat (copy_start - vaddr)) src))\<rparr>
        else v)"

definition map_segment_page :: "x86 \<Rightarrow> u64 \<Rightarrow> u64 \<Rightarrow> u64 \<Rightarrow> bytes \<Rightarrow> u64 \<Rightarrow> u64 \<Rightarrow> vm \<Rightarrow> unit kres \<times> vm" where
  "map_segment_page X l4 vaddr file_end src final_flags page_addr v =
    kbind (ensure_user_page_table_hierarchy X l4 page_addr) (\<lambda>_.
    kbind (allocate_frame X) (\<lambda>frame v.
      let v = zero_frame frame v; l3 = x_addr X (entry_at v l4 (index_of 39 page_addr))
      in if l3 = 0 then (Err (KMemory InvalidAddress), v)
      else let l2 = x_addr X (entry_at v l3 (index_of 30 page_addr))
      in if l2 = 0 then (Err (KMemory InvalidAddress), v)
      else let l1 = x_addr X (entry_at v l2 (index_of 21 page_addr))
      in if l1 = 0 then (Err (KMemory InvalidAddress), v)
      else let e = entry_at v l1 (index_of 12 page_addr)
      in case segment_entry X e frame final_flags of
           None \<Rightarrow> (Err (KMemory PermissionDenied), snd (deallocate_frame frame v))
         | Some (target, flags) \<Rightarrow>
             let v = set_entry l1 (index_of 12 page_addr) (x_entry X target flags) v;
                 v = (if e \<noteq> 0 \<and> has_flag (x_flags X e) (x_user X) then snd (deallocate_frame frame v) else v)
             in (Ok (), copy_segment_page vaddr file_end src page_addr target v))) v"

definition TEMP_KERN_VIRT :: u64 where "TEMP_KERN_VIRT = 0xFFFF800000000000"

definition map_and_copy_segment_to ::
  "x86 \<Rightarrow> u64 \<Rightarrow> u64 \<Rightarrow> u64 \<Rightarrow> u64 \<Rightarrow> bytes \<Rightarrow> bool \<Rightarrow> bool \<Rightarrow> vm \<Rightarrow> unit kres \<times> vm" where
  "map_and_copy_segment_to X table_phys vaddr filesz memsz src writable executable v =
    (if writable \<and> executable then (Err (KMemory PermissionDenied), v)
     else case vm_phys_offset v of
         None \<Rightarrow> (Err (KMemory NotMapped), v)
       | Some phys_off \<Rightarrow>
           if memsz = 0 then (if filesz = 0 then Ok () else Err InvalidParam, v)
           else if memsz < filesz \<or> unat filesz > length src then (Err InvalidParam, v)
           else case (checked_add vaddr filesz, checked_add vaddr memsz) of
               (None, _) \<Rightarrow> (Err (KMemory InvalidAddress), v)
             | (_, None) \<Rightarrow> (Err (KMemory InvalidAddress), v)
             | (Some file_end, Some mem_end) \<Rightarrow> (case vm_page_table v of
                   None \<Rightarrow> (Err (KMemory NotMapped), v)
                 | Some kernel_l4 \<Rightarrow> (case vm_frames v of
                       None \<Rightarrow> (Stuck, v)
                     | Some _ \<Rightarrow>
                         let l4 = x_phys_frame X table_phys
                         in case x_map_to X kernel_l4 TEMP_KERN_VIRT l4
                                (x_present X OR x_writable X OR x_no_execute X) v of
                            (PageAlreadyMapped, v) \<Rightarrow> (Err (KMemory InvalidAddress), v)
                          | (MapError, v) \<Rightarrow> (Err (KMemory InvalidAddress), v)
                          | (MapOk, v) \<Rightarrow>
                              kbind (ensure_user_page_table_hierarchy X l4 vaddr) (\<lambda>_.
                              kbind (ensure_user_page_table_hierarchy X l4 (mem_end - 1)) (\<lambda>_ v.
                                case page_align_up mem_end of
                                  None \<Rightarrow> (Err (KMemory InvalidAddress), v)
                                | Some end_addr \<Rightarrow>
                                    kbind (kfor (page_range (page_base vaddr) end_addr)
                                      (map_segment_page X l4 vaddr file_end src (segment_flags X writable executable)))
                                    (\<lambda>_ v. (Ok (), snd (x_unmap X kernel_l4 TEMP_KERN_VIRT v))) v)) v)))"

section \<open>Changing ranges\<close>

definition protect_flags :: "x86 \<Rightarrow> bool \<Rightarrow> bool \<Rightarrow> bool \<Rightarrow> u64 \<Rightarrow> u64" where
  "protect_flags X present writable executable existing_flags =
    (let kept = existing_flags AND NOT (x_present X OR x_user X OR x_writable X OR x_no_execute X)
     in if present then kept OR (x_present X OR x_user X) OR (if writable then x_writable X else 0)
            OR (if executable then 0 else x_no_execute X)
        else kept)"

definition protect_page :: "x86 \<Rightarrow> u64 \<Rightarrow> bool \<Rightarrow> bool \<Rightarrow> bool \<Rightarrow> u64 \<Rightarrow> vm \<Rightarrow> unit kres \<times> vm" where
  "protect_page X table_phys present writable executable page_addr v =
    (case user_page_flags_in_table X v table_phys page_addr of
       None \<Rightarrow> (Err (KMemory NotMapped), v)
     | Some existing_flags \<Rightarrow>
         if \<not> has_flag existing_flags (x_present X) \<or> \<not> has_flag existing_flags (x_user X) then (Err (KMemory NotMapped), v)
         else case x_update_flags X table_phys page_addr (protect_flags X present writable executable existing_flags) v of
             (True, v) \<Rightarrow> if checked_add page_addr 4096 = None then (Err (KMemory InvalidAddress), v) else (Ok (), v)
           | (False, v) \<Rightarrow> (Err (KMemory InvalidAddress), v))"

definition protect_user_range_in_table ::
  "x86 \<Rightarrow> u64 \<Rightarrow> u64 \<Rightarrow> u64 \<Rightarrow> bool \<Rightarrow> bool \<Rightarrow> bool \<Rightarrow> vm \<Rightarrow> unit kres \<times> vm" where
  "protect_user_range_in_table X table_phys addr len present writable executable v =
    (if present \<and> writable \<and> executable then (Err (KMemory PermissionDenied), v)
     else if len = 0 then (Ok (), v)
     else if addr = 0 \<or> addr > USER_SPACE_END then (Err (KMemory InvalidAddress), v)
     else case checked_add addr (len - 1) of
         None \<Rightarrow> (Err (KMemory InvalidAddress), v)
       | Some end_inclusive \<Rightarrow>
           if end_inclusive > USER_SPACE_END then (Err (KMemory InvalidAddress), v)
           else case vm_phys_offset v of
               None \<Rightarrow> (Err (KMemory NotMapped), v)
             | Some _ \<Rightarrow> (case map_option page_base (checked_add end_inclusive 0x1000) of
                   None \<Rightarrow> (Err (KMemory InvalidAddress), v)
                 | Some end_addr \<Rightarrow>
                     kfor (page_range (page_base addr) end_addr) (protect_page X table_phys present writable executable) v))"

text \<open>The two variants differ in what is done with the frame of a page that was mapped.\<close>

definition unmap_page :: "x86 \<Rightarrow> bool \<Rightarrow> u64 \<Rightarrow> u64 \<Rightarrow> vm \<Rightarrow> unit kres \<times> vm" where
  "unmap_page X free_frames table_phys page_addr v =
    (if \<not> page_is_user_mapped_in_table X v table_phys page_addr then (Ok (), v)
     else if \<not> x_canonical X page_addr then (Stuck, v)
     else case x_unmap X table_phys page_addr v of
         (Some frame, v) \<Rightarrow> (Ok (), if free_frames then snd (deallocate_frame frame v) else v)
       | (None, v) \<Rightarrow> (Ok (), v))"

definition unmap_range :: "x86 \<Rightarrow> bool \<Rightarrow> u64 \<Rightarrow> u64 \<Rightarrow> u64 \<Rightarrow> vm \<Rightarrow> unit kres \<times> vm" where
  "unmap_range X free_frames table_phys addr len v =
    (if len = 0 then (Ok (), v)
     else case vm_phys_offset v of
         None \<Rightarrow> (Err (KMemory NotMapped), v)
       | Some _ \<Rightarrow> (case checked_add addr len of
             None \<Rightarrow> (Err (KMemory InvalidAddress), v)
           | Some end_raw \<Rightarrow> (case page_align_up end_raw of
                 None \<Rightarrow> (Err (KMemory InvalidAddress), v)
               | Some end_addr \<Rightarrow> kfor (page_range (page_base addr) end_addr) (unmap_page X free_frames table_phys) v)))"

definition unmap_range_in_table :: "x86 \<Rightarrow> u64 \<Rightarrow> u64 \<Rightarrow> u64 \<Rightarrow> vm \<Rightarrow> unit kres \<times> vm" where
  "unmap_range_in_table X = unmap_range X True"

definition unmap_range_in_table_preserve_frames :: "x86 \<Rightarrow> u64 \<Rightarrow> u64 \<Rightarrow> u64 \<Rightarrow> vm \<Rightarrow> unit kres \<times> vm" where
  "unmap_range_in_table_preserve_frames X = unmap_range X False"

definition map_physical_page :: "x86 \<Rightarrow> u64 \<Rightarrow> u64 \<Rightarrow> u64 \<Rightarrow> u64 \<Rightarrow> vm \<Rightarrow> unit kres \<times> vm" where
  "map_physical_page X table_phys virt_start phys_start i v =
    (let flags = x_present X OR x_writable X OR x_user X OR x_no_execute X;
         page = virt_start + i * 4096; frame = x_phys_frame X (phys_start + i * 4096)
     in if \<not> x_canonical X page \<or> \<not> phys_addr_ok (phys_start + i * 4096) then (Stuck, v)
        else case vm_frames v of
          None \<Rightarrow> (Err (KMemory OutOfMemory), v)
        | Some _ \<Rightarrow> (case x_map_to X table_phys page frame flags v of
              (MapOk, v) \<Rightarrow> (Ok (), v)
            | (PageAlreadyMapped, v) \<Rightarrow>
                (let v = snd (x_unmap X table_phys page v)
                 in case vm_frames v of
                      None \<Rightarrow> (Err (KMemory OutOfMemory), v)
                    | Some _ \<Rightarrow> (case x_map_to X table_phys page frame flags v of
                          (MapOk, v) \<Rightarrow> (Ok (), v)
                        | (_, v) \<Rightarrow> (Err (KMemory InvalidAddress), v)))
            | (MapError, v) \<Rightarrow> (Err (KMemory InvalidAddress), v)))"

definition map_physical_range_to_user :: "x86 \<Rightarrow> u64 \<Rightarrow> u64 \<Rightarrow> u64 \<Rightarrow> u64 \<Rightarrow> vm \<Rightarrow> unit kres \<times> vm" where
  "map_physical_range_to_user X table_phys virt_addr phys_addr sz v =
    (if vm_phys_offset v = None then (Err (KMemory NotMapped), v)
     else if sz = 0 then (Ok (), v)
     else let total_pages = (case checked_add sz 0xfff of Some s \<Rightarrow> drop_bit 12 s | None \<Rightarrow> 0)
          in kfor (map of_nat [0..<unat total_pages])
               (map_physical_page X table_phys (page_base virt_addr) (page_base phys_addr)) v)"

definition switch_page_table :: "x86 \<Rightarrow> u64 \<Rightarrow> vm \<Rightarrow> vm" where
  "switch_page_table X table_phys v =
    (if table_phys = 0 \<or> table_phys AND 0xfff \<noteq> 0 then v else v\<lparr>vm_cr3 := x_phys_frame X table_phys\<rparr>)"

section \<open>Creating, copying and destroying address spaces\<close>

definition clone_kernel_l1_table_without_user_entries :: "x86 \<Rightarrow> u64 \<Rightarrow> vm \<Rightarrow> u64 kres \<times> vm" where
  "clone_kernel_l1_table_without_user_entries X src v =
    kbind (allocate_frame X) (\<lambda>new v.
      let copy_entry = (\<lambda>i v. let e = entry_at v src i
            in if \<not> entry_present X e \<or> has_flag (x_flags X e) (x_user X) then v else set_entry new i e v)
      in (Ok new, fold copy_entry [0..<512] (zero_frame new v))) v"

definition clone_kernel_l2_table_without_user_entries :: "x86 \<Rightarrow> u64 \<Rightarrow> vm \<Rightarrow> u64 kres \<times> vm" where
  "clone_kernel_l2_table_without_user_entries X src v =
    kbind (allocate_frame X) (\<lambda>new v.
      kbind (kfor [0..<512] (\<lambda>i v.
          let e = entry_at v src i
          in if \<not> entry_present X e then (Ok (), v)
             else if has_flag (x_flags X e) (x_huge X) then
               (Ok (), if \<not> has_flag (x_flags X e) (x_user X) then set_entry new i e v else v)
             else kbind (clone_kernel_l1_table_without_user_entries X (x_addr X e))
                    (\<lambda>new_l1 v. (Ok (), set_entry new i (x_entry X new_l1 (x_flags X e)) v)) v))
        (\<lambda>_. kreturn new) (zero_frame new v)) v"

text \<open>The copy of the kernel's entry for the lowest 512 GiB.\<close>

definition copy_kernel_l4_0 :: "x86 \<Rightarrow> u64 \<Rightarrow> u64 \<Rightarrow> vm \<Rightarrow> unit kres \<times> vm" where
  "copy_kernel_l4_0 X kernel_l4 new_l4 v =
    (let e = entry_at v kernel_l4 0
     in if e = 0 then (Ok (), v)
        else let kernel_l3 = x_addr X e
             in kbind (allocate_frame X) (\<lambda>new_l3 v.
                  let v = zero_frame new_l3 v; l3e = entry_at v kernel_l3 0
                  in kbind (\<lambda>v. if l3e = 0 then (Ok (), v)
                        else kbind (clone_kernel_l2_table_without_user_entries X (x_addr X l3e))
                               (\<lambda>new_l2 v. (Ok (), set_entry new_l3 0 (x_entry X new_l2 (x_flags X l3e)) v)) v)
                     (\<lambda>_ v. (Ok (), set_entry new_l4 0 (x_entry X new_l3 (x_flags X e)) v)) v) v)"

text \<open>The tables for the user code at 0x800000, made ahead.\<close>

definition prepare_user_code :: "x86 \<Rightarrow> u64 \<Rightarrow> vm \<Rightarrow> unit kres \<times> vm" where
  "prepare_user_code X new_l4 v =
    (let user_l3 = x_addr X (entry_at v new_l4 0)
     in if user_l3 = 0 then (Ok (), v)
        else kbind (allocate_frame X) (\<lambda>new_l2 v.
          let v = zero_frame new_l2 v; l3e = entry_at v user_l3 0; old_l2 = x_addr X l3e;
              copy_entry = (\<lambda>i v. let e = entry_at v old_l2 i
                in if e \<noteq> 0 \<and> \<not> has_flag (x_flags X e) (x_user X) then set_entry new_l2 i e v else v);
              v = (if l3e \<noteq> 0 then fold copy_entry [0..<512] v else v)
          in kbind (allocate_frame X) (\<lambda>new_l1 v.
               let v = zero_frame new_l1 v;
                   v = set_entry new_l2 4 (x_entry X new_l1 (x_present X OR x_writable X OR x_user X)) v
               in (Ok (), set_entry user_l3 0 (x_entry X new_l2 (x_present X OR x_writable X)) v)) v) v)"

definition create_user_page_table :: "x86 \<Rightarrow> vm \<Rightarrow> u64 kres \<times> vm" where
  "create_user_page_table X v =
    (if vm_phys_offset v = None then (Err (KMemory NotMapped), v)
     else let kernel_l4 = vm_kernel_l4 v
          in if kernel_l4 = 0 then (Err (KMemory NotMapped), v)
             else kbind (allocate_frame X) (\<lambda>new_l4 v.
                    kbind (copy_kernel_l4_0 X kernel_l4 new_l4) (\<lambda>_.
                    kbind (prepare_user_code X new_l4) (\<lambda>_. kreturn new_l4)) (zero_frame new_l4 v)) v)"

definition deallocate_4k_frame_by_phys :: "x86 \<Rightarrow> u64 \<Rightarrow> vm \<Rightarrow> vm" where
  "deallocate_4k_frame_by_phys X frame_phys v = snd (deallocate_frame (x_phys_frame X frame_phys) v)"

definition destroy_user_l1_table :: "x86 \<Rightarrow> u64 \<Rightarrow> vm \<Rightarrow> vm" where
  "destroy_user_l1_table X l1 v =
    deallocate_4k_frame_by_phys X l1 (fold (\<lambda>i v. let e = entry_at v l1 i
      in if \<not> entry_user X e then v
         else set_entry l1 i 0 (deallocate_4k_frame_by_phys X (x_addr X e) v)) [0..<512] v)"

definition destroy_table :: "x86 \<Rightarrow> (u64 \<Rightarrow> vm \<Rightarrow> vm) \<Rightarrow> nat \<Rightarrow> u64 \<Rightarrow> vm \<Rightarrow> vm" where
  "destroy_table X destroy_next n table v =
    deallocate_4k_frame_by_phys X table (fold (\<lambda>i v. let e = entry_at v table i
      in if \<not> entry_user X e then v
         else if has_flag (x_flags X e) (x_huge X) then set_entry table i 0 v
         else set_entry table i 0 (destroy_next (x_addr X e) v)) [0..<n] v)"

definition destroy_user_l2_table :: "x86 \<Rightarrow> u64 \<Rightarrow> vm \<Rightarrow> vm" where
  "destroy_user_l2_table X = destroy_table X (destroy_user_l1_table X) 512"

definition destroy_user_l3_table :: "x86 \<Rightarrow> u64 \<Rightarrow> vm \<Rightarrow> vm" where
  "destroy_user_l3_table X = destroy_table X (destroy_user_l2_table X) 512"

definition destroy_user_page_table :: "x86 \<Rightarrow> u64 \<Rightarrow> vm \<Rightarrow> unit kres \<times> vm" where
  "destroy_user_page_table X table_phys v =
    (if table_phys = 0 \<or> table_phys AND 0xfff \<noteq> 0 then (Err InvalidParam, v)
     else if vm_phys_offset v = None then (Err (KMemory NotMapped), v)
     else (Ok (), destroy_table X (destroy_user_l3_table X) 256 table_phys v))"

text \<open>
  Copying one page of an address space. The frame allocator stays locked while the mapping is made, so giving back the frame of
  a page that is already mapped waits for a lock that is never released.
\<close>

definition clone_page :: "x86 \<Rightarrow> u64 \<Rightarrow> u64 \<Rightarrow> u64 \<Rightarrow> vm \<Rightarrow> unit kres \<times> vm" where
  "clone_page X dst_table pte vaddr v =
    (let src_flags = x_flags X pte
     in if pte = 0 \<or> \<not> has_flag src_flags (x_present X) \<or> \<not> has_flag src_flags (x_user X) then (Ok (), v)
        else kbind (allocate_frame X) (\<lambda>new_frame v.
          let dst_flags = x_present X OR x_user X
                OR (if has_flag src_flags (x_writable X) then x_writable X else 0)
                OR (if has_flag src_flags (x_no_execute X) then x_no_execute X else 0)
          in if vm_frames v = None then (Err (KMemory OutOfMemory), v)
             else case x_map_to X dst_table vaddr new_frame dst_flags v of
                 (MapOk, v) \<Rightarrow> (Ok (), v\<lparr>vm_mem := mem_write (vm_mem v) new_frame (mem_read (vm_mem v) (x_addr X pte) 4096)\<rparr>)
               | (PageAlreadyMapped, v) \<Rightarrow> (case x_unmap X dst_table vaddr v of
                     (None, v) \<Rightarrow> (Err (KMemory InvalidAddress), v)
                   | (Some _, v) \<Rightarrow> (Stuck, v))
               | (MapError, v) \<Rightarrow> (Err (KMemory InvalidAddress), v)) v)"

definition clone_table_entries ::
  "x86 \<Rightarrow> nat \<Rightarrow> bool \<Rightarrow> (nat \<Rightarrow> u64 \<Rightarrow> vm \<Rightarrow> unit kres \<times> vm) \<Rightarrow> u64 \<Rightarrow> vm \<Rightarrow> unit kres \<times> vm" where
  "clone_table_entries X n skip_huge body table =
    kfor [0..<n] (\<lambda>i v. let e = entry_at v table i
      in if \<not> entry_present X e \<or> (skip_huge \<and> has_flag (x_flags X e) (x_huge X)) then (Ok (), v)
         else body i (x_addr X e) v)"

definition clone_user_page_table :: "x86 \<Rightarrow> u64 \<Rightarrow> vm \<Rightarrow> u64 kres \<times> vm" where
  "clone_user_page_table X src_table v =
    (if vm_phys_offset v = None then (Err (KMemory NotMapped), v)
     else kbind (create_user_page_table X) (\<lambda>dst_table v.
       case clone_table_entries X 256 False (\<lambda>l4i.
            clone_table_entries X 512 True (\<lambda>l3i.
            clone_table_entries X 512 True (\<lambda>l2i l1.
            kfor [0..<512] (\<lambda>l1i v. clone_page X dst_table (entry_at v l1 l1i)
              (push_bit 39 (of_nat l4i) OR push_bit 30 (of_nat l3i) OR push_bit 21 (of_nat l2i) OR push_bit 12 (of_nat l1i)) v))))
            src_table v of
         (Ok _, v) \<Rightarrow> (Ok dst_table, v)
       | (Err e, v) \<Rightarrow> (Err e, snd (destroy_user_page_table X dst_table v))
       | (Stuck, v) \<Rightarrow> (Stuck, v)) v)"

section \<open>Initialisation\<close>

definition paging_init :: "u64 \<Rightarrow> vm \<Rightarrow> vm" where
  "paging_init physical_memory_offset v =
    v\<lparr>vm_phys_offset := Some physical_memory_offset, vm_kernel_l4 := vm_cr3 v,
      vm_frames := map_option (fa_set_phys_offset physical_memory_offset) (vm_frames v)\<rparr>"

definition init_page_table :: "x86 \<Rightarrow> vm \<Rightarrow> unit kres \<times> vm" where
  "init_page_table X v =
    (if vm_phys_offset v = None then (Err (KMemory NotMapped), v)
     else let old_l4 = vm_cr3 v
          in kbind (allocate_frame X) (\<lambda>new_l4 v.
               (Ok (), v\<lparr>vm_mem := mem_write (vm_mem v) new_l4 (mem_read (vm_mem v) old_l4 4096),
                 vm_cr3 := new_l4, vm_kernel_l4 := new_l4, vm_page_table := Some new_l4\<rparr>)) v)"

definition map_page :: "x86 \<Rightarrow> u64 \<Rightarrow> u64 \<Rightarrow> u64 \<Rightarrow> vm \<Rightarrow> unit kres \<times> vm" where
  "map_page X page frame flags v =
    (case vm_page_table v of
       None \<Rightarrow> (Err (KMemory NotMapped), v)
     | Some kernel_l4 \<Rightarrow> (case vm_frames v of
           None \<Rightarrow> (Err (KMemory OutOfMemory), v)
         | Some _ \<Rightarrow>
             let v = (if x_translate_page X kernel_l4 page v then snd (x_unmap X kernel_l4 page v) else v)
             in case x_map_to X kernel_l4 page frame flags v of
                  (MapOk, v) \<Rightarrow> (Ok (), v)
                | (_, v) \<Rightarrow> (Err (KMemory InvalidAddress), v)))"

section \<open>User stacks\<close>

record user_stack =
  us_bottom :: u64
  us_top :: u64

definition PAGE_SIZE :: u64 where "PAGE_SIZE = 4096"
definition USER_STACK_GUARD_PAGES :: u64 where "USER_STACK_GUARD_PAGES = 1"
definition USER_STACK_TOP :: u64 where "USER_STACK_TOP = 0x80000000"

definition map_user_range_in_table :: "x86 \<Rightarrow> u64 \<Rightarrow> u64 \<Rightarrow> u64 \<Rightarrow> u64 \<Rightarrow> vm \<Rightarrow> unit kres \<times> vm" where
  "map_user_range_in_table X table_phys start sz flags v =
    (if sz = 0 then (Ok (), v)
     else case checked_add start (sz - 1) of
         None \<Rightarrow> (Err (KMemory InvalidAddress), v)
       | Some end_addr \<Rightarrow>
           if start = 0 \<or> start > USER_SPACE_END \<or> end_addr > USER_SPACE_END then (Err (KMemory InvalidAddress), v)
           else if \<not> has_flag flags (x_user X) \<or> \<not> has_flag flags (x_present X) then (Err (KMemory PermissionDenied), v)
           else map_and_copy_segment_to X table_phys start 0 sz [] (has_flag flags (x_writable X))
                  (\<not> has_flag flags (x_no_execute X)) v)"

definition alloc_user_stack_in_table :: "x86 \<Rightarrow> u64 \<Rightarrow> u64 \<Rightarrow> vm \<Rightarrow> user_stack kres \<times> vm" where
  "alloc_user_stack_in_table X table_phys pages v =
    (if pages = 0 then (Err (KMemory InvalidAddress), v)
     else let stack_size = pages * PAGE_SIZE; total = stack_size + USER_STACK_GUARD_PAGES * PAGE_SIZE
          in case checked_sub (vm_next_stack_top v) total of
               None \<Rightarrow> (Err (KMemory OutOfMemory), v)
             | Some new_top \<Rightarrow>
                 let stack_bottom = new_top + USER_STACK_GUARD_PAGES * PAGE_SIZE; stack_top = new_top + total;
                     flags = x_present X OR x_writable X OR x_user X OR x_no_execute X
                 in kbind (map_user_range_in_table X table_phys stack_bottom stack_size flags) (\<lambda>_ v.
                      (Ok \<lparr>us_bottom = stack_bottom, us_top = stack_top\<rparr>, v\<lparr>vm_next_stack_top := new_top\<rparr>)) v)"

section \<open>Entries\<close>

text \<open>
  More of what is documented of the crate: an entry holds a frame address and flags, the flags used are different bits outside
  the address, the empty entry has no flags, and \<^emph>\<open>PhysFrame::containing_address\<close> leaves an aligned address alone.
\<close>

definition flag_word :: "u64 \<Rightarrow> bool" where
  "flag_word f \<longleftrightarrow> f AND 0x000FFFFFFFFFF000 = 0"

definition x86_flags :: "x86 \<Rightarrow> u64 list" where
  "x86_flags X = [x_present X, x_writable X, x_user X, x_huge X, x_no_execute X]"

definition x86_entry_laws :: "x86 \<Rightarrow> bool" where
  "x86_entry_laws X \<longleftrightarrow>
    (\<forall>a f. a AND 0xfff = 0 \<and> unat a < 2 ^ 52 \<and> flag_word f \<longrightarrow> x_addr X (x_entry X a f) = a \<and> x_flags X (x_entry X a f) = f)
    \<and> (\<forall>e. flag_word (x_flags X e)) \<and> x_flags X 0 = 0
    \<and> (\<forall>f\<in>set (x86_flags X). f \<noteq> 0 \<and> flag_word f)
    \<and> (\<forall>i < 5. \<forall>j < 5. i \<noteq> j \<longrightarrow> x86_flags X ! i AND x86_flags X ! j = 0)
    \<and> (\<forall>a. a AND 0xfff = 0 \<longrightarrow> x_phys_frame X a = a)"

lemma bit_u64_lt: "bit (f :: u64) n \<Longrightarrow> n < 64"
  using bit_imp_le_length[of f n] by simp

lemma has_flag_bits: "has_flag h f \<longleftrightarrow> (\<forall>n. bit f n \<longrightarrow> bit h n)"
  by (auto simp: has_flag_def bit_eq_iff bit_and_iff dest: bit_u64_lt)

lemma disjoint_bits: "f AND g = (0 :: u64) \<longleftrightarrow> (\<forall>n. bit f n \<longrightarrow> \<not> bit g n)"
  by (auto simp: bit_eq_iff bit_and_iff dest: bit_u64_lt)

lemma nonzero_bits: "f \<noteq> (0 :: u64) \<longleftrightarrow> (\<exists>n. bit f n)"
  by (auto simp: bit_eq_iff dest: bit_u64_lt)

lemma bit_and_not: "bit (h AND NOT f :: u64) n \<longleftrightarrow> bit h n \<and> \<not> bit f n"
  by (auto simp: bit_and_iff bit_not_iff dest: bit_imp_le_length)

lemma flag_word_or: "flag_word (f OR g) \<longleftrightarrow> flag_word f \<and> flag_word g"
  unfolding flag_word_def disjoint_bits by (auto simp: bit_or_iff)

lemma flag_word_0 [simp]: "flag_word 0"
  by (simp add: flag_word_def)

lemma has_flag_or: "f AND g = 0 \<Longrightarrow> has_flag (h OR g) f \<longleftrightarrow> has_flag h f"
  unfolding disjoint_bits has_flag_bits by (auto simp: bit_or_iff)

lemma has_flag_or_self [simp]: "has_flag (h OR f) f" "has_flag (f OR h) f" "has_flag f f"
  by (simp_all add: has_flag_bits bit_or_iff)

lemma has_flag_zero [simp]: "f \<noteq> 0 \<Longrightarrow> \<not> has_flag 0 f"
  by (simp add: has_flag_def)

lemma has_flag_mono: "has_flag f g \<Longrightarrow> has_flag (f OR h) g"
  by (auto simp: has_flag_bits bit_or_iff)

lemma has_flag_remove: "f \<noteq> 0 \<Longrightarrow> \<not> has_flag (h AND NOT f) f"
  unfolding nonzero_bits has_flag_bits by (auto simp: bit_and_not)

lemma has_flag_remove_other: "f AND g = 0 \<Longrightarrow> has_flag (h AND NOT g) f \<longleftrightarrow> has_flag h f"
  unfolding disjoint_bits has_flag_bits by (auto simp: bit_and_not)

text \<open>The flags are independent.\<close>

lemma flag_facts:
  assumes "x86_entry_laws X"
  shows "x_present X \<noteq> 0" "x_writable X \<noteq> 0" "x_user X \<noteq> 0" "x_huge X \<noteq> 0" "x_no_execute X \<noteq> 0"
    "flag_word (x_present X)" "flag_word (x_writable X)" "flag_word (x_user X)" "flag_word (x_huge X)" "flag_word (x_no_execute X)"
    "x_present X AND x_writable X = 0" "x_present X AND x_user X = 0" "x_present X AND x_huge X = 0" "x_present X AND x_no_execute X = 0"
    "x_writable X AND x_present X = 0" "x_writable X AND x_user X = 0" "x_writable X AND x_huge X = 0" "x_writable X AND x_no_execute X = 0"
    "x_user X AND x_present X = 0" "x_user X AND x_writable X = 0" "x_user X AND x_huge X = 0" "x_user X AND x_no_execute X = 0"
    "x_huge X AND x_present X = 0" "x_huge X AND x_writable X = 0" "x_huge X AND x_user X = 0" "x_huge X AND x_no_execute X = 0"
    "x_no_execute X AND x_present X = 0" "x_no_execute X AND x_writable X = 0" "x_no_execute X AND x_user X = 0" "x_no_execute X AND x_huge X = 0"
proof -
  have d: "x86_flags X ! i AND x86_flags X ! j = 0" if "i < 5" "j < 5" "i \<noteq> j" for i j
    using assms that by (simp add: x86_entry_laws_def)
  show "x_present X \<noteq> 0" "x_writable X \<noteq> 0" "x_user X \<noteq> 0" "x_huge X \<noteq> 0" "x_no_execute X \<noteq> 0"
    "flag_word (x_present X)" "flag_word (x_writable X)" "flag_word (x_user X)" "flag_word (x_huge X)" "flag_word (x_no_execute X)"
    using assms by (simp_all add: x86_entry_laws_def x86_flags_def)
  show "x_present X AND x_writable X = 0" "x_present X AND x_user X = 0" "x_present X AND x_huge X = 0" "x_present X AND x_no_execute X = 0"
    "x_writable X AND x_present X = 0" "x_writable X AND x_user X = 0" "x_writable X AND x_huge X = 0" "x_writable X AND x_no_execute X = 0"
    "x_user X AND x_present X = 0" "x_user X AND x_writable X = 0" "x_user X AND x_huge X = 0" "x_user X AND x_no_execute X = 0"
    "x_huge X AND x_present X = 0" "x_huge X AND x_writable X = 0" "x_huge X AND x_user X = 0" "x_huge X AND x_no_execute X = 0"
    "x_no_execute X AND x_present X = 0" "x_no_execute X AND x_writable X = 0" "x_no_execute X AND x_user X = 0" "x_no_execute X AND x_huge X = 0"
    using d[of 0 1] d[of 0 2] d[of 0 3] d[of 0 4] d[of 1 0] d[of 1 2] d[of 1 3] d[of 1 4] d[of 2 0] d[of 2 1] d[of 2 3] d[of 2 4]
      d[of 3 0] d[of 3 1] d[of 3 2] d[of 3 4] d[of 4 0] d[of 4 1] d[of 4 2] d[of 4 3]
    by (simp_all add: x86_flags_def numeral_eq_Suc)
qed

lemma segment_flags_has:
  assumes "x86_entry_laws X"
  shows "has_flag (segment_flags X w x) (x_writable X) = w" "has_flag (segment_flags X w x) (x_no_execute X) = (\<not> x)"
proof -
  note f = flag_facts[OF assms]
  show "has_flag (segment_flags X w x) (x_writable X) = w" "has_flag (segment_flags X w x) (x_no_execute X) = (\<not> x)"
    unfolding segment_flags_def using f
    by (simp_all add: has_flag_or or.assoc[symmetric] del: or.assoc) (auto simp: has_flag_or has_flag_def)
qed

lemma entry_fields:
  assumes "x86_entry_laws X" "a AND 0xfff = 0" "unat a < 2 ^ 52" "flag_word f"
  shows "x_addr X (x_entry X a f) = a" "x_flags X (x_entry X a f) = f" "has_flag f (x_present X) \<Longrightarrow> x_entry X a f \<noteq> 0"
proof -
  show e: "x_addr X (x_entry X a f) = a" "x_flags X (x_entry X a f) = f"
    using assms by (simp_all add: x86_entry_laws_def)
  show "has_flag f (x_present X) \<Longrightarrow> x_entry X a f \<noteq> 0"
    using e(2) assms(1) flag_facts(1)[OF assms(1)] by (auto simp: x86_entry_laws_def)
qed

section \<open>Frames of a table\<close>

text \<open>
  \<^emph>\<open>A\<close> is the set of frames handed out by the allocator. Physical memory is below 2 to the 52.
\<close>

definition vm_inv :: "u64 set \<Rightarrow> vm \<Rightarrow> bool" where
  "vm_inv A v \<longleftrightarrow> (\<exists>fa. vm_frames v = Some fa \<and> frame_inv A fa (vm_mem v)
    \<and> (\<forall>p. is_usable_frame_addr (fa_memory_map fa) p \<longrightarrow> unat p < 2 ^ 52))"

lemma vm_inv_frame: "vm_inv A v \<Longrightarrow> p \<in> A \<Longrightarrow> frame_aligned p \<and> unat p < 2 ^ 52"
  by (auto simp: vm_inv_def frame_inv_def)

lemma entry_cell_frame:
  assumes "frame_aligned t" "i < 512" "j < 8"
  shows "frame_number (entry_cell t i + of_nat j) = frame_number t"
proof -
  have "entry_cell t i + of_nat j = t + of_nat (8 * i + j)" by (simp add: entry_cell_def)
  then show ?thesis using frame_number_offset[OF assms(1), of "8 * i + j"] assms(2,3) by (simp add: add.assoc)
qed

lemma entry_at_cong:
  assumes "frame_aligned t" "i < 512" "\<And>x. frame_number x = frame_number t \<Longrightarrow> vm_mem v' x = vm_mem v x"
  shows "entry_at v' t i = entry_at v t i"
proof -
  have "mem_read (vm_mem v') (entry_cell t i) 8 = mem_read (vm_mem v) (entry_cell t i) 8"
    by (rule mem_read_cong) (use assms entry_cell_frame[OF assms(1,2)] in simp)
  then show ?thesis by (simp add: entry_at_def mem_read_u64_def)
qed

lemma set_entry_frame:
  assumes "frame_aligned t" "i < 512" "vm_mem (set_entry t i e v) x \<noteq> vm_mem v x"
  shows "frame_number x = frame_number t"
  using mem_write_range[of "vm_mem v" "entry_cell t i" "to_le_bytes e" x] assms entry_cell_frame[OF assms(1,2)]
  by (auto simp: set_entry_def mem_write_u64_def)

lemma entry_at_set_entry [simp]: "entry_at (set_entry t i e v) t i = e"
  by (simp add: entry_at_def set_entry_def)

lemma vm_inv_write:
  assumes "vm_inv A v" "vm_frames v' = vm_frames v" "\<And>x. vm_mem v' x \<noteq> vm_mem v x \<Longrightarrow> \<exists>p\<in>A. frame_number x = frame_number p"
  shows "vm_inv A v'"
  using assms frame_inv_write[of A _ "vm_mem v" "vm_mem v'"] by (auto simp: vm_inv_def)

lemma zero_frame_entries:
  assumes "i < 512"
  shows "entry_at (zero_frame p v) p i = 0"
proof -
  have "mem_read (vm_mem (zero_frame p v)) (entry_cell p i) 8 = replicate 8 0"
  proof (rule nth_equalityI)
    fix j assume j: "j < length (mem_read (vm_mem (zero_frame p v)) (entry_cell p i) 8)"
    have "entry_cell p i + of_nat j = p + of_nat (8 * i + j)" by (simp add: entry_cell_def)
    then show "mem_read (vm_mem (zero_frame p v)) (entry_cell p i) 8 ! j = replicate 8 0 ! j"
      using j assms mem_write_at[of "8 * i + j" "replicate 4096 0" "vm_mem v" p]
      by (simp add: mem_read_def zero_frame_def add.assoc)
  qed simp
  then show ?thesis by (simp add: entry_at_def mem_read_u64_def numeral_eq_Suc)
qed

lemma zero_frame_frame:
  assumes "frame_aligned p" "vm_mem (zero_frame p v) x \<noteq> vm_mem v x"
  shows "frame_number x = frame_number p"
  using mem_write_range[of "vm_mem v" p "replicate 4096 0" x] assms frame_number_offset[OF assms(1)]
  by (auto simp: zero_frame_def)

lemma allocate_frame_fresh:
  assumes inv: "vm_inv A v" and X: "x86_entry_laws X" and a: "allocate_frame X v = (Ok p, v')"
  shows "p \<notin> A" "vm_inv (insert p A) v'" "frame_aligned p" "unat p < 2 ^ 52" "vm_phys_offset v' = vm_phys_offset v"
    "\<And>x. frame_number x \<noteq> frame_number p \<Longrightarrow> vm_mem v' x = vm_mem v x"
proof -
  obtain fa where fa: "vm_frames v = Some fa" "frame_inv A fa (vm_mem v)"
    "\<forall>p. is_usable_frame_addr (fa_memory_map fa) p \<longrightarrow> unat p < 2 ^ 52"
    using inv by (auto simp: vm_inv_def)
  obtain r fa' m' where r: "fa_allocate_frame (x_phys_frame X) fa (vm_mem v) = (r, fa', m')" by (cases "fa_allocate_frame (x_phys_frame X) fa (vm_mem v)")
  have e: "r = Some p" "v' = v\<lparr>vm_frames := Some fa', vm_mem := m'\<rparr>"
    using a fa(1) r by (simp_all add: allocate_frame_def)
  have pf: "\<forall>a. a AND 0xfff = 0 \<longrightarrow> x_phys_frame X a = a" using X by (simp add: x86_entry_laws_def)
  note s = frame_inv_allocate[OF fa(2) pf r[unfolded e(1)]]
  show "p \<notin> A" "frame_aligned p" by (rule s)+
  show "unat p < 2 ^ 52" using s(3) fa(3) by blast
  show "vm_inv (insert p A) v'" using s(5,7) fa(3) e(2) by (auto simp: vm_inv_def)
  show "vm_phys_offset v' = vm_phys_offset v" using e(2) by simp
  show "\<And>x. frame_number x \<noteq> frame_number p \<Longrightarrow> vm_mem v' x = vm_mem v x" using s(6) e(2) by simp
qed

lemma table_flags_facts:
  assumes "x86_entry_laws X"
  shows "flag_word (table_flags X u)" "has_flag (table_flags X u) (x_present X)" "u \<Longrightarrow> has_flag (table_flags X u) (x_user X)"
    "\<not> has_flag (table_flags X u) (x_huge X)"
  using flag_facts[OF assms] by (simp_all add: table_flags_def flag_word_or has_flag_mono or.assoc[symmetric] has_flag_or del: or.assoc) 
    (auto simp: has_flag_or has_flag_def)

section \<open>Mapping a page\<close>

text \<open>
  The tables on the way to a page, as far as they exist, are different frames handed out by the allocator; \<^emph>\<open>S\<close> are the ones
  above. A table made by the way is a new frame, so the condition is about the tables that were there before.
\<close>

fun tables_ok :: "x86 \<Rightarrow> u64 set \<Rightarrow> u64 set \<Rightarrow> vm \<Rightarrow> u64 \<Rightarrow> nat list \<Rightarrow> bool" where
  "tables_ok X A S v t [] \<longleftrightarrow> t \<in> A \<and> t \<notin> S"
| "tables_ok X A S v t (i # is) \<longleftrightarrow> t \<in> A \<and> t \<notin> S
    \<and> (entry_present X (entry_at v t i) \<longrightarrow> tables_ok X A (insert t S) v (x_addr X (entry_at v t i)) is)"

lemma tables_ok_mono:
  assumes "tables_ok X A S v t is" "A \<subseteq> A'" "vm_inv A v" "\<forall>i\<in>set is. i < 512"
    "\<And>x p. p \<in> A - S \<Longrightarrow> frame_number x = frame_number p \<Longrightarrow> vm_mem v' x = vm_mem v x"
  shows "tables_ok X A' S v' t is"
  using assms
proof (induction "is" arbitrary: t S)
  case (Cons i "is")
  have t: "t \<in> A" "t \<notin> S" using Cons.prems(1) by auto
  then have "frame_aligned t" using vm_inv_frame[OF Cons.prems(3)] by blast
  then have e: "entry_at v' t i = entry_at v t i"
    using Cons.prems(4,5) t by (intro entry_at_cong) auto
  have "entry_present X (entry_at v t i) \<longrightarrow> tables_ok X A' (insert t S) v' (x_addr X (entry_at v t i)) is"
    using Cons.prems by (intro impI Cons.IH) auto
  then show ?case using t Cons.prems(2) by (auto simp: e)
qed auto

lemma next_table_step:
  assumes X: "x86_entry_laws X" "x86_laws X" and inv: "vm_inv A v" and ok: "tables_ok X A S v t (i # is)" "S \<subseteq> A"
    and lt: "i < 512" "\<forall>i\<in>set is. i < 512" and n: "next_table X u po t i v = (Ok n, v')"
  shows "\<exists>A'. A \<subseteq> A' \<and> vm_inv A' v' \<and> tables_ok X A' (insert t S) v' n is"
    "entry_present X (entry_at v' t i)" "x_addr X (entry_at v' t i) = n" "u \<Longrightarrow> has_flag (x_flags X (entry_at v' t i)) (x_user X)"
    "\<not> huge_entry X (entry_at v t i) \<Longrightarrow> \<not> has_flag (x_flags X (entry_at v' t i)) (x_huge X)"
    "\<And>x p. p \<in> S \<Longrightarrow> frame_number x = frame_number p \<Longrightarrow> vm_mem v' x = vm_mem v x"
    "vm_phys_offset v' = vm_phys_offset v"
proof -
  have t: "t \<in> A" "t \<notin> S" using ok by auto
  have ta: "frame_aligned t" using vm_inv_frame[OF inv t(1)] by blast
  have other: "frame_number p \<noteq> frame_number q" if "p \<in> A" "q \<in> A" "p \<noteq> q" for p q
    using frame_number_inj vm_inv_frame[OF inv] that by blast
  let ?e = "entry_at v t i"
  have "(\<exists>A'. A \<subseteq> A' \<and> vm_inv A' v' \<and> tables_ok X A' (insert t S) v' n is)
    \<and> entry_present X (entry_at v' t i) \<and> x_addr X (entry_at v' t i) = n
    \<and> (u \<longrightarrow> has_flag (x_flags X (entry_at v' t i)) (x_user X))
    \<and> (\<not> huge_entry X ?e \<longrightarrow> \<not> has_flag (x_flags X (entry_at v' t i)) (x_huge X))
    \<and> (\<forall>x p. p \<in> S \<longrightarrow> frame_number x = frame_number p \<longrightarrow> vm_mem v' x = vm_mem v x)
    \<and> vm_phys_offset v' = vm_phys_offset v"
  proof (cases "entry_present X ?e")
    case True
    have n': "n = x_addr X ?e" "v' = (if u \<and> \<not> has_flag (x_flags X ?e) (x_user X)
        then set_entry t i (x_entry X (x_addr X ?e) (x_flags X ?e OR x_user X)) v else v)"
      using n True by (simp_all add: next_table_def Let_def)
    have fw: "flag_word (x_flags X ?e OR x_user X)"
      using X(1) flag_facts(8)[OF X(1)] by (simp add: flag_word_or x86_entry_laws_def)
    have ad: "x_addr X ?e AND 0xfff = 0" "unat (x_addr X ?e) < 2 ^ 52" using X(2) by (simp_all add: x86_laws_def)
    have p: "has_flag (x_flags X ?e) (x_present X)" using True by (simp add: entry_present_def)
    note ef = entry_fields[OF X(1) ad fw]
    have diff: "frame_number x = frame_number t" if "vm_mem v' x \<noteq> vm_mem v x" for x
      using that set_entry_frame[OF ta lt(1)] by (auto simp: n'(2) split: if_splits)
    have 1: "tables_ok X A (insert t S) v (x_addr X ?e) is" using ok True by simp
    have "tables_ok X A (insert t S) v' n is"
      unfolding n'(1)
    proof (rule tables_ok_mono[OF 1 _ inv lt(2)])
      fix x p assume p: "p \<in> A - insert t S" "frame_number x = frame_number p"
      then have "frame_number x \<noteq> frame_number t" using other[of p t] t by auto
      then show "vm_mem v' x = vm_mem v x" using diff by blast
    qed simp
    moreover have "vm_inv A v'"
      by (rule vm_inv_write[OF inv]) (use diff t in \<open>auto simp: n'(2) set_entry_def\<close>)
    moreover have "vm_mem v' x = vm_mem v x" if "p \<in> S" "frame_number x = frame_number p" for x p
      using diff[of x] other[of p t] that t ok(2) by auto
    moreover have "entry_present X (entry_at v' t i) \<and> x_addr X (entry_at v' t i) = n
        \<and> (u \<longrightarrow> has_flag (x_flags X (entry_at v' t i)) (x_user X))
        \<and> (\<not> huge_entry X ?e \<longrightarrow> \<not> has_flag (x_flags X (entry_at v' t i)) (x_huge X))"
      using True ef p flag_facts(25)[OF X(1)]
      by (auto simp: n' entry_present_def has_flag_mono huge_entry_def has_flag_or)
    moreover have "vm_phys_offset v' = vm_phys_offset v" by (simp add: n'(2) set_entry_def)
    ultimately show ?thesis by blast
  next
    case False
    obtain v1 where a: "allocate_frame X v = (Ok n, v1)"
      and v': "v' = set_entry t i (x_entry X n (table_flags X u)) (zero_frame n v1)"
      using n False by (auto simp: next_table_def Let_def kbind_Ok split: option.splits)
    note fr = allocate_frame_fresh[OF inv X(1) a]
    have nt: "n \<noteq> t" "frame_number n \<noteq> frame_number t"
      using fr(1,3) t(1) frame_number_inj[of n t] ta by auto
    have al: "n AND 0xfff = 0" using fr(3) by (simp add: frame_aligned_and)
    note ef = entry_fields[OF X(1) al fr(4) table_flags_facts(1)[OF X(1), of u]]
    have diff: "frame_number x = frame_number t \<or> frame_number x = frame_number n" if "vm_mem v' x \<noteq> vm_mem v x" for x
      using that set_entry_frame[OF ta lt(1), of "x_entry X n (table_flags X u)" "zero_frame n v1" x]
        zero_frame_frame[OF fr(3), of v1 x] fr(6)[of x] unfolding v' by fastforce
    have z: "entry_at v' n j = 0" if "j < 512" for j
    proof -
      have "entry_at v' n j = entry_at (zero_frame n v1) n j"
        using set_entry_frame[OF ta lt(1), of _ "zero_frame n v1"] nt
        unfolding v' by (intro entry_at_cong[OF fr(3) that]) force
      then show ?thesis using zero_frame_entries[OF that] by simp
    qed
    have "n \<notin> insert t S" using fr(1) nt ok(2) by auto
    then have "tables_ok X (insert n A) (insert t S) v' n is"
      using z lt(2) by (cases "is") (auto simp: entry_present_def)
    moreover have "vm_inv (insert n A) v'"
    proof (rule vm_inv_write[OF fr(2)])
      show "vm_frames v' = vm_frames v1" by (simp add: v' set_entry_def zero_frame_def)
      show "\<exists>p\<in>insert n A. frame_number x = frame_number p" if "vm_mem v' x \<noteq> vm_mem v1 x" for x
        using that set_entry_frame[OF ta lt(1), of "x_entry X n (table_flags X u)" "zero_frame n v1" x]
          zero_frame_frame[OF fr(3), of v1 x] t unfolding v' by fastforce
    qed
    moreover have "vm_mem v' x = vm_mem v x" if "p \<in> S" "frame_number x = frame_number p" for x p
    proof -
      have "p \<in> A" "p \<noteq> t" "p \<noteq> n" using that(1) ok(2) t fr(1) by auto
      then have "frame_number p \<noteq> frame_number t" "frame_number p \<noteq> frame_number n"
        using other[of p t] t frame_number_inj[of p n] vm_inv_frame[OF inv] fr(3) by auto
      then show ?thesis using diff[of x] that(2) by auto
    qed
    moreover have "entry_present X (entry_at v' t i) \<and> x_addr X (entry_at v' t i) = n
        \<and> (u \<longrightarrow> has_flag (x_flags X (entry_at v' t i)) (x_user X))
        \<and> (\<not> huge_entry X ?e \<longrightarrow> \<not> has_flag (x_flags X (entry_at v' t i)) (x_huge X))"
      using ef table_flags_facts[OF X(1)] by (auto simp: v' entry_present_def)
    moreover have "vm_phys_offset v' = vm_phys_offset v" using fr(5) by (simp add: v' set_entry_def zero_frame_def)
    ultimately show ?thesis by blast
  qed
  then show "\<exists>A'. A \<subseteq> A' \<and> vm_inv A' v' \<and> tables_ok X A' (insert t S) v' n is"
    "entry_present X (entry_at v' t i)" "x_addr X (entry_at v' t i) = n" "u \<Longrightarrow> has_flag (x_flags X (entry_at v' t i)) (x_user X)"
    "\<not> huge_entry X (entry_at v t i) \<Longrightarrow> \<not> has_flag (x_flags X (entry_at v' t i)) (x_huge X)"
    "\<And>x p. p \<in> S \<Longrightarrow> frame_number x = frame_number p \<Longrightarrow> vm_mem v' x = vm_mem v x"
    "vm_phys_offset v' = vm_phys_offset v" by blast+
qed

lemma tables_ok_here: "tables_ok X A S v t is \<Longrightarrow> t \<in> A \<and> t \<notin> S"
  by (cases "is") auto

lemma leaf_flags_facts:
  assumes "x86_entry_laws X"
  shows "flag_word (leaf_flags X w u)" "has_flag (leaf_flags X w u) (x_present X)" "has_flag (leaf_flags X w u) (x_user X) = u"
    "has_flag (leaf_flags X w u) (x_writable X) = w"
  using flag_facts[OF assms]
  by (simp_all add: leaf_flags_def flag_word_or has_flag_mono or.assoc[symmetric] has_flag_or del: or.assoc)
    (auto simp: has_flag_or has_flag_def)

lemma map_page_walk:
  assumes X: "x86_entry_laws X" "x86_laws X" and inv: "vm_inv A v"
    and ok: "tables_ok X A {} v t [index_of 39 a, index_of 30 a, index_of 21 a]"
    and phys: "unat phys < 2 ^ 52" and m: "map_page_in_table X t a phys w u v = (Ok (), v')"
  shows "\<exists>l3 l2 l1 po. vm_phys_offset v' = Some po \<and> t AND 0xfff = 0 \<and> checked_add t po \<noteq> None
    \<and> (let e = entry_at v' t (index_of 39 a) in entry_present X e \<and> x_addr X e = l3 \<and> (u \<longrightarrow> has_flag (x_flags X e) (x_user X)))
    \<and> checked_add l3 po \<noteq> None
    \<and> (let e = entry_at v' l3 (index_of 30 a) in entry_present X e \<and> x_addr X e = l2
         \<and> (u \<longrightarrow> has_flag (x_flags X e) (x_user X)) \<and> \<not> has_flag (x_flags X e) (x_huge X))
    \<and> checked_add l2 po \<noteq> None
    \<and> (let e = entry_at v' l2 (index_of 21 a) in entry_present X e \<and> x_addr X e = l1
         \<and> (u \<longrightarrow> has_flag (x_flags X e) (x_user X)) \<and> \<not> has_flag (x_flags X e) (x_huge X))
    \<and> checked_add l1 po \<noteq> None \<and> entry_at v' l1 (index_of 12 a) = x_entry X phys (leaf_flags X w u)"
proof -
  have i: "x_p4_index X a = index_of 39 a" "x_p3_index X a = index_of 30 a" "x_p2_index X a = index_of 21 a"
    "x_p1_index X a = index_of 12 a" using X(2) by (simp_all add: x86_laws_def)
  have al: "t AND 0xfff = 0" using m by (auto simp: map_page_in_table_def split: if_splits)
  obtain po l3 l2 l1 v1 v2 v3 where po: "vm_phys_offset v = Some po" "checked_add t po \<noteq> None"
    and n1: "next_table X u po t (index_of 39 a) v = (Ok l3, v1)" "checked_add l3 po \<noteq> None"
      "\<not> huge_entry X (entry_at v1 l3 (index_of 30 a))"
    and n2: "next_table X u po l3 (index_of 30 a) v1 = (Ok l2, v2)" "checked_add l2 po \<noteq> None"
      "\<not> huge_entry X (entry_at v2 l2 (index_of 21 a))"
    and n3: "next_table X u po l2 (index_of 21 a) v2 = (Ok l1, v3)" "checked_add l1 po \<noteq> None"
    and v': "v' = set_entry l1 (index_of 12 a) (x_entry X phys (leaf_flags X w u)) v3"
    using m unfolding map_page_in_table_def i
    by (auto simp: kbind_Ok split: if_splits option.splits)
  note s1 = next_table_step[OF X inv ok _ index_of_lt _ n1(1)]
  obtain A1 where A1: "A \<subseteq> A1" "vm_inv A1 v1" "tables_ok X A1 {t} v1 l3 [index_of 30 a, index_of 21 a]"
    using s1(1) by (auto simp: index_of_lt)
  have S1: "{t} \<subseteq> A1" using A1(1) tables_ok_here[OF ok] by blast
  note s2 = next_table_step[OF X A1(2,3) S1 index_of_lt _ n2(1)]
  obtain A2 where A2: "A1 \<subseteq> A2" "vm_inv A2 v2" "tables_ok X A2 {l3, t} v2 l2 [index_of 21 a]"
    using s2(1) by (auto simp: index_of_lt)
  have S2: "{l3, t} \<subseteq> A2" using A2(1) S1 tables_ok_here[OF A1(3)] by blast
  note s3 = next_table_step[OF X A2(2,3) S2 index_of_lt _ n3(1)]
  obtain A3 where A3: "A2 \<subseteq> A3" "vm_inv A3 v3" "tables_ok X A3 {l2, l3, t} v3 l1 []"
    using s3(1) by (auto simp: index_of_lt)
  have S3: "{l2, l3, t} \<subseteq> A3" using A3(1) S2 tables_ok_here[OF A2(3)] by blast
  have l1: "l1 \<in> A3" "l1 \<notin> {l2, l3, t}" using A3(3) by auto
  have fa: "frame_aligned p" if "p \<in> A3" for p using vm_inv_frame[OF A3(2) that] by blast
  have last: "vm_mem v' x = vm_mem v3 x" if "p \<in> {l2, l3, t}" "frame_number x = frame_number p" for x p
    using set_entry_frame[OF fa[OF l1(1)] index_of_lt, of 12 a _ v3 x] frame_number_inj[OF fa[OF l1(1)] fa[of p]] that l1(2) S3
    unfolding v' by fastforce
  have mem2: "vm_mem v' x = vm_mem v2 x" if "p \<in> {l3, t}" "frame_number x = frame_number p" for x p
    using last[of p x] s3(6)[of p x] that by (simp add: index_of_lt)
  have mem1: "vm_mem v' x = vm_mem v1 x" if "frame_number x = frame_number t" for x
    using mem2[of t x] s2(6)[of t x] that by (simp add: index_of_lt)
  have e: "entry_at v' t (index_of 39 a) = entry_at v1 t (index_of 39 a)"
    "entry_at v' l3 (index_of 30 a) = entry_at v2 l3 (index_of 30 a)"
    "entry_at v' l2 (index_of 21 a) = entry_at v3 l2 (index_of 21 a)"
    using S3 by (intro entry_at_cong fa index_of_lt mem1 mem2[of l3] last[of l2]; simp)+
  have "vm_phys_offset v' = Some po" using po(1) s1(7) s2(7) s3(7) by (simp add: v' set_entry_def index_of_lt)
  moreover have "entry_at v' l1 (index_of 12 a) = x_entry X phys (leaf_flags X w u)" by (simp add: v')
  ultimately show ?thesis
    using al po n1 n2 n3 s1(2,3,4) s2(2,3,4,5) s3(2,3,4,5)
    by - (rule exI[of _ l3], rule exI[of _ l2], rule exI[of _ l1], rule exI[of _ po], simp add: Let_def e index_of_lt)
qed

lemma address_masks:
  obtains M F L :: u64 where "M = 0x000FFFFFFFFFF000" "F = 0xFFF0000000000FFF" "L = 0xfff"
    "\<And>n. bit M n \<longleftrightarrow> 12 \<le> n \<and> n < 52" "\<And>n. bit F n \<longleftrightarrow> n < 64 \<and> \<not> (12 \<le> n \<and> n < 52)" "\<And>n. bit L n \<longleftrightarrow> n < 12"
proof -
  have m: "(0x000FFFFFFFFFF000 :: u64) = push_bit 12 (mask 40)" by (simp add: mask_eq_exp_minus_1 push_bit_eq_mult)
  have b: "bit (0x000FFFFFFFFFF000 :: u64) n \<longleftrightarrow> 12 \<le> n \<and> n < 52" for n
    unfolding m bit_push_bit_iff bit_mask_iff by auto
  have f: "(0xFFF0000000000FFF :: u64) = NOT 0x000FFFFFFFFFF000" by simp
  have b': "bit (0xFFF0000000000FFF :: u64) n \<longleftrightarrow> n < 64 \<and> \<not> (12 \<le> n \<and> n < 52)" for n
    unfolding f bit_not_iff b by simp
  have l: "(0xfff :: u64) = mask 12" by (simp add: mask_eq_exp_minus_1)
  have bl: "bit (0xfff :: u64) n \<longleftrightarrow> n < 12" for n unfolding l bit_mask_iff by auto
  show thesis by (rule that[OF refl refl refl b b' bl])
qed

lemma flat_x86_entry_laws: "x86_entry_laws flat_x86"
proof -
  obtain M F L :: u64 where M: "M = 0x000FFFFFFFFFF000" "F = 0xFFF0000000000FFF" "L = 0xfff"
    and b: "\<And>n. bit M n \<longleftrightarrow> 12 \<le> n \<and> n < 52" "\<And>n. bit F n \<longleftrightarrow> n < 64 \<and> \<not> (12 \<le> n \<and> n < 52)" "\<And>n. bit L n \<longleftrightarrow> n < 12"
    using address_masks by blast
  have fw: "flag_word f \<longleftrightarrow> f AND M = 0" for f by (simp only: flag_word_def M)
  have fl: "flag_word (e AND F)" for e unfolding fw disjoint_bits by (auto simp: bit_and_iff b)
  have fields: "(a OR f) AND M = a \<and> (a OR f) AND F = f" if "a AND L = 0" "unat a < 2 ^ 52" "flag_word f" for a f :: u64
  proof -
    have "take_bit 52 (unat a) = unat a" using that(2) by (simp add: take_bit_nat_eq_self)
    then have "bit (unat a) n \<Longrightarrow> n < 52" for n by (metis bit_take_bit_iff)
    moreover have "bit a n \<Longrightarrow> bit (unat a) n" for n by (simp add: bit_unsigned_iff)
    ultimately have hi: "bit a n \<Longrightarrow> n < 52" for n by blast
    have lo: "bit a n \<Longrightarrow> 12 \<le> n" for n using that(1) not_le unfolding disjoint_bits b by blast
    have ff: "bit f n \<Longrightarrow> n < 64 \<and> \<not> (12 \<le> n \<and> n < 52)" for n using that(3) bit_u64_lt unfolding fw disjoint_bits b by blast
    show ?thesis
      using hi lo ff by (auto simp: bit_eq_iff bit_and_iff bit_or_iff b)
  qed
  have pf: "a AND NOT L = a" if "a AND L = 0" for a :: u64
    using that unfolding disjoint_bits by (auto simp: bit_eq_iff bit_and_not)
  have dis: "\<forall>i < 5. \<forall>j < 5. i \<noteq> j \<longrightarrow> x86_flags flat_x86 ! i AND x86_flags flat_x86 ! j = 0"
    by (simp add: x86_flags_def All_less_Suc eval_nat_numeral)
  have nz: "\<forall>f\<in>set (x86_flags flat_x86). f \<noteq> 0 \<and> flag_word f" by (simp add: x86_flags_def flag_word_def)
  have frame: "x_phys_frame flat_x86 a = a AND NOT L" for a by (simp add: flat_x86_def M)
  have X: "x_addr flat_x86 e = e AND M" "x_flags flat_x86 e = e AND F" "x_entry flat_x86 a f = a OR f" for e a f
    by (simp_all add: M)
  show ?thesis
    unfolding x86_entry_laws_def X frame using fields fl pf dis nz by (simp add: M(3))
qed

text \<open>Four frames that hold a table for the lowest 2 MiB, and an allocator that has handed them out.\<close>

definition four_frames :: "u64 set" where
  "four_frames = {0x100000, 0x101000, 0x102000, 0x103000}"

definition table_vm :: vm where
  "table_vm = \<lparr>vm_mem = mem_write_u64 (mem_write_u64 (mem_write_u64 (\<lambda>_. 0)
      0x100000 0x101007) 0x101000 0x102007) 0x102000 0x103007,
    vm_frames = Some \<lparr>fa_memory_map = [\<lparr>mr_start = 0x100000, mr_len = 0x100000, mr_type = Usable\<rparr>], fa_next_frame = 260,
      fa_free_list_head = 0, fa_phys_offset = 0\<rparr>,
    vm_phys_offset = Some 0, vm_kernel_l4 = 0, vm_page_table = None, vm_cr3 = 0, vm_next_stack_top = 0x80000000\<rparr>"

lemma table_vm_inv: "vm_inv four_frames table_vm"
proof -
  let ?fa = "the (vm_frames table_vm)"
  have u: "is_usable_frame_addr (fa_memory_map ?fa) p \<longleftrightarrow> 0x100000 \<le> p \<and> p < 0x200000" for p
    by (auto simp: is_usable_frame_addr_def table_vm_def)
  have "free_chain (vm_mem table_vm) (fa_free_list_head ?fa) []" by (simp add: table_vm_def)
  moreover have "frame_aligned p \<and> is_usable_frame_addr (fa_memory_map ?fa) p \<and> 256 \<le> frame_number p \<and> frame_number p < fa_next_frame ?fa"
    if "p \<in> four_frames" for p
    using that unfolding u by (auto simp: four_frames_def frame_aligned_def frame_number_def table_vm_def)
  ultimately have "frame_inv four_frames ?fa (vm_mem table_vm)"
    unfolding frame_inv_def by (intro conjI exI[of _ "[]"]) (simp_all add: table_vm_def)
  moreover have "unat p < 2 ^ 52" if "is_usable_frame_addr (fa_memory_map ?fa) p" for p
    using that unfolding u by (simp add: word_less_nat_alt)
  ultimately show ?thesis unfolding vm_inv_def by (intro exI[of _ ?fa]) (simp add: table_vm_def)
qed

lemma table_vm_entries:
  "entry_at table_vm 0x100000 0 = 0x101007" "entry_at table_vm 0x101000 0 = 0x102007" "entry_at table_vm 0x102000 0 = 0x103007"
  by (simp_all add: entry_at_def entry_cell_def table_vm_def mem_read_u64_write_other aligned8_def)

lemma low_indices: "index_of 39 0x1000 = 0" "index_of 30 0x1000 = 0" "index_of 21 0x1000 = 0" "index_of 12 0x1000 = 1"
  by (simp_all add: index_of_unat)

section \<open>Properties\<close>

text \<open>
  C15. After \<^emph>\<open>map_page_in_table\<close> succeeds, the page translates to the frame with the flags asked for, and the user of the table
  can access it exactly when user access was asked for, however many tables had to be made on the way and whichever frames the
  allocator gave for them.
\<close>

theorem map_page_in_table_translates:
  assumes "x86_entry_laws X" "x86_laws X" "vm_inv A v" "tables_ok X A {} v t [index_of 39 a, index_of 30 a, index_of 21 a]"
    "unat phys < 2 ^ 52" "map_page_in_table X t a phys w u v = (Ok (), v')"
  shows "translate_addr_in_table X v' t a = Some (phys, leaf_flags X w u)
    \<and> page_is_user_mapped_in_table X v' t a = (u \<and> index_of 39 a < 256)"
proof -
  have i: "x_p4_index X a = index_of 39 a" "x_p3_index X a = index_of 30 a" "x_p2_index X a = index_of 21 a"
    "x_p1_index X a = index_of 12 a" using assms(2) by (simp_all add: x86_laws_def)
  have al: "a AND 0xfff = 0" "phys AND 0xfff = 0" using assms(6) by (auto simp: map_page_in_table_def split: if_splits)
  have p0: "checked_add phys (a AND 0xfff) = Some phys" using unat_u64_lt[of phys] by (simp add: al checked_add_def)
  note ef = entry_fields[OF assms(1) al(2) assms(5) leaf_flags_facts(1)[OF assms(1), of w u]]
  note lf = leaf_flags_facts(2-4)[OF assms(1), of w u]
  define e4 where "e4 = entry_at v' t (index_of 39 a)"
  define e3 where "e3 = entry_at v' (x_addr X e4) (index_of 30 a)"
  define e2 where "e2 = entry_at v' (x_addr X e3) (index_of 21 a)"
  define e1 where "e1 = entry_at v' (x_addr X e2) (index_of 12 a)"
  obtain po where po: "vm_phys_offset v' = Some po" "t AND 0xfff = 0" "checked_add t po \<noteq> None"
    "checked_add (x_addr X e4) po \<noteq> None" "checked_add (x_addr X e3) po \<noteq> None" "checked_add (x_addr X e2) po \<noteq> None"
    and e: "entry_present X e4" "entry_present X e3" "entry_present X e2" "\<not> has_flag (x_flags X e3) (x_huge X)"
      "\<not> has_flag (x_flags X e2) (x_huge X)" "e1 = x_entry X phys (leaf_flags X w u)"
    and us: "u \<Longrightarrow> has_flag (x_flags X e4) (x_user X) \<and> has_flag (x_flags X e3) (x_user X) \<and> has_flag (x_flags X e2) (x_user X)"
    using map_page_walk[OF assms] unfolding Let_def e4_def e3_def e2_def e1_def by blast
  have e1: "entry_present X e1" "x_addr X e1 = phys" "x_flags X e1 = leaf_flags X w u"
    using ef lf by (simp_all add: e(6) entry_present_def)
  have "translate_addr_in_table X v' t a = Some (phys, leaf_flags X w u)"
    unfolding translate_addr_in_table_def i Let_def e4_def[symmetric] e3_def[symmetric] e2_def[symmetric] e1_def[symmetric]
    using po e e1 p0 by auto
  moreover have "page_is_user_mapped_in_table X v' t a = (u \<and> index_of 39 a < 256)"
    unfolding page_is_user_mapped_in_table_def user_page_flags_in_table_def Let_def e4_def[symmetric] e3_def[symmetric]
      e2_def[symmetric] e1_def[symmetric]
    using po e e1 lf us by (auto simp: entry_user_def)
  ultimately show ?thesis by blast
qed

theorem map_page_in_table_translates_witness:
  "\<exists>v'. map_page_in_table flat_x86 0x100000 0x1000 0x5000 True False table_vm = (Ok (), v')
    \<and> translate_addr_in_table flat_x86 v' 0x100000 0x1000 = Some (0x5000, 3)
    \<and> \<not> page_is_user_mapped_in_table flat_x86 v' 0x100000 0x1000"
proof -
  have p: "entry_present flat_x86 0x101007" "entry_present flat_x86 0x102007" "entry_present flat_x86 0x103007"
    by (simp_all add: entry_present_def has_flag_def)
  have ok: "tables_ok flat_x86 four_frames {} table_vm 0x100000 [index_of 39 0x1000, index_of 30 0x1000, index_of 21 0x1000]"
    by (simp add: low_indices table_vm_entries p) (simp add: four_frames_def)
  have n: "next_table flat_x86 False 0 0x100000 0 table_vm = (Ok 0x101000, table_vm)"
    "next_table flat_x86 False 0 0x101000 0 table_vm = (Ok 0x102000, table_vm)"
    "next_table flat_x86 False 0 0x102000 0 table_vm = (Ok 0x103000, table_vm)"
    by (simp_all add: next_table_def table_vm_entries p)
  have h: "\<not> huge_entry flat_x86 0x102007" "\<not> huge_entry flat_x86 0x103007" by (simp_all add: huge_entry_def has_flag_def)
  have c: "checked_add (x :: u64) 0 = Some x" for x using unat_u64_lt[of x] by (simp add: checked_add_def)
  have o: "vm_phys_offset table_vm = Some 0" "x_canonical flat_x86 0x1000" by (simp_all add: table_vm_def flat_x86_def)
  obtain v' where "map_page_in_table flat_x86 0x100000 0x1000 0x5000 True False table_vm = (Ok (), v')"
    by (simp add: map_page_in_table_def kbind.simps low_indices n h table_vm_entries c o phys_addr_ok_def)
  then show ?thesis
    using map_page_in_table_translates[OF flat_x86_entry_laws flat_x86_laws table_vm_inv ok, of "0x5000" True False v']
    by (auto simp: leaf_flags_def)
qed

text \<open>
  C17. Write and execute: the flags that loading a segment puts into a page's entry make the page both writable and executable
  exactly when the segment is writable and the entry held a kernel page without the no-execute flag. In every other case a page
  is never both.
\<close>

theorem segment_write_xor_execute:
  assumes "x86_entry_laws X" "\<not> (writable \<and> executable)"
    "segment_entry X e frame (segment_flags X writable executable) = Some (target, flags)"
  shows "(has_flag flags (x_writable X) \<and> \<not> has_flag flags (x_no_execute X)) \<longleftrightarrow>
    (writable \<and> e \<noteq> 0 \<and> \<not> has_flag (x_flags X e) (x_user X) \<and> \<not> has_flag (x_flags X e) (x_no_execute X))"
  using assms(2,3) flag_facts(5,18)[OF assms(1)] segment_flags_has[OF assms(1), of writable executable]
  by (auto simp: segment_entry_def Let_def has_flag_remove has_flag_remove_other split: if_splits)

theorem segment_write_xor_execute_witness:
  "\<exists>flags. segment_entry flat_x86 0x6001 0x7000 (segment_flags flat_x86 True False) = Some (0x7000, flags)
    \<and> has_flag flags (x_writable flat_x86) \<and> \<not> has_flag flags (x_no_execute flat_x86)"
proof -
  obtain target flags where s: "segment_entry flat_x86 0x6001 0x7000 (segment_flags flat_x86 True False) = Some (target, flags)"
    "target = 0x7000"
    by (simp add: segment_entry_def has_flag_def)
  from segment_write_xor_execute[OF flat_x86_entry_laws _ s(1)] s show ?thesis by (simp add: has_flag_def)
qed

section \<open>User stacks\<close>

text \<open>The crate's operations work on tables and frames and leave the position of the next user stack alone.\<close>

definition x86_ops_laws :: "x86 \<Rightarrow> bool" where
  "x86_ops_laws X \<longleftrightarrow> (\<forall>t p f fl v. vm_next_stack_top (snd (x_map_to X t p f fl v)) = vm_next_stack_top v)
    \<and> (\<forall>t p v. vm_next_stack_top (snd (x_unmap X t p v)) = vm_next_stack_top v)"

definition keeps_top :: "(vm \<Rightarrow> 'a kres \<times> vm) \<Rightarrow> bool" where
  "keeps_top f \<longleftrightarrow> (\<forall>v. vm_next_stack_top (snd (f v)) = vm_next_stack_top v)"

lemma keeps_top_kbind: "\<lbrakk>keeps_top f; \<And>x. keeps_top (g x)\<rbrakk> \<Longrightarrow> keeps_top (kbind f g)"
  unfolding keeps_top_def by (simp add: kbind.simps split: prod.splits kres.splits) (metis snd_conv)

lemma keeps_top_kfor: "(\<And>x. keeps_top (body x)) \<Longrightarrow> keeps_top (kfor xs body)"
proof (induction xs)
  case (Cons x xs)
  then have "keeps_top (kbind (body x) (\<lambda>_. kfor xs body))" by (intro keeps_top_kbind) auto
  then show ?case by (simp add: keeps_top_def)
qed (simp add: keeps_top_def)

lemma top_simps [simp]:
  "vm_next_stack_top (set_entry t i e v) = vm_next_stack_top v" "vm_next_stack_top (zero_frame p v) = vm_next_stack_top v"
  "vm_next_stack_top (snd (deallocate_frame p v)) = vm_next_stack_top v"
  "vm_next_stack_top (copy_segment_page a b s c d v) = vm_next_stack_top v"
  by (auto simp: set_entry_def zero_frame_def deallocate_frame_def copy_segment_page_def Let_def split: option.split prod.split)

lemma keeps_top_allocate: "keeps_top (allocate_frame X)"
  by (auto simp: keeps_top_def allocate_frame_def split: option.split prod.split)

lemma keeps_top_ensure_level: "keeps_top (ensure_level X h t i)"
  using keeps_top_allocate[of X]
  by (auto simp: keeps_top_def ensure_level_def Let_def kbind.simps split: prod.splits kres.splits) (metis snd_conv)+

lemma keeps_top_ensure: "keeps_top (ensure_user_page_table_hierarchy X l4 a)"
proof -
  have e: "vm_next_stack_top (snd (ensure_level X h t i v)) = vm_next_stack_top v" for h t i v
    using keeps_top_ensure_level by (simp add: keeps_top_def)
  have "keeps_top (\<lambda>v. kbind (ensure_level X False l3 i) (\<lambda>_ v. ensure_level X True (f v) j v) v)" for l3 i f j
    unfolding keeps_top_def kbind.simps using e
    by (auto split: prod.splits kres.splits) (metis snd_conv)+
  then show ?thesis
    unfolding keeps_top_def ensure_user_page_table_hierarchy_def Let_def kbind.simps[of "ensure_level X False l4 _"] using e
    by (auto split: prod.splits kres.splits) (metis snd_conv)+
qed

lemma keeps_top_map_segment_page: "keeps_top (map_segment_page X l4 a fe src fl p)"
proof -
  have "keeps_top (kbind (allocate_frame X) (\<lambda>frame v.
      let v = zero_frame frame v; l3 = x_addr X (entry_at v l4 (index_of 39 p))
      in if l3 = 0 then (Err (KMemory InvalidAddress), v)
      else let l2 = x_addr X (entry_at v l3 (index_of 30 p))
      in if l2 = 0 then (Err (KMemory InvalidAddress), v)
      else let l1 = x_addr X (entry_at v l2 (index_of 21 p))
      in if l1 = 0 then (Err (KMemory InvalidAddress), v)
      else let e = entry_at v l1 (index_of 12 p)
      in case segment_entry X e frame fl of
           None \<Rightarrow> (Err (KMemory PermissionDenied), snd (deallocate_frame frame v))
         | Some (target, flags) \<Rightarrow>
             let v = set_entry l1 (index_of 12 p) (x_entry X target flags) v;
                 v = (if e \<noteq> 0 \<and> has_flag (x_flags X e) (x_user X) then snd (deallocate_frame frame v) else v)
             in (Ok (), copy_segment_page a fe src p target v)))"
    by (rule keeps_top_kbind[OF keeps_top_allocate]) (auto simp: keeps_top_def Let_def split: option.split)
  from keeps_top_kbind[OF keeps_top_ensure this] show ?thesis
    unfolding map_segment_page_def keeps_top_def by simp
qed

lemma keeps_top_segment:
  assumes "x86_ops_laws X"
  shows "keeps_top (map_and_copy_segment_to X t a fs ms src w e)"
proof -
  have k: "keeps_top (\<lambda>v. kbind (ensure_user_page_table_hierarchy X l4 a) (\<lambda>_.
      kbind (ensure_user_page_table_hierarchy X l4 b) (\<lambda>_ v. case end_page of None \<Rightarrow> (Err (KMemory InvalidAddress), v)
      | Some end_addr \<Rightarrow> kbind (kfor (pages end_addr) (map_segment_page X l4 a fe src fl))
          (\<lambda>_ v. (Ok (), snd (x_unmap X kt TEMP_KERN_VIRT v))) v)) v)" for l4 b end_page pages fe fl kt
  proof -
    have "keeps_top (\<lambda>v. case end_page of None \<Rightarrow> (Err (KMemory InvalidAddress), v)
      | Some end_addr \<Rightarrow> kbind (kfor (pages end_addr) (map_segment_page X l4 a fe src fl))
          (\<lambda>_ v. (Ok (), snd (x_unmap X kt TEMP_KERN_VIRT v))) v)"
    proof (cases end_page)
      case (Some end_addr)
      have "keeps_top (kbind (kfor (pages end_addr) (map_segment_page X l4 a fe src fl))
          (\<lambda>_ v. (Ok (), snd (x_unmap X kt TEMP_KERN_VIRT v))))"
        by (intro keeps_top_kbind keeps_top_kfor keeps_top_map_segment_page)
          (use assms in \<open>simp add: keeps_top_def x86_ops_laws_def\<close>)
      then show ?thesis using Some by (simp add: keeps_top_def)
    qed (simp add: keeps_top_def)
    then show ?thesis by (intro keeps_top_kbind keeps_top_ensure)
  qed
  have m: "vm_next_stack_top v' = vm_next_stack_top v" if "x_map_to X k p f fl v = (r, v')" for k p f fl v r v'
    using assms that unfolding x86_ops_laws_def by (metis snd_conv)
  note k' = k[unfolded keeps_top_def, rule_format]
  show ?thesis
    unfolding keeps_top_def map_and_copy_segment_to_def Let_def
    by (auto simp: k' split: option.split prod.split map_to_result.split dest: m)
qed

lemma map_user_range_in_table_ok:
  assumes "map_user_range_in_table X t start sz fl v = (Ok (), v')" "x86_ops_laws X"
  shows "vm_next_stack_top v' = vm_next_stack_top v \<and> unat sz \<le> 2 ^ 47"
proof (cases "sz = 0")
  case False
  from assms(1) False obtain e where e: "checked_add start (sz - 1) = Some e" "e \<le> USER_SPACE_END"
    and m: "map_and_copy_segment_to X t start 0 sz [] (has_flag fl (x_writable X)) (\<not> has_flag fl (x_no_execute X)) v = (Ok (), v')"
    by (auto simp: map_user_range_in_table_def split: option.splits if_splits)
  have "unat (sz - 1) \<le> unat e" using checked_add_Some[OF e(1)] by simp
  moreover have "unat e \<le> 2 ^ 47 - 1" using e(2) by (simp add: USER_SPACE_END_def word_le_nat_alt)
  moreover have "unat (sz - 1) = unat sz - 1" using False by (simp add: unat_minus_one)
  ultimately have "unat sz \<le> 2 ^ 47" by simp
  moreover have "vm_next_stack_top v' = vm_next_stack_top v"
    using keeps_top_segment[OF assms(2)] m unfolding keeps_top_def by (metis snd_conv)
  ultimately show ?thesis by blast
qed (use assms(1) in \<open>simp add: map_user_range_in_table_def\<close>)

lemma alloc_user_stack_step:
  assumes "alloc_user_stack_in_table X t pages v = (Ok s, v')" "x86_ops_laws X"
  shows "us_top s = vm_next_stack_top v" "unat (us_bottom s) = unat (vm_next_stack_top v') + 4096" "us_bottom s \<le> us_top s"
    "us_top s - us_bottom s = pages * 4096"
proof -
  let ?sz = "pages * 4096" let ?total = "?sz + 4096" let ?top = "vm_next_stack_top v"
  from assms(1) obtain new_top fl v1 where n: "checked_sub ?top ?total = Some new_top"
    and m: "map_user_range_in_table X t (new_top + 4096) ?sz fl v = (Ok (), v1)"
    and s: "s = \<lparr>us_bottom = new_top + 4096, us_top = new_top + ?total\<rparr>" "v' = v1\<lparr>vm_next_stack_top := new_top\<rparr>"
    by (auto simp: alloc_user_stack_in_table_def Let_def PAGE_SIZE_def USER_STACK_GUARD_PAGES_def kbind.simps
        split: if_splits option.splits kres.splits prod.splits)
  have sz: "unat ?sz \<le> 2 ^ 47" using map_user_range_in_table_ok[OF m assms(2)] by simp
  have t: "unat ?total = unat ?sz + 4096" using sz by (subst unat_plus_simple[THEN iffD1]) (simp_all add: no_olen_add_nat)
  have new: "unat new_top = unat ?top - unat ?total" "unat ?total \<le> unat ?top" using checked_sub_Some[OF n] by (auto simp: word_le_nat_alt)
  have top: "new_top + ?total = ?top" using n by (auto simp: checked_sub_def split: if_splits)
  have b: "unat (new_top + 4096) = unat new_top + 4096"
    using new t unat_u64_lt[of ?top] by (simp add: unat_word_ariths)
  show "us_top s = ?top" using s top by simp
  show "unat (us_bottom s) = unat (vm_next_stack_top v') + 4096" using s b by simp
  show "us_bottom s \<le> us_top s" using s b new t top by (simp add: word_le_nat_alt)
  show "us_top s - us_bottom s = ?sz" using s by simp
qed

text \<open>A sequence of requests, each for a table and a number of pages, and the stacks of those that succeed.\<close>

fun alloc_user_stacks :: "x86 \<Rightarrow> (u64 \<times> u64) list \<Rightarrow> vm \<Rightarrow> user_stack list \<times> vm" where
  "alloc_user_stacks X [] v = ([], v)"
| "alloc_user_stacks X ((t, pages) # rs) v =
    (case alloc_user_stack_in_table X t pages v of
       (Ok s, v) \<Rightarrow> (case alloc_user_stacks X rs v of (ss, v) \<Rightarrow> (s # ss, v))
     | (_, v) \<Rightarrow> alloc_user_stacks X rs v)"

lemma alloc_user_stack_failed:
  assumes "alloc_user_stack_in_table X t pages v = (r, v')" "x86_ops_laws X" "\<And>s. r \<noteq> Ok s"
  shows "vm_next_stack_top v' = vm_next_stack_top v"
proof -
  have "keeps_top (map_user_range_in_table X t a sz fl)" for a sz fl
    unfolding keeps_top_def map_user_range_in_table_def
    using keeps_top_segment[OF assms(2)] by (auto simp: keeps_top_def split: option.split)
  then show ?thesis
    using assms(1,3) unfolding keeps_top_def alloc_user_stack_in_table_def Let_def kbind.simps
    by (auto split: if_splits option.splits prod.splits kres.splits) (metis snd_conv)+
qed

definition stacks_apart :: "user_stack \<Rightarrow> user_stack \<Rightarrow> bool" where
  "stacks_apart s s' \<longleftrightarrow> unat (us_top s') + 4096 \<le> unat (us_bottom s)"

lemma alloc_user_stacks_below:
  assumes "x86_ops_laws X"
  shows "(\<forall>s\<in>set (fst (alloc_user_stacks X rs v)). us_top s \<le> vm_next_stack_top v \<and> us_bottom s \<le> us_top s)
    \<and> sorted_wrt stacks_apart (fst (alloc_user_stacks X rs v))"
  using assms
proof (induction X rs v rule: alloc_user_stacks.induct)
  case (2 X t pages rs v)
  obtain r v1 where r: "alloc_user_stack_in_table X t pages v = (r, v1)" by (cases "alloc_user_stack_in_table X t pages v")
  obtain ss v2 where ss: "alloc_user_stacks X rs v1 = (ss, v2)" by (cases "alloc_user_stacks X rs v1")
  show ?case
  proof (cases "\<exists>s. r = Ok s")
    case True
    then obtain s where s: "r = Ok s" by blast
    note st = alloc_user_stack_step[OF r[unfolded s] "2.prems"]
    have "(\<forall>s\<in>set ss. us_top s \<le> vm_next_stack_top v1 \<and> us_bottom s \<le> us_top s) \<and> sorted_wrt stacks_apart ss"
      using "2.IH"(1)[OF r[symmetric] s "2.prems"] ss by simp
    moreover have "us_top x \<le> vm_next_stack_top v \<and> stacks_apart s x" if "us_top x \<le> vm_next_stack_top v1" for x
      using that st(1-3) by (auto simp: stacks_apart_def word_le_nat_alt)
    ultimately show ?thesis using st(1,3) r s ss by auto
  next
    case False
    have "(\<forall>s\<in>set ss. us_top s \<le> vm_next_stack_top v1 \<and> us_bottom s \<le> us_top s) \<and> sorted_wrt stacks_apart ss"
      using False "2.IH"(2,3)[OF r[symmetric]] "2.prems" ss by (cases r) auto
    moreover have "vm_next_stack_top v1 = vm_next_stack_top v" using alloc_user_stack_failed[OF r "2.prems"] False by blast
    ultimately show ?thesis using False r ss by (auto split: kres.split)
  qed
qed simp

section \<open>Two stacks\<close>

text \<open>A table whose entries lead to the page table of the highest pages below 2 GiB, and frames to take from.\<close>

definition stack_x86 :: x86 where
  "stack_x86 = flat_x86\<lparr>x_map_to := \<lambda>t p f fl v. (MapOk, v)\<rparr>"

definition stack_frames :: "nat \<Rightarrow> frame_allocator" where
  "stack_frames n = \<lparr>fa_memory_map = [\<lparr>mr_start = 0x100000, mr_len = 0x100000, mr_type = Usable\<rparr>], fa_next_frame = n,
    fa_free_list_head = 0, fa_phys_offset = 0\<rparr>"

definition stack_vm :: vm where
  "stack_vm = \<lparr>vm_mem = mem_write_u64 (mem_write_u64 (mem_write_u64 (\<lambda>_. 0)
      0x100000 0x101007) 0x101008 0x102007) 0x102FF8 0x103007,
    vm_frames = Some (stack_frames 260), vm_phys_offset = Some 0, vm_kernel_l4 = 0, vm_page_table = Some 0, vm_cr3 = 0,
    vm_next_stack_top = 0x80000000\<rparr>"

definition stack_tables :: "nat \<Rightarrow> nat list \<Rightarrow> vm \<Rightarrow> bool" where
  "stack_tables n free v \<longleftrightarrow> vm_frames v = Some (stack_frames n) \<and> vm_phys_offset v = Some 0 \<and> vm_page_table v = Some 0
    \<and> entry_at v 0x100000 0 = 0x101007 \<and> entry_at v 0x101000 1 = 0x102007 \<and> entry_at v 0x102000 511 = 0x103007
    \<and> (\<forall>i\<in>set free. i < 512 \<and> entry_at v 0x103000 i = 0)"

lemma entry_at_set_entry_if:
  "\<lbrakk>aligned8 (entry_cell t i); aligned8 (entry_cell u j)\<rbrakk> \<Longrightarrow>
    entry_at (set_entry t i e v) u j = (if entry_cell t i = entry_cell u j then e else entry_at v u j)"
  by (simp add: entry_at_def set_entry_def mem_read_u64_write_other)

lemma stack_vm_tables: "stack_tables 260 [511, 509] stack_vm"
  by (simp add: stack_tables_def stack_vm_def entry_at_def entry_cell_def mem_read_u64_write_other aligned8_def)
     (simp add: mem_read_u64_def mem_read_def numeral_eq_Suc)

lemma stack_x86_simps [simp]:
  "x_present stack_x86 = 1" "x_writable stack_x86 = 2" "x_user stack_x86 = 4" "x_huge stack_x86 = 0x80"
  "x_no_execute stack_x86 = 0x8000000000000000" "x_flags stack_x86 e = e AND 0xFFF0000000000FFF"
  "x_addr stack_x86 e = e AND 0x000FFFFFFFFFF000" "x_entry stack_x86 a f = a OR f"
  "x_map_to stack_x86 t p f fl v = (MapOk, v)" "x_unmap stack_x86 t p v = (None, v)" "x_phys_frame stack_x86 a = a AND NOT 0xfff"
  by (simp_all add: stack_x86_def flat_x86_def)

lemma stack_x86_ops: "x86_ops_laws stack_x86"
  by (simp add: x86_ops_laws_def)

lemma stack_tables_set:
  assumes "stack_tables n free v" "(t, i, e) \<in> {(0x100000, 0, 0x101007), (0x101000, 1, 0x102007), (0x102000, 511, 0x103007)}"
  shows "stack_tables n free (set_entry t i e v)"
proof -
  have c: "entry_cell 0x103000 j \<noteq> entry_cell t i \<and> aligned8 (entry_cell 0x103000 j)" if "j < 512" for j
  proof -
    have u: "unat (entry_cell 0x103000 j) = 0x103000 + 8 * j" using that by (simp add: entry_cell_def unat_word_ariths unat_of_nat)
    have "unat (entry_cell t i) < 0x103000" using assms(2) by (auto simp: entry_cell_def)
    then show ?thesis using u by (auto simp: aligned8_def)
  qed
  have "entry_at (set_entry t i e v) 0x103000 j = entry_at v 0x103000 j" if "j < 512" for j
    using c[OF that] assms(2) by (subst entry_at_set_entry_if) (auto simp: entry_cell_def aligned8_def)
  moreover have "vm_frames (set_entry t i e v) = vm_frames v" "vm_phys_offset (set_entry t i e v) = vm_phys_offset v"
    "vm_page_table (set_entry t i e v) = vm_page_table v" by (simp_all add: set_entry_def)
  ultimately show ?thesis
    using assms by (auto simp: stack_tables_def entry_at_set_entry_if entry_cell_def aligned8_def)
qed

lemma stack_ensure:
  assumes "stack_tables n free v" "index_of 39 a = 0" "index_of 30 a = 1" "index_of 21 a = 511"
  shows "\<exists>v'. ensure_user_page_table_hierarchy stack_x86 0x100000 a v = (Ok (), v') \<and> stack_tables n free v'"
proof -
  have l: "ensure_level stack_x86 h t i v = (Ok (), set_entry t i e v)"
    if "(t, i, e) \<in> {(0x100000, 0, 0x101007), (0x101000, 1, 0x102007), (0x102000, 511, 0x103007)}" "stack_tables n free v" for h t i e v
    using that by (auto simp: ensure_level_def stack_tables_def has_flag_def)
  define v1 where "v1 = set_entry 0x100000 0 0x101007 v"
  define v2 where "v2 = set_entry 0x101000 1 0x102007 v1"
  have s: "stack_tables n free v1" "stack_tables n free v2" "stack_tables n free (set_entry 0x102000 511 0x103007 v2)"
    using assms(1) by (auto simp: v1_def v2_def intro!: stack_tables_set)
  have e: "entry_at v1 0x100000 0 = 0x101007" "entry_at v2 0x101000 1 = 0x102007" using s by (auto simp: stack_tables_def)
  have "ensure_level stack_x86 False 0x100000 0 v = (Ok (), v1)" "ensure_level stack_x86 False 0x101000 1 v1 = (Ok (), v2)"
    "ensure_level stack_x86 True 0x102000 511 v2 = (Ok (), set_entry 0x102000 511 0x103007 v2)"
    using l s assms(1) unfolding v1_def v2_def by (metis insertCI)+
  then show ?thesis using s e by (simp add: ensure_user_page_table_hierarchy_def assms(2-4) kbind.simps)
qed

lemma stack_allocate:
  assumes "stack_tables n free v" "260 \<le> n" "n < 512"
  shows "\<exists>p v'. allocate_frame stack_x86 v = (Ok p, v') \<and> stack_tables (n + 1) free (zero_frame p v')"
proof -
  let ?p = "of_nat n * 4096 :: u64" let ?mm = "[\<lparr>mr_start = 0x100000, mr_len = 0x100000, mr_type = Usable\<rparr>]"
  have up: "unat ?p = n * 4096" using assms(3) by (simp add: unat_word_ariths unat_of_nat)
  have us: "is_usable_frame_addr ?mm ?p" using up assms(2,3) by (simp add: is_usable_frame_addr_def word_less_nat_alt word_le_nat_alt)
  have al: "frame_aligned ?p" using up by (simp add: frame_aligned_def)
  have pf: "?p AND NOT 0xfff = ?p" using al by (intro and_not_disjoint) (simp add: frame_aligned_and)
  have "[n..<Suc (max_frame ?mm)] = n # [Suc n..<Suc (max_frame ?mm)]"
    using assms(3) by (subst upt_conv_Cons) (simp_all add: max_frame_def)
  then have f: "fa_allocate_frame (x_phys_frame stack_x86) (stack_frames n) m = (Some ?p, stack_frames (n + 1), m)" for m
    using us pf by (simp add: fa_allocate_frame_def stack_frames_def)
  define v1 where "v1 = v\<lparr>vm_frames := Some (stack_frames (n + 1))\<rparr>"
  have a: "allocate_frame stack_x86 v = (Ok ?p, v1)"
    using assms(1) f[of "vm_mem v"] by (simp add: allocate_frame_def stack_tables_def v1_def)
  have k: "entry_at (zero_frame ?p v1) t i = entry_at v t i" if "t \<in> {0x100000, 0x101000, 0x102000, 0x103000}" "i < 512" for t i
  proof (rule entry_at_cong)
    show "frame_aligned t" using that by (auto simp: frame_aligned_def)
    fix x assume "frame_number x = frame_number t"
    moreover have "frame_number t \<noteq> frame_number ?p" using that(1) up assms(2) by (auto simp: frame_number_def)
    ultimately show "vm_mem (zero_frame ?p v1) x = vm_mem v x"
      using zero_frame_frame[OF al, of v1 x] by (auto simp: v1_def)
  qed (use that in simp)
  have "stack_tables (n + 1) free (zero_frame ?p v1)"
    using assms(1) k unfolding stack_tables_def by (auto simp: zero_frame_def v1_def)
  then show ?thesis using a by blast
qed

lemma stack_page:
  assumes "stack_tables n (i # free) v" "260 \<le> n" "n < 512" "i \<notin> set free"
    "index_of 39 a = 0" "index_of 30 a = 1" "index_of 21 a = 511" "index_of 12 a = i"
  shows "\<exists>v'. map_segment_page stack_x86 0x100000 b b [] 0x8000000000000007 a v = (Ok (), v') \<and> stack_tables (n + 1) free v'"
proof -
  obtain v1 where v1: "ensure_user_page_table_hierarchy stack_x86 0x100000 a v = (Ok (), v1)" "stack_tables n (i # free) v1"
    using stack_ensure[OF assms(1,5-7)] by blast
  obtain p v2 where v2: "allocate_frame stack_x86 v1 = (Ok p, v2)" "stack_tables (n + 1) (i # free) (zero_frame p v2)"
    using stack_allocate[OF v1(2) assms(2,3)] by blast
  let ?v = "zero_frame p v2"
  have e: "entry_at ?v 0x100000 0 = 0x101007" "entry_at ?v 0x101000 1 = 0x102007" "entry_at ?v 0x102000 511 = 0x103007"
    "entry_at ?v 0x103000 i = 0" "i < 512" using v2(2) by (auto simp: stack_tables_def)
  let ?v' = "set_entry 0x103000 i (p OR 0x8000000000000007) ?v"
  have c: "unat (entry_cell 0x103000 j) = 0x103000 + 8 * j" if "j < 512" for j
    using that by (simp add: entry_cell_def unat_word_ariths unat_of_nat)
  have al: "aligned8 (entry_cell 0x103000 j)" if "j < 512" for j using c[OF that] by (simp add: aligned8_def)
  have "entry_at ?v' 0x103000 j = entry_at ?v 0x103000 j" if "j \<in> set free" for j
  proof -
    have "j < 512" "j \<noteq> i" using that assms(4) v2(2) by (auto simp: stack_tables_def)
    then show ?thesis using c[of j] c[OF e(5)] al[of j] al[OF e(5)] by (subst entry_at_set_entry_if) auto
  qed
  moreover have "entry_at ?v' t j = entry_at ?v t j" if "unat (entry_cell t j) < 0x103000" "aligned8 (entry_cell t j)" for t j
    using that c[OF e(5)] al[OF e(5)] by (subst entry_at_set_entry_if) auto
  ultimately have "stack_tables (n + 1) free ?v'"
    using v2(2) unfolding stack_tables_def by (simp add: entry_cell_def aligned8_def) (simp add: set_entry_def)
  then show ?thesis
    by (simp add: map_segment_page_def kbind.simps v1(1) v2(1) assms(5-8) e e(2)[simplified] segment_entry_def
        copy_segment_page_def Let_def)
qed

lemma stack_map:
  assumes "stack_tables n (i # free) v" "260 \<le> n" "n < 512" "i \<notin> set free" "(a, i) \<in> {(0x7FFFF000, 511), (0x7FFFD000, 509)}"
  shows "\<exists>v'. map_and_copy_segment_to stack_x86 0x100000 a 0 4096 [] True False v = (Ok (), v') \<and> stack_tables (n + 1) free v'"
proof -
  have ix: "index_of 39 a = 0" "index_of 30 a = 1" "index_of 21 a = 511" "index_of 12 a = i"
    "index_of 39 (a + 4095) = 0" "index_of 30 (a + 4095) = 1" "index_of 21 (a + 4095) = 511"
    using assms(5) by (auto simp: index_of_unat)
  obtain v1 where v1: "ensure_user_page_table_hierarchy stack_x86 0x100000 a v = (Ok (), v1)" "stack_tables n (i # free) v1"
    using stack_ensure[OF assms(1) ix(1-3)] by blast
  obtain v2 where v2: "ensure_user_page_table_hierarchy stack_x86 0x100000 (a + 4095) v1 = (Ok (), v2)" "stack_tables n (i # free) v2"
    using stack_ensure[OF v1(2) ix(5-7)] by blast
  obtain v3 where v3: "map_segment_page stack_x86 0x100000 a a [] 0x8000000000000007 a v2 = (Ok (), v3)" "stack_tables (n + 1) free v3"
    using stack_page[OF v2(2) assms(2-4) ix(1-4)] by blast
  have sf: "segment_flags stack_x86 True False = 0x8000000000000007" by (simp add: segment_flags_def)
  have r: "page_range (page_base a) (a + 4096) = [a]" "page_align_up (a + 4096) = Some (a + 4096)"
    using assms(5) by (auto simp: page_range_def page_base_def page_align_up_def checked_add_def upt_rec)
  have c: "checked_add a 0 = Some a" "checked_add a 4096 = Some (a + 4096)" "checked_add a 4095 = Some (a + 4095)"
    "a \<noteq> 0" "a \<le> USER_SPACE_END" "a + 4095 \<le> USER_SPACE_END"
    using assms(5) by (auto simp: checked_add_def USER_SPACE_END_def)
  have "map_and_copy_segment_to stack_x86 0x100000 a 0 4096 [] True False v = (Ok (), v3)"
    using assms(1) v1(1) v2(1)[unfolded add.commute[of a]] v3(1)
    by (simp add: map_and_copy_segment_to_def stack_tables_def c r sf kbind.simps)
  then show ?thesis using v3(2) by blast
qed

lemma stack_request:
  assumes "stack_tables n (i # free) v" "260 \<le> n" "n < 512" "i \<notin> set free" "vm_next_stack_top v = a + 4096"
    "(a, i) \<in> {(0x7FFFF000, 511), (0x7FFFD000, 509)}"
  shows "\<exists>v'. alloc_user_stack_in_table stack_x86 0x100000 1 v = (Ok \<lparr>us_bottom = a, us_top = a + 4096\<rparr>, v')
    \<and> stack_tables (n + 1) free v' \<and> vm_next_stack_top v' = a - 4096"
proof -
  have c: "checked_add a 4095 = Some (a + 4095)" "checked_add a 4096 = Some (a + 4096)"
    "checked_sub (a + 4096) 0x2000 = Some (a - 4096)" "a \<noteq> 0" "a \<le> USER_SPACE_END" "a + 4095 \<le> USER_SPACE_END"
    "page_base a = a" "page_align_up (a + 4096) = Some (a + 4096)" "checked_add a 0 = Some a"
    using assms(6) by (auto simp: checked_add_def checked_sub_def USER_SPACE_END_def page_base_def page_align_up_def)
  obtain v3 where v3: "map_and_copy_segment_to stack_x86 0x100000 a 0 4096 [] True False v = (Ok (), v3)" "stack_tables (n + 1) free v3"
    using stack_map[OF assms(1-4,6)] by blast
  then have "map_user_range_in_table stack_x86 0x100000 a 4096 0x8000000000000007 v = (Ok (), v3)"
    using c by (simp add: map_user_range_in_table_def has_flag_def not_less)
  then show ?thesis
    using v3(2) c(3) assms(5)
    by (simp add: alloc_user_stack_in_table_def PAGE_SIZE_def USER_STACK_GUARD_PAGES_def kbind.simps stack_tables_def entry_at_def)
qed

text \<open>
  C16. However many user stacks are asked for, in whatever tables and whatever their sizes, and whichever requests fail, the stacks
  given out lie below the first stack top, none reaches below its bottom, and any two of them are at least a guard page apart:
  a later stack ends a page or more below the bottom of an earlier one. Sizes that wrap around never succeed with an overlap.
\<close>

theorem user_stacks_apart:
  assumes "x86_ops_laws X" "vm_next_stack_top v = USER_STACK_TOP" "i < j" "j < length (fst (alloc_user_stacks X requests v))"
  shows "let stacks = fst (alloc_user_stacks X requests v)
    in unat (us_bottom (stacks ! j)) \<le> unat (us_top (stacks ! j))
      \<and> unat (us_top (stacks ! j)) + 4096 \<le> unat (us_bottom (stacks ! i))
      \<and> us_bottom (stacks ! i) \<le> us_top (stacks ! i) \<and> us_top (stacks ! i) \<le> 0x80000000"
proof -
  let ?s = "fst (alloc_user_stacks X requests v)"
  note b = alloc_user_stacks_below[OF assms(1), of requests v]
  have "stacks_apart (?s ! i) (?s ! j)" using b sorted_wrt_iff_nth_less assms(3,4) by blast
  moreover have "?s ! i \<in> set ?s" "?s ! j \<in> set ?s" using assms(3,4) by simp_all
  ultimately show ?thesis using b assms(2) by (auto simp: stacks_apart_def USER_STACK_TOP_def word_le_nat_alt Let_def)
qed

theorem user_stacks_apart_witness:
  "\<exists>s s'. fst (alloc_user_stacks stack_x86 [(0x100000, 1), (0x100000, 0), (0x100000, 1)] stack_vm) = [s, s']
    \<and> unat (us_top s') + 4096 \<le> unat (us_bottom s)"
proof -
  have t: "vm_next_stack_top stack_vm = 0x80000000" by (simp add: stack_vm_def)
  obtain v1 where v1: "alloc_user_stack_in_table stack_x86 0x100000 1 stack_vm = (Ok \<lparr>us_bottom = 0x7FFFF000, us_top = 0x80000000\<rparr>, v1)"
    "stack_tables 261 [509] v1" "vm_next_stack_top v1 = 0x7FFFE000"
    using stack_request[OF stack_vm_tables, of "0x7FFFF000"] t by auto
  obtain v2 where v2: "alloc_user_stack_in_table stack_x86 0x100000 1 v1 = (Ok \<lparr>us_bottom = 0x7FFFD000, us_top = 0x7FFFE000\<rparr>, v2)"
    using stack_request[OF v1(2), of "0x7FFFD000"] v1(3) by auto
  have z: "alloc_user_stack_in_table stack_x86 0x100000 0 v = (Err (KMemory InvalidAddress), v)" for v
    by (simp add: alloc_user_stack_in_table_def)
  let ?l = "fst (alloc_user_stacks stack_x86 [(0x100000, 1), (0x100000, 0), (0x100000, 1)] stack_vm)"
  have l: "?l = [\<lparr>us_bottom = 0x7FFFF000, us_top = 0x80000000\<rparr>, \<lparr>us_bottom = 0x7FFFD000, us_top = 0x7FFFE000\<rparr>]"
    by (simp add: v1(1) v2 z)
  have "vm_next_stack_top stack_vm = USER_STACK_TOP" by (simp add: t USER_STACK_TOP_def)
  from user_stacks_apart[OF stack_x86_ops this, of 0 1 "[(0x100000, 1), (0x100000, 0), (0x100000, 1)]", unfolded l]
  show ?thesis unfolding l by (simp add: Let_def)
qed

end
