(* ===== verification/Kstack.thy ===== *)
theory Kstack
  imports Prelude
begin

text \<open>
  The pool of kernel stacks, from \<^verbatim>\<open>src/src/core/task/thread.rs\<close>: a bump allocator over a 2 MiB array with a guard page
  below each stack, and a list of 32 freed stacks. The address of the array is the argument \<^emph>\<open>pool_base\<close>;
  \<^emph>\<open>unmap_guard_page\<close> works on the kernel page table through the x86\_64 crate and is the argument \<^emph>\<open>unmap_guard\<close>.
\<close>

section \<open>Operations\<close>

definition KSTACK_POOL_SIZE :: u64 where "KSTACK_POOL_SIZE = 4096 * 512"
definition KSTACK_PAGE_BYTES :: u64 where "KSTACK_PAGE_BYTES = 4096"
definition KSTACK_GUARD_BYTES :: u64 where "KSTACK_GUARD_BYTES = KSTACK_PAGE_BYTES"
definition KSTACK_FREE_LIST_CAP :: nat where "KSTACK_FREE_LIST_CAP = 32"

lemmas kstack_consts = KSTACK_POOL_SIZE_def KSTACK_PAGE_BYTES_def KSTACK_GUARD_BYTES_def

record kstack_pool =
  ks_free_list :: "u64 list"
  ks_next_offset :: u64

definition kstack_pool_new :: kstack_pool where
  "kstack_pool_new = \<lparr>ks_free_list = replicate KSTACK_FREE_LIST_CAP 0, ks_next_offset = 0\<rparr>"

definition allocate_kernel_stack ::
  "(u64 \<Rightarrow> bool) \<Rightarrow> u64 \<Rightarrow> u64 \<Rightarrow> kstack_pool \<Rightarrow> u64 option \<times> kstack_pool" where
  "allocate_kernel_stack unmap_guard pool_base sz ks =
    (if sz = 0 \<or> sz > saturating_sub KSTACK_POOL_SIZE KSTACK_GUARD_BYTES then (None, ks)
     else case checked_add sz (KSTACK_PAGE_BYTES - 1) of None \<Rightarrow> (None, ks) | Some t \<Rightarrow>
     case checked_mul (t div KSTACK_PAGE_BYTES) KSTACK_PAGE_BYTES of None \<Rightarrow> (None, ks) | Some size_pages \<Rightarrow>
     case find_index (\<lambda>g. g \<noteq> 0) (ks_free_list ks) of
       Some i \<Rightarrow>
         (checked_add (ks_free_list ks ! i) KSTACK_GUARD_BYTES, ks\<lparr>ks_free_list := (ks_free_list ks)[i := 0]\<rparr>)
     | None \<Rightarrow>
         (case checked_add size_pages KSTACK_GUARD_BYTES of None \<Rightarrow> (None, ks) | Some alloc_size \<Rightarrow>
          let off = ks_next_offset ks; ks' = ks\<lparr>ks_next_offset := off + alloc_size\<rparr>
          in if off + alloc_size > KSTACK_POOL_SIZE then (None, ks')
             else case checked_add pool_base off of None \<Rightarrow> (None, ks') | Some guard_addr \<Rightarrow>
               if \<not> unmap_guard guard_addr then (None, ks')
               else (checked_add guard_addr KSTACK_GUARD_BYTES, ks')))"

definition free_kernel_stack :: "u64 \<Rightarrow> u64 \<Rightarrow> kstack_pool \<Rightarrow> kstack_pool" where
  "free_kernel_stack pool_base base ks =
    (if base = 0 then ks
     else case checked_sub base KSTACK_GUARD_BYTES of
         None \<Rightarrow> ks
       | Some guard_addr \<Rightarrow>
           if guard_addr < pool_base \<or> guard_addr \<ge> pool_base + KSTACK_POOL_SIZE then ks
           else case find_index (\<lambda>g. g = 0) (ks_free_list ks) of
               Some i \<Rightarrow> ks\<lparr>ks_free_list := (ks_free_list ks)[i := guard_addr]\<rparr>
             | None \<Rightarrow> ks)"

section \<open>Stacks of one size\<close>

text \<open>
  When every caller asks for the same size \<^emph>\<open>S\<close>, a whole number of pages, the pool is cut into chunks of
  \<^emph>\<open>S + 4096\<close> bytes. \<^emph>\<open>K\<close> is the set of chunks in use.
\<close>

definition chunk_addr :: "u64 \<Rightarrow> nat \<Rightarrow> nat \<Rightarrow> u64" where
  "chunk_addr pool_base c k = pool_base + of_nat (k * c)"

definition kstack_inv :: "u64 \<Rightarrow> nat \<Rightarrow> nat set \<Rightarrow> kstack_pool \<Rightarrow> bool" where
  "kstack_inv pool_base c K ks \<longleftrightarrow> length (ks_free_list ks) = KSTACK_FREE_LIST_CAP
    \<and> (\<exists>n. unat (ks_next_offset ks) = n * c \<and> (\<forall>k\<in>K. k < n \<and> Suc k * c \<le> unat KSTACK_POOL_SIZE)
        \<and> (\<forall>g\<in>set (ks_free_list ks). g \<noteq> 0 \<longrightarrow>
             (\<exists>k. k < n \<and> Suc k * c \<le> unat KSTACK_POOL_SIZE \<and> k \<notin> K \<and> g = chunk_addr pool_base c k))
        \<and> distinct (filter (\<lambda>g. g \<noteq> 0) (ks_free_list ks)))"

definition pool_placed :: "u64 \<Rightarrow> bool" where
  "pool_placed pool_base \<longleftrightarrow> pool_base \<noteq> 0 \<and> unat pool_base + unat KSTACK_POOL_SIZE < 2 ^ 64"

lemma unat_pool_size [simp]: "unat KSTACK_POOL_SIZE = 2097152"
  by (simp add: KSTACK_POOL_SIZE_def)

lemma kstack_invI:
  assumes "length (ks_free_list ks) = KSTACK_FREE_LIST_CAP" "unat (ks_next_offset ks) = n * c"
    "\<And>k. k \<in> K \<Longrightarrow> k < n \<and> Suc k * c \<le> 2097152"
    "\<And>g. \<lbrakk>g \<in> set (ks_free_list ks); g \<noteq> 0\<rbrakk> \<Longrightarrow>
      \<exists>k. k < n \<and> Suc k * c \<le> 2097152 \<and> k \<notin> K \<and> g = chunk_addr pool_base c k"
    "distinct (filter (\<lambda>g. g \<noteq> 0) (ks_free_list ks))"
  shows "kstack_inv pool_base c K ks"
  unfolding kstack_inv_def unat_pool_size using assms by blast

lemma chunk_addr_unat:
  assumes "pool_placed pool_base" "Suc k * c \<le> 2097152" "0 < c"
  shows "unat (chunk_addr pool_base c k) = unat pool_base + k * c" "chunk_addr pool_base c k \<noteq> 0"
proof -
  have lt: "k * c < 2097152" using assms(2,3) by simp
  then have "unat pool_base + k * c < 2 ^ 64" using assms(1) by (simp add: pool_placed_def)
  moreover have "unat (of_nat (k * c) :: u64) = k * c"
    using lt by (intro unat_of_nat_small) simp
  ultimately show u: "unat (chunk_addr pool_base c k) = unat pool_base + k * c"
    by (simp add: chunk_addr_def unat_word_ariths del: of_nat_mult)
  have "0 < unat pool_base" using assms(1) by (simp add: pool_placed_def unat_gt_0)
  then show "chunk_addr pool_base c k \<noteq> 0" using u by auto
qed

lemma chunk_addr_inj:
  assumes "pool_placed pool_base" "Suc k * c \<le> 2097152" "Suc j * c \<le> 2097152" "0 < c"
    "chunk_addr pool_base c k = chunk_addr pool_base c j"
  shows "k = j"
proof -
  have "k * c = j * c"
    using chunk_addr_unat(1)[OF assms(1,2,4)] chunk_addr_unat(1)[OF assms(1,3,4)] assms(5) by (metis add_left_imp_eq)
  then show ?thesis using assms(4) by simp
qed

lemma distinct_nonzero_take:
  assumes "distinct (filter (\<lambda>g. g \<noteq> 0) xs)" "i < length xs" "xs ! i \<noteq> (0::u64)"
  shows "distinct (filter (\<lambda>g. g \<noteq> 0) (xs[i := 0]))" "xs ! i \<notin> set (xs[i := 0])"
proof -
  have "distinct (filter (\<lambda>g. g \<noteq> 0) (take i xs @ xs ! i # drop (Suc i) xs))"
    using assms(1) by (simp only: id_take_nth_drop[OF assms(2), symmetric])
  then show "distinct (filter (\<lambda>g. g \<noteq> 0) (xs[i := 0]))" "xs ! i \<notin> set (xs[i := 0])"
    using assms(2,3) by (simp_all add: upd_conv_take_nth_drop)
qed

lemma distinct_nonzero_put:
  assumes "distinct (filter (\<lambda>g. g \<noteq> 0) xs)" "i < length xs" "xs ! i = (0::u64)" "g \<notin> set xs"
  shows "distinct (filter (\<lambda>g. g \<noteq> 0) (xs[i := g]))"
proof -
  have "distinct (filter (\<lambda>g. g \<noteq> 0) (take i xs @ xs ! i # drop (Suc i) xs))"
    using assms(1) by (simp only: id_take_nth_drop[OF assms(2), symmetric])
  moreover have "g \<notin> set (take i xs)" "g \<notin> set (drop (Suc i) xs)"
    using assms(4) by (auto dest: in_set_takeD in_set_dropD)
  ultimately show ?thesis using assms(2,3) by (simp add: upd_conv_take_nth_drop)
qed

lemma free_slot_cases:
  assumes "find_index P xs = Some i"
  shows "i < length xs" "P (xs ! i)" "xs ! i \<in> set xs"
  using assms by (auto simp: find_index_Some)

lemma round_up_pages:
  assumes "S = 4096 * p" "0 < S" "S \<le> 2093056"
  shows "checked_add (of_nat S) (KSTACK_PAGE_BYTES - 1) = Some (of_nat (S + 4095) :: u64)"
    "checked_mul ((of_nat (S + 4095) :: u64) div KSTACK_PAGE_BYTES) KSTACK_PAGE_BYTES = Some (of_nat S)"
proof -
  have u: "unat (of_nat S :: u64) = S" "unat (of_nat (S + 4095) :: u64) = S + 4095"
    using assms(3) by (simp_all add: unat_of_nat_small del: of_nat_add)
  show "checked_add (of_nat S) (KSTACK_PAGE_BYTES - 1) = Some (of_nat (S + 4095) :: u64)"
    using u(1) assms(3) by (simp add: checked_add_def kstack_consts)
  have "(S + 4095) div 4096 = p" using assms(1) by simp
  then have d: "unat ((of_nat (S + 4095) :: u64) div KSTACK_PAGE_BYTES) = p"
    using u(2) by (simp add: unat_div kstack_consts del: of_nat_add)
  then have "(of_nat (S + 4095) :: u64) div KSTACK_PAGE_BYTES = of_nat p"
    by (metis of_nat_unat ucast_id)
  then show "checked_mul ((of_nat (S + 4095) :: u64) div KSTACK_PAGE_BYTES) KSTACK_PAGE_BYTES = Some (of_nat S)"
    using d assms(1,3) by (simp add: checked_mul_def kstack_consts mult.commute)
qed

text \<open>Taking a stack off the list of freed ones, and cutting a new one off the pool.\<close>

lemma reuse_keeps_inv:
  assumes inv: "kstack_inv pool_base c K ks" and placed: "pool_placed pool_base" and c: "0 < c"
    and i: "find_index (\<lambda>g. g \<noteq> 0) (ks_free_list ks) = Some i"
  shows "\<exists>k. k \<notin> K \<and> Suc k * c \<le> 2097152 \<and> ks_free_list ks ! i = chunk_addr pool_base c k
    \<and> kstack_inv pool_base c (insert k K) (ks\<lparr>ks_free_list := (ks_free_list ks)[i := 0]\<rparr>)"
proof -
  let ?fl = "ks_free_list ks"
  obtain n where n: "unat (ks_next_offset ks) = n * c" "\<forall>k\<in>K. k < n \<and> Suc k * c \<le> 2097152"
    and free: "\<And>g. g \<in> set ?fl \<Longrightarrow> g \<noteq> 0 \<Longrightarrow>
      \<exists>k. k < n \<and> Suc k * c \<le> 2097152 \<and> k \<notin> K \<and> g = chunk_addr pool_base c k"
    and dist: "distinct (filter (\<lambda>g. g \<noteq> 0) ?fl)" and len: "length ?fl = KSTACK_FREE_LIST_CAP"
    using inv unfolding kstack_inv_def unat_pool_size by blast
  note at = free_slot_cases[OF i]
  obtain k where k: "k < n" "Suc k * c \<le> 2097152" "k \<notin> K" "?fl ! i = chunk_addr pool_base c k"
    using free[OF at(3,2)] by blast
  have rest: "\<exists>j. j < n \<and> Suc j * c \<le> 2097152 \<and> j \<notin> insert k K \<and> g = chunk_addr pool_base c j"
    if g: "g \<in> set (?fl[i := 0])" "g \<noteq> 0" for g
  proof -
    have "g \<in> set ?fl" using g set_update_subset_insert[of ?fl i 0] by auto
    then obtain j where j: "j < n" "Suc j * c \<le> 2097152" "j \<notin> K" "g = chunk_addr pool_base c j"
      using free g(2) by blast
    have "j \<noteq> k" using distinct_nonzero_take(2)[OF dist at(1,2)] g(1) j(4) k(4) by auto
    then show ?thesis using j by blast
  qed
  have "kstack_inv pool_base c (insert k K) (ks\<lparr>ks_free_list := ?fl[i := 0]\<rparr>)"
    unfolding kstack_inv_def unat_pool_size
    using n k(1,2) rest distinct_nonzero_take(1)[OF dist at(1,2)] len by (intro conjI exI[of _ n]) auto
  then show ?thesis using k by blast
qed

lemma bump_keeps_inv:
  assumes inv: "kstack_inv pool_base c K ks" and c: "0 < c" "c \<le> 2097152"
    and room: "unat (ks_next_offset ks) + c < 2 ^ 64"
  shows "\<exists>k. unat (ks_next_offset ks) = k * c \<and> k \<notin> K
      \<and> kstack_inv pool_base c K (ks\<lparr>ks_next_offset := ks_next_offset ks + of_nat c\<rparr>)
      \<and> (Suc k * c \<le> 2097152 \<longrightarrow>
          kstack_inv pool_base c (insert k K) (ks\<lparr>ks_next_offset := ks_next_offset ks + of_nat c\<rparr>))
      \<and> unat (ks_next_offset ks + of_nat c) = Suc k * c"
proof -
  obtain n where n: "unat (ks_next_offset ks) = n * c" "\<forall>k\<in>K. k < n \<and> Suc k * c \<le> 2097152"
    and free: "\<forall>g\<in>set (ks_free_list ks). g \<noteq> 0 \<longrightarrow>
      (\<exists>k. k < n \<and> Suc k * c \<le> 2097152 \<and> k \<notin> K \<and> g = chunk_addr pool_base c k)"
    and dist: "distinct (filter (\<lambda>g. g \<noteq> 0) (ks_free_list ks))"
      "length (ks_free_list ks) = KSTACK_FREE_LIST_CAP"
    using inv unfolding kstack_inv_def unat_pool_size by blast
  have "unat (of_nat c :: u64) = c" using c(2) by (intro unat_of_nat_small) simp
  then have off: "unat (ks_next_offset ks + of_nat c) = Suc n * c"
    using room n(1) by (simp add: unat_word_ariths)
  have notin: "n \<notin> K" using n(2) by blast
  have inv': "kstack_inv pool_base c K' (ks\<lparr>ks_next_offset := ks_next_offset ks + of_nat c\<rparr>)"
    if K': "K' \<subseteq> insert n K" "\<And>k. k \<in> K' \<Longrightarrow> Suc k * c \<le> 2097152" for K'
  proof (rule kstack_invI[where n = "Suc n"], goal_cases)
    case (3 k)
    then have "k = n \<or> k \<in> K" using K'(1) by blast
    then show ?case using K'(2)[OF 3] n(2) by (metis less_SucI lessI)
  next
    case (4 g)
    then obtain k where "k < n" "Suc k * c \<le> 2097152" "k \<notin> K" "g = chunk_addr pool_base c k"
      using free by auto
    then show ?case using K'(1) by (intro exI[of _ k]) auto
  qed (use off dist in simp_all)
  show ?thesis
    by (intro exI[of _ n] conjI impI inv') (use off n notin in auto)
qed

lemma put_back_keeps_inv:
  assumes inv: "kstack_inv pool_base c K ks" and placed: "pool_placed pool_base" and c: "0 < c"
    and k: "k \<in> K" and i: "find_index (\<lambda>g. g = 0) (ks_free_list ks) = Some i"
  shows "kstack_inv pool_base c (K - {k}) (ks\<lparr>ks_free_list := (ks_free_list ks)[i := chunk_addr pool_base c k]\<rparr>)"
proof -
  let ?fl = "ks_free_list ks" and ?g = "chunk_addr pool_base c k"
  obtain n where n: "unat (ks_next_offset ks) = n * c" "\<forall>k\<in>K. k < n \<and> Suc k * c \<le> 2097152"
    and free: "\<And>g. g \<in> set ?fl \<Longrightarrow> g \<noteq> 0 \<Longrightarrow>
      \<exists>k. k < n \<and> Suc k * c \<le> 2097152 \<and> k \<notin> K \<and> g = chunk_addr pool_base c k"
    and dist: "distinct (filter (\<lambda>g. g \<noteq> 0) ?fl)" and len: "length ?fl = KSTACK_FREE_LIST_CAP"
    using inv unfolding kstack_inv_def unat_pool_size by blast
  note at = free_slot_cases[OF i]
  have kb: "k < n" "Suc k * c \<le> 2097152" using n(2) k by auto
  have fresh: "?g \<notin> set ?fl"
  proof
    assume "?g \<in> set ?fl"
    then obtain j where "j \<notin> K" "Suc j * c \<le> 2097152" "?g = chunk_addr pool_base c j"
      using free chunk_addr_unat(2)[OF placed kb(2) c] by blast
    then show False using chunk_addr_inj[OF placed kb(2) _ c] k by blast
  qed
  show ?thesis
  proof (rule kstack_invI[where n = n], goal_cases)
    case (4 g)
    then have "g = ?g \<or> g \<in> set ?fl" using set_update_subset_insert[of ?fl i ?g] by auto
    then show ?case
    proof
      assume "g = ?g"
      then show ?thesis using kb by (intro exI[of _ k]) simp
    next
      assume "g \<in> set ?fl"
      then show ?thesis using free[of g] 4(2) by blast
    qed
  qed (use n distinct_nonzero_put[OF dist at(1,2) fresh] len in auto)
qed

section \<open>What the pool promises\<close>

lemma kstack_pool_new_inv: "kstack_inv pool_base c {} kstack_pool_new"
  by (rule kstack_invI[where n = 0]) (auto simp: kstack_pool_new_def)

definition stack_bytes :: "u64 \<Rightarrow> nat \<Rightarrow> nat set" where
  "stack_bytes base S = {unat base ..< unat base + S}"

lemma chunks_disjoint:
  assumes "pool_placed pool_base" "Suc k * (S + 4096) \<le> 2097152" "Suc j * (S + 4096) \<le> 2097152" "k \<noteq> j"
  shows "stack_bytes (chunk_addr pool_base (S + 4096) k + 4096) S
    \<inter> stack_bytes (chunk_addr pool_base (S + 4096) j + 4096) S = {}"
proof -
  have u: "unat (chunk_addr pool_base (S + 4096) m + 4096) = unat pool_base + m * (S + 4096) + 4096"
    if "Suc m * (S + 4096) \<le> 2097152" for m
    using chunk_addr_unat(1)[OF assms(1) that] that assms(1) by (simp add: unat_word_ariths pool_placed_def)
  have apart: "Suc a * (S + 4096) \<le> b * (S + 4096)" if "a < b" for a b :: nat
    using that by (intro mult_le_mono1) simp
  have sep: "stack_bytes x S \<inter> stack_bytes y S = {}" if "unat x + S \<le> unat y \<or> unat y + S \<le> unat x" for x y
    using that by (auto simp: stack_bytes_def)
  show ?thesis
  proof (rule sep)
    consider "k < j" | "j < k" using assms(4) by linarith
    then show "unat (chunk_addr pool_base (S + 4096) k + 4096) + S \<le> unat (chunk_addr pool_base (S + 4096) j + 4096)
      \<or> unat (chunk_addr pool_base (S + 4096) j + 4096) + S \<le> unat (chunk_addr pool_base (S + 4096) k + 4096)"
      unfolding u[OF assms(2)] u[OF assms(3)]
      by cases (use apart[of k j] apart[of j k] in simp_all)
  qed
qed

lemma allocate_kernel_stack_fresh:
  assumes inv: "kstack_inv pool_base (S + 4096) K ks" and placed: "pool_placed pool_base"
    and S: "S mod 4096 = 0" "0 < S" "S \<le> 2093056"
    and room: "unat (ks_next_offset ks) + (S + 4096) < 2 ^ 64"
    and run: "allocate_kernel_stack unmap_guard pool_base (of_nat S) ks = (r, ks')"
  shows "case r of None \<Rightarrow> kstack_inv pool_base (S + 4096) K ks'
    | Some base \<Rightarrow> \<exists>k. k \<notin> K \<and> Suc k * (S + 4096) \<le> 2097152
        \<and> base = chunk_addr pool_base (S + 4096) k + 4096 \<and> kstack_inv pool_base (S + 4096) (insert k K) ks'"
proof -
  let ?c = "S + 4096"
  obtain p where p: "S = 4096 * p" using S(1) by (auto elim: dvdE)
  have uS: "unat (of_nat S :: u64) = S" using S(3) by (intro unat_of_nat_small) simp
  have sz: "\<not> ((of_nat S :: u64) = 0 \<or> of_nat S > saturating_sub KSTACK_POOL_SIZE KSTACK_GUARD_BYTES)"
    using uS S(2,3) by (auto simp: word_less_nat_alt saturating_sub_def kstack_consts)
  have alloc: "checked_add (of_nat S) KSTACK_GUARD_BYTES = Some (of_nat ?c :: u64)"
    using uS S(3) by (simp add: checked_add_def kstack_consts)
  have up: "checked_add (chunk_addr pool_base ?c k) KSTACK_GUARD_BYTES = Some (chunk_addr pool_base ?c k + 4096)"
    if "Suc k * ?c \<le> 2097152" for k
    using chunk_addr_unat(1)[OF placed that] that placed
    by (simp add: checked_add_def kstack_consts pool_placed_def)
  have eq: "allocate_kernel_stack unmap_guard pool_base (of_nat S) ks =
    (case find_index (\<lambda>g. g \<noteq> 0) (ks_free_list ks) of
       Some i \<Rightarrow>
         (checked_add (ks_free_list ks ! i) KSTACK_GUARD_BYTES, ks\<lparr>ks_free_list := (ks_free_list ks)[i := 0]\<rparr>)
     | None \<Rightarrow>
         let off = ks_next_offset ks; ks' = ks\<lparr>ks_next_offset := off + of_nat ?c\<rparr>
         in if off + of_nat ?c > KSTACK_POOL_SIZE then (None, ks')
            else case checked_add pool_base off of None \<Rightarrow> (None, ks') | Some guard_addr \<Rightarrow>
              if \<not> unmap_guard guard_addr then (None, ks')
              else (checked_add guard_addr KSTACK_GUARD_BYTES, ks'))"
    unfolding allocate_kernel_stack_def if_not_P[OF sz] round_up_pages[OF p S(2,3)] option.case alloc ..
  show ?thesis
  proof (cases "find_index (\<lambda>g. g \<noteq> 0) (ks_free_list ks)")
    case (Some i)
    obtain k where "k \<notin> K" "Suc k * ?c \<le> 2097152" "ks_free_list ks ! i = chunk_addr pool_base ?c k"
      "kstack_inv pool_base ?c (insert k K) (ks\<lparr>ks_free_list := (ks_free_list ks)[i := 0]\<rparr>)"
      using reuse_keeps_inv[OF inv placed _ Some] by auto
    moreover from this have "r = Some (chunk_addr pool_base ?c k + 4096)"
      "ks' = ks\<lparr>ks_free_list := (ks_free_list ks)[i := 0]\<rparr>"
      using run up[of k] unfolding eq Some by auto
    ultimately show ?thesis by auto
  next
    case None
    obtain k where k: "unat (ks_next_offset ks) = k * ?c" "k \<notin> K"
      "kstack_inv pool_base ?c K (ks\<lparr>ks_next_offset := ks_next_offset ks + of_nat ?c\<rparr>)"
      "Suc k * ?c \<le> 2097152 \<Longrightarrow>
         kstack_inv pool_base ?c (insert k K) (ks\<lparr>ks_next_offset := ks_next_offset ks + of_nat ?c\<rparr>)"
      "unat (ks_next_offset ks + of_nat ?c) = Suc k * ?c"
      using bump_keeps_inv[OF inv _ _ room] S(3) by auto
    have off: "ks_next_offset ks = of_nat (k * ?c)" using k(1) by (metis of_nat_unat ucast_id)
    have gt: "ks_next_offset ks + of_nat ?c > KSTACK_POOL_SIZE \<longleftrightarrow> \<not> Suc k * ?c \<le> 2097152"
      unfolding word_less_nat_alt k(5) by auto
    have guard: "checked_add pool_base (ks_next_offset ks) = Some (chunk_addr pool_base ?c k)"
      if "Suc k * ?c \<le> 2097152"
      using that k(1) placed off by (simp add: checked_add_def chunk_addr_def pool_placed_def)
    show ?thesis
    proof (cases "Suc k * ?c \<le> 2097152")
      case True
      show ?thesis
        using run k(2,3) k(4)[OF True]
        unfolding eq None option.case Let_def gt guard[OF True] up[OF True]
        using True by (auto split: if_splits)
    next
      case False
      show ?thesis using run k(3) unfolding eq None option.case Let_def gt using False by auto
    qed
  qed
qed

lemma free_kernel_stack_keeps:
  assumes inv: "kstack_inv pool_base c K ks" and placed: "pool_placed pool_base"
    and c4: "4096 \<le> c" and k: "k \<in> K" "Suc k * c \<le> 2097152"
  shows "kstack_inv pool_base c (K - {k}) (free_kernel_stack pool_base (chunk_addr pool_base c k + 4096) ks)"
proof -
  have c: "0 < c" using c4 by simp
  let ?g = "chunk_addr pool_base c k"
  have ug: "unat ?g = unat pool_base + k * c" by (rule chunk_addr_unat(1)[OF placed k(2) c])
  have "k * c < 2097152" using k(2) c by simp
  then have u: "unat (?g + 4096) = unat ?g + 4096" "unat (pool_base + KSTACK_POOL_SIZE) = unat pool_base + 2097152"
    using ug placed k(2) c4 by (auto simp: unat_word_ariths pool_placed_def)
  have nz: "?g + 4096 \<noteq> 0" using u(1) by (metis add_eq_0_iff_both_eq_0 unat_0 zero_neq_numeral)
  have sub: "checked_sub (?g + 4096) KSTACK_GUARD_BYTES = Some ?g"
    using u(1) by (simp add: checked_sub_def kstack_consts word_le_nat_alt)
  have range: "\<not> (?g < pool_base \<or> ?g \<ge> pool_base + KSTACK_POOL_SIZE)"
    using ug u(2) \<open>k * c < 2097152\<close> by (simp add: word_less_nat_alt word_le_nat_alt)
  have leak: "kstack_inv pool_base c (K - {k}) ks"
  proof -
    have "K - {k} \<subseteq> K" by blast
    then show ?thesis using inv unfolding kstack_inv_def by blast
  qed
  show ?thesis
    unfolding free_kernel_stack_def if_not_P[OF nz] sub option.case if_not_P[OF range]
    using leak put_back_keeps_inv[OF inv placed c k(1)] by (auto split: option.splits)
qed

text \<open>
  The histories of the pool when all stacks have \<^emph>\<open>S\<close> bytes: \<^emph>\<open>L\<close> holds the stacks in use. The side
  condition says that the offset counter, which failed requests advance too, has not wrapped around.
\<close>

inductive kstack_reach :: "(u64 \<Rightarrow> bool) \<Rightarrow> u64 \<Rightarrow> nat \<Rightarrow> u64 list \<Rightarrow> kstack_pool \<Rightarrow> bool"
  for unmap_guard pool_base S where
  new: "kstack_reach unmap_guard pool_base S [] kstack_pool_new"
| alloc: "\<lbrakk>kstack_reach unmap_guard pool_base S L ks; unat (ks_next_offset ks) + (S + 4096) < 2 ^ 64;
    allocate_kernel_stack unmap_guard pool_base (of_nat S) ks = (r, ks')\<rbrakk> \<Longrightarrow>
    kstack_reach unmap_guard pool_base S (case r of None \<Rightarrow> L | Some base \<Rightarrow> base # L) ks'"
| free: "\<lbrakk>kstack_reach unmap_guard pool_base S L ks; base \<in> set L\<rbrakk> \<Longrightarrow>
    kstack_reach unmap_guard pool_base S (remove1 base L) (free_kernel_stack pool_base base ks)"

definition stack_of :: "u64 \<Rightarrow> nat \<Rightarrow> nat \<Rightarrow> u64" where
  "stack_of pool_base S k = chunk_addr pool_base (S + 4096) k + 4096"

lemma remove1_map_index:
  assumes "distinct is" "k \<in> set is" "inj_on f (set is)"
  shows "remove1 (f k) (map f is) = map f (remove1 k is)"
  using assms
proof (induction "is")
  case (Cons i "is")
  have "f i = f k \<longleftrightarrow> i = k" using Cons.prems by (auto simp: inj_on_def)
  then show ?case using Cons by (auto simp: inj_on_def)
qed simp

lemma kstack_reach_inv:
  assumes "kstack_reach unmap_guard pool_base S L ks" "pool_placed pool_base"
    "S mod 4096 = 0" "0 < S" "S \<le> 2093056"
  shows "\<exists>is. L = map (stack_of pool_base S) is \<and> distinct is
    \<and> (\<forall>k\<in>set is. Suc k * (S + 4096) \<le> 2097152) \<and> kstack_inv pool_base (S + 4096) (set is) ks"
  using assms(1)
proof induction
  case new
  then show ?case using kstack_pool_new_inv by auto
next
  case (alloc L ks r ks')
  obtain "is" where "is": "L = map (stack_of pool_base S) is" "distinct is"
    "\<forall>k\<in>set is. Suc k * (S + 4096) \<le> 2097152" "kstack_inv pool_base (S + 4096) (set is) ks"
    using alloc.IH by blast
  note step = allocate_kernel_stack_fresh[OF "is"(4) assms(2-5) alloc.hyps(2,3)]
  show ?case
  proof (cases r)
    case None
    then show ?thesis using step "is" by auto
  next
    case (Some base)
    then obtain k where k: "k \<notin> set is" "Suc k * (S + 4096) \<le> 2097152" "base = stack_of pool_base S k"
      "kstack_inv pool_base (S + 4096) (insert k (set is)) ks'"
      using step unfolding stack_of_def by auto
    show ?thesis
      by (rule exI[of _ "k # is"]) (use k "is" Some in auto)
  qed
next
  case (free L ks base)
  obtain "is" where "is": "L = map (stack_of pool_base S) is" "distinct is"
    "\<forall>k\<in>set is. Suc k * (S + 4096) \<le> 2097152" "kstack_inv pool_base (S + 4096) (set is) ks"
    using free.IH by blast
  obtain k where k: "k \<in> set is" "base = stack_of pool_base S k" using "is"(1) free.hyps(2) by auto
  have inj: "inj_on (stack_of pool_base S) (set is)"
  proof (rule inj_onI)
    fix x y
    assume "x \<in> set is" "y \<in> set is" "stack_of pool_base S x = stack_of pool_base S y"
    then show "x = y"
      using chunk_addr_inj[OF assms(2), of x "S + 4096" y] "is"(3) unfolding stack_of_def by simp
  qed
  have "kstack_inv pool_base (S + 4096) (set is - {k}) (free_kernel_stack pool_base base ks)"
    unfolding k(2) stack_of_def
    by (rule free_kernel_stack_keeps[OF "is"(4) assms(2) _ k(1)]) (use "is"(3) k(1) in auto)
  then show ?case
    by (intro exI[of _ "remove1 k is"])
      (use "is" k remove1_map_index[OF "is"(2) k(1) inj] in \<open>auto simp: set_remove1_eq distinct_remove1\<close>)
qed

text \<open>
  C33. As long as every kernel stack is asked for with the same size, the stacks in use never overlap and all of
  them lie inside the pool, whatever the order of allocations and frees.
\<close>

theorem kernel_stacks_disjoint:
  assumes "kstack_reach unmap_guard pool_base S L ks" "pool_placed pool_base"
    "S mod 4096 = 0" "0 < S" "S \<le> 2093056" "i < length L" "j < length L" "i \<noteq> j"
  shows "stack_bytes (L ! i) S \<inter> stack_bytes (L ! j) S = {}
    \<and> stack_bytes (L ! i) S \<subseteq> {unat pool_base ..< unat pool_base + unat KSTACK_POOL_SIZE}"
proof -
  obtain "is" where "is": "L = map (stack_of pool_base S) is" "distinct is"
    "\<forall>k\<in>set is. Suc k * (S + 4096) \<le> 2097152"
    using kstack_reach_inv[OF assms(1-5)] by blast
  have ij: "i < length is" "j < length is" using assms(6,7) "is"(1) by simp_all
  have b: "Suc (is ! i) * (S + 4096) \<le> 2097152" "Suc (is ! j) * (S + 4096) \<le> 2097152"
    using "is"(3) nth_mem[OF ij(1)] nth_mem[OF ij(2)] by blast+
  have ne: "is ! i \<noteq> is ! j" using "is"(2) ij assms(8) by (simp add: nth_eq_iff_index_eq)
  have nth: "L ! i = stack_of pool_base S (is ! i)" "L ! j = stack_of pool_base S (is ! j)"
    using ij "is"(1) by simp_all
  have "unat (L ! i) = unat pool_base + (is ! i) * (S + 4096) + 4096"
    using chunk_addr_unat(1)[OF assms(2) b(1)] b(1) assms(2)
    by (simp add: nth(1) stack_of_def unat_word_ariths pool_placed_def)
  then have "stack_bytes (L ! i) S \<subseteq> {unat pool_base ..< unat pool_base + 2097152}"
    using b(1) by (auto simp: stack_bytes_def)
  then show ?thesis
    using chunks_disjoint[OF assms(2) b ne] unfolding nth stack_of_def by simp
qed

lemma find_index_replicate: "find_index P (replicate n x) = (if 0 < n \<and> P x then Some 0 else None)"
  by (cases n) (simp_all add: find_index_def find_index_from_None)

lemma find_index_head: "0 < n \<Longrightarrow> P y \<Longrightarrow> find_index P ((replicate n x)[0 := y]) = Some 0"
  by (cases n) (simp_all add: find_index_def)

lemmas kstack_eval = allocate_kernel_stack_def free_kernel_stack_def kstack_pool_new_def kstack_consts
  KSTACK_FREE_LIST_CAP_def checked_add_def checked_sub_def checked_mul_def saturating_sub_def Let_def
  find_index_replicate find_index_head

theorem kernel_stacks_disjoint_witness:
  "stack_bytes 0x206000 16384 \<inter> stack_bytes 0x201000 16384 = {}"
proof -
  let ?r = "kstack_reach (\<lambda>_. True) 0x200000 16384"
  let ?p1 = "kstack_pool_new\<lparr>ks_next_offset := 0x5000\<rparr>" and ?p2 = "kstack_pool_new\<lparr>ks_next_offset := 0xa000\<rparr>"
  have placed: "pool_placed 0x200000" by (simp add: pool_placed_def)
  have a: "allocate_kernel_stack (\<lambda>_. True) 0x200000 (of_nat 16384) kstack_pool_new = (Some 0x201000, ?p1)"
    "allocate_kernel_stack (\<lambda>_. True) 0x200000 (of_nat 16384) ?p1 = (Some 0x206000, ?p2)"
    by (simp_all add: kstack_eval)
  have "?r [0x201000] ?p1"
    using kstack_reach.alloc[OF kstack_reach.new _ a(1)] by (simp add: kstack_pool_new_def)
  then have "?r [0x206000, 0x201000] ?p2" using kstack_reach.alloc[OF _ _ a(2)] by fastforce
  from kernel_stacks_disjoint[OF this placed, of 0 1] show ?thesis by simp
qed


end
