(* ===== verification/Wait_Queue.thy ===== *)
theory Wait_Queue
  imports Slot_Table Ids
begin

text \<open>
  The queues of sleeping threads (\<^verbatim>\<open>src/src/core/syscall/time.rs\<close>) and of futex waiters
  (\<^verbatim>\<open>src/src/core/syscall/process.rs\<close>): arrays of 64 optional entries, one entry per thread. The scan that a
  timer tick makes over either array is \<^emph>\<open>take_due\<close>; it returns the array and the list of threads to wake,
  whose capacity is that of the source's local array.
\<close>

section \<open>Operations\<close>

record sleep_entry =
  sl_tid :: thread_id
  sl_wake_tick :: u64

record futex_wait_entry =
  fw_tid :: thread_id
  fw_uaddr :: u64
  fw_wake_tick :: u64

definition MAX_SLEEPERS :: nat where "MAX_SLEEPERS = 64"
definition MAX_FUTEX_WAITERS :: nat where "MAX_FUTEX_WAITERS = 64"
definition NO_TIMEOUT_WAKE_TICK :: u64 where "NO_TIMEOUT_WAKE_TICK = - 1"

type_synonym sleep_queue = "sleep_entry option list"
type_synonym futex_queue = "futex_wait_entry option list"

definition sleep_queue_new :: sleep_queue where
  "sleep_queue_new = replicate MAX_SLEEPERS None"

definition futex_queue_new :: futex_queue where
  "futex_queue_new = replicate MAX_FUTEX_WAITERS None"

definition slot_holds :: "('e \<Rightarrow> bool) \<Rightarrow> 'e option \<Rightarrow> bool" where
  "slot_holds P slot = (case slot of Some e \<Rightarrow> P e | None \<Rightarrow> False)"

definition register_sleep_entry :: "thread_id \<Rightarrow> u64 \<Rightarrow> sleep_queue \<Rightarrow> bool \<times> sleep_queue" where
  "register_sleep_entry tid wake_tick q =
    (let entry = \<lparr>sl_tid = tid, sl_wake_tick = wake_tick\<rparr>
     in case find_index (slot_holds (\<lambda>e. sl_tid e = tid)) q of
          Some i \<Rightarrow> (True, q[i := Some entry])
        | None \<Rightarrow> (case find_index (\<lambda>slot. slot = None) q of
              Some i \<Rightarrow> (True, q[i := Some entry])
            | None \<Rightarrow> (False, q)))"

definition register_futex_waiter :: "thread_id \<Rightarrow> u64 \<Rightarrow> u64 \<Rightarrow> futex_queue \<Rightarrow> bool \<times> futex_queue" where
  "register_futex_waiter tid uaddr wake_tick q =
    (case find_index (slot_holds (\<lambda>e. fw_tid e = tid)) q of
       Some i \<Rightarrow> (False, q)
     | None \<Rightarrow> (case find_index (\<lambda>slot. slot = None) q of
           Some i \<Rightarrow> (True, q[i := Some \<lparr>fw_tid = tid, fw_uaddr = uaddr, fw_wake_tick = wake_tick\<rparr>])
         | None \<Rightarrow> (False, q)))"

definition futex_waiter_exists :: "futex_queue \<Rightarrow> thread_id \<Rightarrow> u64 \<Rightarrow> bool" where
  "futex_waiter_exists q tid uaddr \<longleftrightarrow> (\<exists>e\<in>set (live q). fw_tid e = tid \<and> fw_uaddr e = uaddr)"

definition remove_futex_waiter_by_tid :: "thread_id \<Rightarrow> futex_queue \<Rightarrow> bool \<times> futex_queue" where
  "remove_futex_waiter_by_tid tid q =
    (case slot_take (\<lambda>e. fw_tid e = tid) q of None \<Rightarrow> (False, q) | Some (_, q') \<Rightarrow> (True, q'))"

fun take_due :: "nat \<Rightarrow> ('e \<Rightarrow> bool) \<Rightarrow> ('e \<Rightarrow> thread_id) \<Rightarrow> 'e option list \<Rightarrow> thread_id list \<Rightarrow> 'e option list \<times> thread_id list" where
  "take_due cap due tid [] woken = ([], woken)"
| "take_due cap due tid (None # slots) woken = apfst (Cons None) (take_due cap due tid slots woken)"
| "take_due cap due tid (Some e # slots) woken =
    (if due e then
       apfst (Cons None) (take_due cap due tid slots (if length woken < cap then woken @ [tid e] else woken))
     else apfst (Cons (Some e)) (take_due cap due tid slots woken))"

definition sleeper_due :: "u64 \<Rightarrow> sleep_entry \<Rightarrow> bool" where
  "sleeper_due now_tick e \<longleftrightarrow> now_tick \<ge> sl_wake_tick e"

definition take_due_sleepers :: "u64 \<Rightarrow> sleep_queue \<Rightarrow> sleep_queue \<times> thread_id list" where
  "take_due_sleepers now_tick q = take_due MAX_SLEEPERS (sleeper_due now_tick) sl_tid q []"

definition futex_due :: "u64 \<Rightarrow> futex_wait_entry \<Rightarrow> bool" where
  "futex_due now_tick e \<longleftrightarrow> fw_wake_tick e \<noteq> NO_TIMEOUT_WAKE_TICK \<and> now_tick \<ge> fw_wake_tick e"

definition take_due_futex_waiters :: "u64 \<Rightarrow> futex_queue \<Rightarrow> futex_queue \<times> thread_id list" where
  "take_due_futex_waiters now_tick q = take_due MAX_FUTEX_WAITERS (futex_due now_tick) fw_tid q []"

text \<open>The scan of \<^emph>\<open>FUTEX_WAKE\<close>: take waiters of one address in slot order until enough are taken.\<close>

fun take_futex_waiters :: "nat \<Rightarrow> u64 \<Rightarrow> futex_queue \<Rightarrow> thread_id list \<Rightarrow> futex_queue \<times> thread_id list" where
  "take_futex_waiters max_wake uaddr [] woken = ([], woken)"
| "take_futex_waiters max_wake uaddr (slot # slots) woken =
    (if max_wake \<le> length woken then (slot # slots, woken)
     else case slot of
       None \<Rightarrow> apfst (Cons None) (take_futex_waiters max_wake uaddr slots woken)
     | Some e \<Rightarrow>
         if fw_uaddr e = uaddr
         then apfst (Cons None) (take_futex_waiters max_wake uaddr slots (woken @ [fw_tid e]))
         else apfst (Cons (Some e)) (take_futex_waiters max_wake uaddr slots woken))"

section \<open>The interface of a queue of waiters\<close>

text \<open>The threads that scans at a sequence of ticks wake.\<close>

fun wakeups :: "(u64 \<Rightarrow> 'q \<Rightarrow> 'q \<times> thread_id list) \<Rightarrow> 'q \<Rightarrow> u64 list \<Rightarrow> thread_id list list" where
  "wakeups take_at q [] = []"
| "wakeups take_at q (now # nows) = snd (take_at now q) # wakeups take_at (fst (take_at now q)) nows"

lemma length_wakeups [simp]: "length (wakeups take_at q nows) = length nows"
  by (induction nows arbitrary: q) auto


text \<open>
  A queue maps threads to their entries. A scan at tick \<^emph>\<open>now\<close> takes out the threads whose entry is due, each
  one once, and leaves the rest as it was.
\<close>

locale timed_waiters =
  fixes waiting :: "'q \<Rightarrow> thread_id \<Rightarrow> 'e option"
    and take_at :: "u64 \<Rightarrow> 'q \<Rightarrow> 'q \<times> thread_id list"
    and due :: "u64 \<Rightarrow> 'e \<Rightarrow> bool"
    and wf :: "'q \<Rightarrow> bool"
  assumes take_at_wf: "\<lbrakk>wf q; take_at now q = (q', ts)\<rbrakk> \<Longrightarrow> wf q'"
    and take_at_woken: "\<lbrakk>wf q; take_at now q = (q', ts)\<rbrakk> \<Longrightarrow>
      distinct ts \<and> set ts = {tid. \<exists>e. waiting q tid = Some e \<and> due now e}"
    and take_at_rest: "\<lbrakk>wf q; take_at now q = (q', ts)\<rbrakk> \<Longrightarrow>
      waiting q' tid = (case waiting q tid of Some e \<Rightarrow> if due now e then None else Some e | None \<Rightarrow> None)"
begin

lemma not_waiting_not_woken:
  "\<lbrakk>wf q; waiting q tid = None; i < length nows\<rbrakk> \<Longrightarrow> tid \<notin> set (wakeups take_at q nows ! i)"
proof (induction nows arbitrary: q i)
  case (Cons now nows)
  obtain q' ts where t: "take_at now q = (q', ts)" by fastforce
  note laws = take_at_wf[OF Cons.prems(1) t] take_at_woken[OF Cons.prems(1) t]
    take_at_rest[OF Cons.prems(1) t, of tid]
  show ?case
  proof (cases i)
    case 0
    then show ?thesis using laws Cons.prems t by simp
  next
    case (Suc j)
    then show ?thesis using Cons.IH[of q' j] laws Cons.prems t by simp
  qed
qed simp

lemma woken_exactly_when_due:
  assumes "wf q" "waiting q tid = Some e" "i < length nows"
  shows "tid \<in> set (wakeups take_at q nows ! i) \<longleftrightarrow> due (nows ! i) e \<and> (\<forall>j < i. \<not> due (nows ! j) e)"
  using assms
proof (induction nows arbitrary: q i)
  case (Cons now nows)
  obtain q' ts where t: "take_at now q = (q', ts)" by fastforce
  note wf' = take_at_wf[OF Cons.prems(1) t]
  note woken = take_at_woken[OF Cons.prems(1) t]
  note rest = take_at_rest[OF Cons.prems(1) t, of tid]
  show ?case
  proof (cases i)
    case 0
    then show ?thesis using woken Cons.prems t by simp
  next
    case (Suc j)
    have all: "(\<forall>k < i. \<not> due ((now # nows) ! k) e) \<longleftrightarrow> \<not> due now e \<and> (\<forall>k < j. \<not> due (nows ! k) e)"
      using Suc by (auto simp: less_Suc_eq_0_disj)
    show ?thesis
    proof (cases "due now e")
      case True
      then have "waiting q' tid = None" using rest Cons.prems(2) by simp
      then show ?thesis using not_waiting_not_woken[OF wf', of tid j nows] all True Suc Cons.prems(3) t by simp
    next
      case False
      then have "waiting q' tid = Some e" using rest Cons.prems(2) by simp
      then show ?thesis using Cons.IH[OF wf', of j] all False Suc Cons.prems(3) t by simp
    qed
  qed
qed simp

end

section \<open>Both queues provide it\<close>

definition keep_unless :: "('e \<Rightarrow> bool) \<Rightarrow> 'e option \<Rightarrow> 'e option" where
  "keep_unless due slot = (case slot of Some e \<Rightarrow> if due e then None else Some e | None \<Rightarrow> None)"

lemma take_due_eq:
  "length woken + occupied slots \<le> cap \<Longrightarrow>
    take_due cap due tid slots woken = (map (keep_unless due) slots, woken @ map tid (filter due (live slots)))"
  by (induction cap due tid slots woken rule: take_due.induct) (auto simp: occupied_def keep_unless_def)

lemma live_keep_unless: "live (map (keep_unless due) slots) = filter (\<lambda>e. \<not> due e) (live slots)"
  by (induction slots rule: live.induct) (auto simp: keep_unless_def)

lemma occupied_keep_unless: "occupied (map (keep_unless due) slots) \<le> occupied slots"
  by (simp flip: length_live add: live_keep_unless)

lemma keys_distinct_keep_unless: "keys_distinct key slots \<Longrightarrow> keys_distinct key (map (keep_unless due) slots)"
  by (simp add: keys_distinct_def live_keep_unless distinct_map_filter)

lemma lookup_keep_unless:
  assumes "keys_distinct key slots"
  shows "lookup key (map (keep_unless due) slots) k =
    (case lookup key slots k of Some e \<Rightarrow> if due e then None else Some e | None \<Rightarrow> None)"
proof (cases "lookup key slots k")
  case None
  then have "k \<notin> key ` set (live (map (keep_unless due) slots))"
    by (auto simp: lookup_None_iff live_keep_unless)
  then show ?thesis using None by (simp flip: lookup_None_iff)
next
  case (Some e)
  then have e: "e \<in> set (live slots)" "key e = k" using lookup_Some_iff[OF assms] by blast+
  show ?thesis
  proof (cases "due e")
    case True
    have "k \<notin> key ` set (live (map (keep_unless due) slots))"
    proof
      assume "k \<in> key ` set (live (map (keep_unless due) slots))"
      then obtain u where "u \<in> set (live slots)" "\<not> due u" "key u = k" by (auto simp: live_keep_unless)
      then show False using True Some lookup_Some_iff[OF assms, of k u] by simp
    qed
    then show ?thesis using Some True by (simp flip: lookup_None_iff)
  next
    case False
    then show ?thesis
      using Some e lookup_Some_iff[OF keys_distinct_keep_unless[OF assms]] by (simp add: live_keep_unless)
  qed
qed

lemma due_tids:
  assumes "keys_distinct key slots"
  shows "set (map key (filter due (live slots))) = {k. \<exists>e. lookup key slots k = Some e \<and> due e}"
    "distinct (map key (filter due (live slots)))"
  using assms lookup_Some_iff[OF assms]
  by (auto simp: keys_distinct_def distinct_map_filter)

definition sleep_queue_wf :: "sleep_queue \<Rightarrow> bool" where
  "sleep_queue_wf q \<longleftrightarrow> length q = MAX_SLEEPERS \<and> keys_distinct sl_tid q"

definition futex_queue_wf :: "futex_queue \<Rightarrow> bool" where
  "futex_queue_wf q \<longleftrightarrow> length q = MAX_FUTEX_WAITERS \<and> keys_distinct fw_tid q"

lemma take_due_sleepers_eq:
  assumes "sleep_queue_wf q"
  shows "take_due_sleepers now q =
    (map (keep_unless (sleeper_due now)) q, map sl_tid (filter (sleeper_due now) (live q)))"
  using assms occupied_le_length[of q]
  by (simp add: take_due_sleepers_def take_due_eq sleep_queue_wf_def)

lemma take_due_futex_eq:
  assumes "futex_queue_wf q"
  shows "take_due_futex_waiters now q =
    (map (keep_unless (futex_due now)) q, map fw_tid (filter (futex_due now) (live q)))"
  using assms occupied_le_length[of q]
  by (simp add: take_due_futex_waiters_def take_due_eq futex_queue_wf_def)

interpretation sleepers: timed_waiters "lookup sl_tid" take_due_sleepers sleeper_due sleep_queue_wf
proof
  fix q q' :: sleep_queue and now ts tid
  assume wf: "sleep_queue_wf q" and "take_due_sleepers now q = (q', ts)"
  then have eq: "q' = map (keep_unless (sleeper_due now)) q" "ts = map sl_tid (filter (sleeper_due now) (live q))"
    by (simp_all add: take_due_sleepers_eq)
  have kd: "keys_distinct sl_tid q" using wf by (simp add: sleep_queue_wf_def)
  show "sleep_queue_wf q'" using wf eq(1) keys_distinct_keep_unless[OF kd] by (simp add: sleep_queue_wf_def)
  show "distinct ts \<and> set ts = {tid. \<exists>e. lookup sl_tid q tid = Some e \<and> sleeper_due now e}"
    unfolding eq(2) using due_tids[OF kd] by blast
  show "lookup sl_tid q' tid =
      (case lookup sl_tid q tid of None \<Rightarrow> None | Some e \<Rightarrow> if sleeper_due now e then None else Some e)"
    unfolding eq(1) lookup_keep_unless[OF kd] by (simp split: option.split)
qed

interpretation futex_waiters: timed_waiters "lookup fw_tid" take_due_futex_waiters futex_due futex_queue_wf
proof
  fix q q' :: futex_queue and now ts tid
  assume wf: "futex_queue_wf q" and "take_due_futex_waiters now q = (q', ts)"
  then have eq: "q' = map (keep_unless (futex_due now)) q" "ts = map fw_tid (filter (futex_due now) (live q))"
    by (simp_all add: take_due_futex_eq)
  have kd: "keys_distinct fw_tid q" using wf by (simp add: futex_queue_wf_def)
  show "futex_queue_wf q'" using wf eq(1) keys_distinct_keep_unless[OF kd] by (simp add: futex_queue_wf_def)
  show "distinct ts \<and> set ts = {tid. \<exists>e. lookup fw_tid q tid = Some e \<and> futex_due now e}"
    unfolding eq(2) using due_tids[OF kd] by blast
  show "lookup fw_tid q' tid =
      (case lookup fw_tid q tid of None \<Rightarrow> None | Some e \<Rightarrow> if futex_due now e then None else Some e)"
    unfolding eq(1) lookup_keep_unless[OF kd] by (simp split: option.split)
qed

section \<open>Registering and waking\<close>

lemma holder_index:
  "find_index (slot_holds (\<lambda>e. key e = k)) slots = None \<longleftrightarrow> lookup key slots k = None"
  by (auto simp: find_index_None lookup_None_iff set_live slot_holds_def image_iff split: option.splits)

lemma replace_slot:
  assumes "keys_distinct key slots" "i < length slots" "slots ! i = Some e" "key e' = key e"
  shows "keys_distinct key (slots[i := Some e'])" "lookup key (slots[i := Some e']) = (lookup key slots)(key e \<mapsto> e')"
proof -
  let ?c = "slots[i := None]"
  note clear = clear_slot[OF assms(1-3)]
  have "i < length ?c" "?c ! i = None" "lookup key ?c (key e') = None"
    using assms(2,4) clear(2) by simp_all
  from insert_slot[OF clear(1) this] show "keys_distinct key (slots[i := Some e'])"
    "lookup key (slots[i := Some e']) = (lookup key slots)(key e \<mapsto> e')"
    using assms(4) clear(2) by auto
qed

lemma register_sleep_entry_correct:
  assumes wf: "sleep_queue_wf q" and reg: "register_sleep_entry tid wake q = (ok, q')"
  shows "sleep_queue_wf q'"
    "ok \<Longrightarrow> lookup sl_tid q' = (lookup sl_tid q)(tid \<mapsto> \<lparr>sl_tid = tid, sl_wake_tick = wake\<rparr>)"
    "\<not> ok \<longleftrightarrow> lookup sl_tid q tid = None \<and> occupied q = MAX_SLEEPERS"
    "\<not> ok \<Longrightarrow> q' = q"
proof -
  let ?e = "\<lparr>sl_tid = tid, sl_wake_tick = wake\<rparr>"
  have kd: "keys_distinct sl_tid q" and len: "length q = MAX_SLEEPERS"
    using wf by (simp_all add: sleep_queue_wf_def)
  have full: "find_index (\<lambda>slot. slot = None) q = None \<longleftrightarrow> occupied q = MAX_SLEEPERS"
    using occupied_full[of q] len by (simp add: find_index_None all_set_conv_all_nth)
  consider (again) i where "find_index (slot_holds (\<lambda>e. sl_tid e = tid)) q = Some i"
    | (fresh) i where "lookup sl_tid q tid = None" "find_index (\<lambda>slot. slot = None) q = Some i"
    | (full) "lookup sl_tid q tid = None" "find_index (\<lambda>slot. slot = None) q = None"
    using holder_index[of sl_tid tid q] by (cases "find_index (slot_holds (\<lambda>e. sl_tid e = tid)) q") auto
  then have "sleep_queue_wf q' \<and> (ok \<longrightarrow> lookup sl_tid q' = (lookup sl_tid q)(tid \<mapsto> ?e))
    \<and> (\<not> ok \<longleftrightarrow> lookup sl_tid q tid = None \<and> occupied q = MAX_SLEEPERS) \<and> (\<not> ok \<longrightarrow> q' = q)"
  proof cases
    case again
    then obtain e where e: "i < length q" "q ! i = Some e" "sl_tid e = tid"
      by (auto simp: find_index_Some slot_holds_def split: option.splits)
    have "lookup sl_tid q tid \<noteq> None" using again holder_index[of sl_tid tid q] by simp
    then show ?thesis
      using again reg replace_slot[OF kd e(1,2), of ?e] e(3) len
      by (auto simp: register_sleep_entry_def sleep_queue_wf_def)
  next
    case fresh
    then have i: "i < length q" "q ! i = None" by (auto simp: find_index_Some)
    show ?thesis
      using fresh reg insert_slot[OF kd i, of ?e] len full holder_index[of sl_tid tid q]
      by (auto simp: register_sleep_entry_def sleep_queue_wf_def)
  next
    case full
    then show ?thesis
      using reg wf \<open>(find_index (\<lambda>slot. slot = None) q = None) = (occupied q = MAX_SLEEPERS)\<close>
        holder_index[of sl_tid tid q]
      by (auto simp: register_sleep_entry_def)
  qed
  then show "sleep_queue_wf q'"
    "ok \<Longrightarrow> lookup sl_tid q' = (lookup sl_tid q)(tid \<mapsto> ?e)"
    "\<not> ok \<longleftrightarrow> lookup sl_tid q tid = None \<and> occupied q = MAX_SLEEPERS"
    "\<not> ok \<Longrightarrow> q' = q" by auto
qed

lemma register_futex_waiter_correct:
  assumes wf: "futex_queue_wf q" and reg: "register_futex_waiter tid uaddr wake q = (ok, q')"
  shows "futex_queue_wf q'"
    "ok \<Longrightarrow> lookup fw_tid q tid = None
      \<and> lookup fw_tid q' = (lookup fw_tid q)(tid \<mapsto> \<lparr>fw_tid = tid, fw_uaddr = uaddr, fw_wake_tick = wake\<rparr>)"
    "\<not> ok \<longleftrightarrow> lookup fw_tid q tid \<noteq> None \<or> occupied q = MAX_FUTEX_WAITERS"
    "\<not> ok \<Longrightarrow> q' = q"
proof -
  let ?e = "\<lparr>fw_tid = tid, fw_uaddr = uaddr, fw_wake_tick = wake\<rparr>"
  have kd: "keys_distinct fw_tid q" and len: "length q = MAX_FUTEX_WAITERS"
    using wf by (simp_all add: futex_queue_wf_def)
  have full: "find_index (\<lambda>slot. slot = None) q = None \<longleftrightarrow> occupied q = MAX_FUTEX_WAITERS"
    using occupied_full[of q] len by (simp add: find_index_None all_set_conv_all_nth)
  note holder = holder_index[of fw_tid tid q]
  have new: "futex_queue_wf (q[i := Some ?e]) \<and> lookup fw_tid (q[i := Some ?e]) = (lookup fw_tid q)(tid \<mapsto> ?e)"
    if "lookup fw_tid q tid = None" "find_index (\<lambda>slot. slot = None) q = Some i" for i
    using that insert_slot[OF kd, of i ?e] len by (auto simp: find_index_Some futex_queue_wf_def)
  have "futex_queue_wf q' \<and> (ok \<longrightarrow> lookup fw_tid q tid = None
      \<and> lookup fw_tid q' = (lookup fw_tid q)(tid \<mapsto> ?e))
    \<and> (\<not> ok \<longleftrightarrow> lookup fw_tid q tid \<noteq> None \<or> occupied q = MAX_FUTEX_WAITERS) \<and> (\<not> ok \<longrightarrow> q' = q)"
    using reg wf holder full new
    by (auto simp: register_futex_waiter_def split: option.splits)
  then show "futex_queue_wf q'"
    "ok \<Longrightarrow> lookup fw_tid q tid = None \<and> lookup fw_tid q' = (lookup fw_tid q)(tid \<mapsto> ?e)"
    "\<not> ok \<longleftrightarrow> lookup fw_tid q tid \<noteq> None \<or> occupied q = MAX_FUTEX_WAITERS"
    "\<not> ok \<Longrightarrow> q' = q" by blast+
qed

lemma take_futex_waiters_woken:
  "take_futex_waiters n uaddr q woken = (q', woken') \<Longrightarrow>
    woken' = woken @ take (n - length woken) (map fw_tid (filter (\<lambda>e. fw_uaddr e = uaddr) (live q)))"
proof (induction n uaddr q woken arbitrary: q' woken' rule: take_futex_waiters.induct)
  case (2 n uaddr slot slots woken)
  show ?case
  proof (cases slot)
    case None
    then show ?thesis using 2 by (auto simp: apfst_def map_prod_def split: if_splits prod.splits)
  next
    case (Some e)
    have "Suc (n - Suc (length woken)) = n - length woken" if "\<not> n \<le> length woken" using that by simp
    then show ?thesis
      using 2 Some by (auto simp: apfst_def map_prod_def take_Cons' split: if_splits prod.splits)
  qed
qed simp

lemma take_futex_waiters_rest:
  assumes "take_futex_waiters n uaddr q woken = (q', woken @ ts)" "keys_distinct fw_tid q"
  shows "length q' = length q \<and> keys_distinct fw_tid q' \<and> set (live q') = {e \<in> set (live q). fw_tid e \<notin> set ts}"
  using assms
proof (induction n uaddr q woken arbitrary: q' ts rule: take_futex_waiters.induct)
  case (2 n uaddr slot slots woken)
  have kd: "keys_distinct fw_tid slots" using "2.prems"(2) by (cases slot) (simp_all add: keys_distinct_def)
  show ?case
  proof (cases "n \<le> length woken")
    case True
    then show ?thesis using 2 by auto
  next
    case False
    show ?thesis
    proof (cases slot)
      case None
      then obtain r where "take_futex_waiters n uaddr slots woken = (r, woken @ ts)" "q' = None # r"
        using "2.prems"(1) False by (cases "take_futex_waiters n uaddr slots woken") auto
      then show ?thesis using "2.IH"(1)[OF False None _ kd] None by (simp add: keys_distinct_def)
    next
      case (Some e)
      have fresh: "\<forall>x\<in>set (live slots). fw_tid x \<noteq> fw_tid e"
        using "2.prems"(2) Some by (force simp: keys_distinct_def image_iff)
      show ?thesis
      proof (cases "fw_uaddr e = uaddr")
        case True
        obtain r w where r: "take_futex_waiters n uaddr slots (woken @ [fw_tid e]) = (r, w)" by fastforce
        obtain ts' where ts': "w = (woken @ [fw_tid e]) @ ts'" using take_futex_waiters_woken[OF r] by blast
        have q': "q' = None # r" "ts = fw_tid e # ts'"
          using "2.prems"(1) False Some True r ts' by auto
        show ?thesis
          using "2.IH"(2)[OF False Some True r[unfolded ts'] kd] q' Some fresh by (auto simp: keys_distinct_def)
      next
        case ne: False
        obtain r where r: "take_futex_waiters n uaddr slots woken = (r, woken @ ts)" "q' = Some e # r"
          using "2.prems"(1) False Some ne by (cases "take_futex_waiters n uaddr slots woken") auto
        have "set ts \<subseteq> fw_tid ` set (live slots)"
          using take_futex_waiters_woken[OF r(1)] set_take_subset[of "n - length woken"
              "map fw_tid (filter (\<lambda>e. fw_uaddr e = uaddr) (live slots))"] by auto
        then have "fw_tid e \<notin> set ts" using fresh by fastforce
        then show ?thesis
          using "2.IH"(3)[OF False Some ne r(1) kd] r(2) Some fresh by (auto simp: keys_distinct_def)
      qed
    qed
  qed
qed simp

section \<open>Properties\<close>

text \<open>
  Remark. A thread that registered to sleep until a tick is woken by the first timer tick that has reached it, not
  before, and only once: at any other tick of the sequence it is not among the woken threads.
\<close>

theorem sleeper_woken_at_first_due_tick:
  assumes "sleep_queue_wf q" "register_sleep_entry tid wake_tick q = (True, q')" "i < length ticks"
  shows "tid \<in> set (wakeups take_due_sleepers q' ticks ! i) \<longleftrightarrow>
    wake_tick \<le> ticks ! i \<and> (\<forall>j < i. ticks ! j < wake_tick)"
proof -
  have "lookup sl_tid q' tid = Some \<lparr>sl_tid = tid, sl_wake_tick = wake_tick\<rparr>"
    using register_sleep_entry_correct(2)[OF assms(1,2)] by simp
  from sleepers.woken_exactly_when_due[OF register_sleep_entry_correct(1)[OF assms(1,2)] this assms(3)]
  show ?thesis by (simp add: sleeper_due_def not_le)
qed

lemma sleep_queue_new_wf [simp]: "sleep_queue_wf sleep_queue_new"
  by (simp add: sleep_queue_wf_def sleep_queue_new_def)

lemma futex_queue_new_wf [simp]: "futex_queue_wf futex_queue_new"
  by (simp add: futex_queue_wf_def futex_queue_new_def)

lemma find_index_replicate_None: "0 < n \<Longrightarrow> find_index (\<lambda>slot. slot = None) (replicate n None) = Some 0"
  by (cases n) (simp_all add: find_index_def)

lemma no_holder_new: "find_index (slot_holds P) (replicate n None) = None"
  by (simp add: find_index_None slot_holds_def)

lemma register_in_new:
  "register_sleep_entry tid wake sleep_queue_new =
    (True, sleep_queue_new[0 := Some \<lparr>sl_tid = tid, sl_wake_tick = wake\<rparr>])"
  "register_futex_waiter tid uaddr wake futex_queue_new =
    (True, futex_queue_new[0 := Some \<lparr>fw_tid = tid, fw_uaddr = uaddr, fw_wake_tick = wake\<rparr>])"
  by (simp_all add: register_sleep_entry_def register_futex_waiter_def sleep_queue_new_def futex_queue_new_def
      no_holder_new find_index_replicate_None MAX_SLEEPERS_def MAX_FUTEX_WAITERS_def)

theorem sleeper_woken_at_first_due_tick_witness:
  "7 \<in> set (wakeups take_due_sleepers (snd (register_sleep_entry 7 100 sleep_queue_new)) [99, 100, 101] ! 1)
    \<and> 7 \<notin> set (wakeups take_due_sleepers (snd (register_sleep_entry 7 100 sleep_queue_new)) [99, 100, 101] ! 2)"
proof -
  have "\<exists>j < (2::nat). \<not> [99, 100, 101] ! j < (100::u64)" by (rule exI[of _ 1]) simp
  then show ?thesis
    using sleeper_woken_at_first_due_tick[OF sleep_queue_new_wf register_in_new(1), of 1 "[99, 100, 101]" 7 100]
      sleeper_woken_at_first_due_tick[OF sleep_queue_new_wf register_in_new(1), of 2 "[99, 100, 101]" 7 100]
    by (simp add: register_in_new)
qed

text \<open>
  Remark. A futex waiter with a timeout is taken by the first tick that has reached it and by no other; a waiter
  without one, whose wake tick is the largest integer, is never taken by the timer.
\<close>

theorem futex_timeout_exact:
  assumes "futex_queue_wf q" "register_futex_waiter tid uaddr wake_tick q = (True, q')" "i < length ticks"
  shows "tid \<in> set (wakeups take_due_futex_waiters q' ticks ! i) \<longleftrightarrow>
    wake_tick \<noteq> NO_TIMEOUT_WAKE_TICK \<and> wake_tick \<le> ticks ! i \<and> (\<forall>j < i. ticks ! j < wake_tick)"
proof -
  have "lookup fw_tid q' tid = Some \<lparr>fw_tid = tid, fw_uaddr = uaddr, fw_wake_tick = wake_tick\<rparr>"
    using register_futex_waiter_correct(2)[OF assms(1,2)] by simp
  from futex_waiters.woken_exactly_when_due[OF register_futex_waiter_correct(1)[OF assms(1,2)] this assms(3)]
  show ?thesis by (auto simp: futex_due_def not_le)
qed

theorem futex_timeout_exact_witness:
  "7 \<in> set (wakeups take_due_futex_waiters (snd (register_futex_waiter 7 0x4000 50 futex_queue_new)) [49, 50] ! 1)
    \<and> 7 \<notin> set (wakeups take_due_futex_waiters
        (snd (register_futex_waiter 7 0x4000 NO_TIMEOUT_WAKE_TICK futex_queue_new)) [49, 50] ! 1)"
  using futex_timeout_exact[OF futex_queue_new_wf register_in_new(2), of 1 "[49, 50]" 7 "0x4000" 50]
    futex_timeout_exact[OF futex_queue_new_wf register_in_new(2), of 1 "[49, 50]" 7 "0x4000" NO_TIMEOUT_WAKE_TICK]
  by (simp add: register_in_new NO_TIMEOUT_WAKE_TICK_def)

text \<open>
  C36. The scan of \<^emph>\<open>FUTEX_WAKE\<close> takes the first \<^emph>\<open>n\<close> waiters of the address in slot order, all of them when there are fewer,
  and every other waiter stays registered as it was.
\<close>

theorem futex_wake_takes_first:
  assumes "futex_queue_wf q" "take_futex_waiters n uaddr q [] = (q', woken)"
  shows "futex_queue_wf q' \<and> woken = take n (map fw_tid (filter (\<lambda>e. fw_uaddr e = uaddr) (live q)))
    \<and> (\<forall>tid. lookup fw_tid q' tid = (if tid \<in> set woken then None else lookup fw_tid q tid))"
proof -
  have kd: "keys_distinct fw_tid q" using assms(1) by (simp add: futex_queue_wf_def)
  have rest: "length q' = length q" "keys_distinct fw_tid q'" "set (live q') = {e \<in> set (live q). fw_tid e \<notin> set woken}"
    using take_futex_waiters_rest[OF _ kd, of n uaddr "[]" q' woken] assms(2) by auto
  have "lookup fw_tid q' tid = (if tid \<in> set woken then None else lookup fw_tid q tid)" for tid
  proof (cases "tid \<in> set woken")
    case True
    then have "tid \<notin> fw_tid ` set (live q')" using rest(3) by auto
    then show ?thesis using True by (simp flip: lookup_None_iff)
  next
    case False
    have "lookup fw_tid q' tid = Some e \<longleftrightarrow> lookup fw_tid q tid = Some e" for e
      unfolding lookup_Some_iff[OF rest(2)] lookup_Some_iff[OF kd] using rest(3) False by auto
    then show ?thesis using False by (metis option.exhaust)
  qed
  then show ?thesis
    using take_futex_waiters_woken[OF assms(2)] rest assms(1) by (simp add: futex_queue_wf_def)
qed

theorem futex_wake_takes_first_witness:
  "\<exists>q'. take_futex_waiters 1 0x4000
      (futex_queue_new[0 := Some \<lparr>fw_tid = 7, fw_uaddr = 0x4000, fw_wake_tick = 9\<rparr>]) [] = (q', [7])
    \<and> lookup fw_tid q' 7 = None"
proof -
  let ?q = "futex_queue_new[0 := Some \<lparr>fw_tid = 7, fw_uaddr = 0x4000, fw_wake_tick = 9\<rparr>]"
  have wf: "futex_queue_wf ?q"
    using register_futex_waiter_correct(1)[OF futex_queue_new_wf register_in_new(2)] .
  have l: "live ?q = [\<lparr>fw_tid = 7, fw_uaddr = 0x4000, fw_wake_tick = 9\<rparr>]"
    using live_update_split[of 0 futex_queue_new]
    by (simp add: futex_queue_new_def MAX_FUTEX_WAITERS_def)
  obtain q' woken where t: "take_futex_waiters 1 0x4000 ?q [] = (q', woken)" by fastforce
  from futex_wake_takes_first[OF wf t] show ?thesis using t l by simp
qed

end
