(* ===== verification/Kernel.thy ===== *)
theory Kernel
  imports Thread_Queue Process_Table Mailbox Pipe Page_Tables Kstack Wait_Queue
begin

text \<open>
  The state of the kernel: the tables of the other theories, the scheduler's counter, the identifier of the thread on the
  processor (\<^verbatim>\<open>src/src/core/percpu.rs\<close>), the registers a context switch loads, the clock and memory with its page tables, with the accessors of
  \<^verbatim>\<open>src/src/core/task/thread.rs\<close> and \<^verbatim>\<open>src/src/core/task/process.rs\<close> that the rest of the kernel goes through. One processor is modelled.
  Every critical section of the source is one function here.

  What the kernel is linked with or runs on is the argument \<^emph>\<open>plat\<close>: addresses of kernel functions and of the stack pool,
  and the functions of the x86\_64 crate.
\<close>

section \<open>The platform\<close>

datatype translate_result = TranslateOk | PageNotMapped | ParentEntryHugePage | InvalidFrameAddress

record platform =
  plat_pool_base :: u64
  plat_unmap_guard :: "u64 \<Rightarrow> bool"
  plat_translate_page :: "(u64 \<Rightarrow> translate_result) option"
  plat_exit_handler :: u64
  plat_usermode_trampoline :: u64
  plat_fork_trampoline :: u64
  plat_x86 :: x86
  plat_boot_entropy :: u64

section \<open>The state\<close>

record scheduler =
  sc_enabled :: bool
  sc_time_slice :: u64
  sc_current_slice :: u64

definition DEFAULT_TIME_SLICE :: u64 where "DEFAULT_TIME_SLICE = 2"

definition scheduler_new :: scheduler where
  "scheduler_new = \<lparr>sc_enabled = False, sc_time_slice = DEFAULT_TIME_SLICE, sc_current_slice = 0\<rparr>"

record kernel =
  k_threads :: thread_queue
  k_procs :: process_table
  k_next_tid :: u64
  k_next_pid :: u64
  k_current :: u64
  k_rsp0 :: u64
  k_syscall_rsp :: u64
  k_fs_base :: u64
  k_kernel_cr3 :: u64
  k_sched :: scheduler
  k_ticks :: u64
  k_sleepers :: sleep_queue
  k_futex :: futex_queue
  k_mailboxes :: "mailbox list"
  k_pipes :: pipe_table
  k_kstacks :: kstack_pool
  k_remote :: remote_state
  k_vm :: vm
  k_halted :: bool

text \<open>The initial values of the statics.\<close>

definition vm_initial :: vm where
  "vm_initial = \<lparr>vm_mem = \<lambda>_. 0, vm_frames = None, vm_phys_offset = None, vm_kernel_l4 = 0, vm_page_table = None, vm_cr3 = 0,
    vm_next_stack_top = USER_STACK_TOP\<rparr>"

definition kernel_initial :: kernel where
  "kernel_initial = \<lparr>k_threads = thread_queue_new, k_procs = process_table_new, k_next_tid = 1, k_next_pid = 1,
    k_current = 0, k_rsp0 = 0, k_syscall_rsp = 0, k_fs_base = 0, k_kernel_cr3 = 0, k_sched = scheduler_new, k_ticks = 0,
    k_sleepers = sleep_queue_new, k_futex = futex_queue_new, k_mailboxes = replicate MAX_THREADS mailbox_new,
    k_pipes = pipe_table_new, k_kstacks = kstack_pool_new, k_remote = \<lparr>rs_counter = \<lambda>_. 0, rs_closed = []\<rparr>,
    k_vm = vm_initial, k_halted = False\<rparr>"

section \<open>Accessors\<close>

definition current_thread_id :: "kernel \<Rightarrow> thread_id option" where
  "current_thread_id k = (if k_current k = 0 then None else Some (k_current k))"

definition set_current_thread :: "thread_id option \<Rightarrow> kernel \<Rightarrow> kernel" where
  "set_current_thread tid k = k\<lparr>k_current := (case tid of Some t \<Rightarrow> t | None \<Rightarrow> 0)\<rparr>"

definition get_thread :: "kernel \<Rightarrow> thread_id \<Rightarrow> thread option" where
  "get_thread k tid = thread_queue_get (k_threads k) tid"

definition modify_thread :: "thread_id \<Rightarrow> (thread \<Rightarrow> thread) \<Rightarrow> kernel \<Rightarrow> kernel" where
  "modify_thread tid f k = k\<lparr>k_threads := thread_queue_modify (k_threads k) tid f\<rparr>"

definition get_process :: "kernel \<Rightarrow> process_id \<Rightarrow> process option" where
  "get_process k pid = process_table_get (k_procs k) pid"

definition modify_process :: "process_id \<Rightarrow> (process \<Rightarrow> process) \<Rightarrow> kernel \<Rightarrow> kernel" where
  "modify_process pid f k = k\<lparr>k_procs := process_table_modify (k_procs k) pid f\<rparr>"

definition add_thread :: "thread \<Rightarrow> kernel \<Rightarrow> thread_id option \<times> kernel" where
  "add_thread t k = (let (r, q) = thread_queue_push (k_threads k) t in (r, k\<lparr>k_threads := q\<rparr>))"

definition remove_thread :: "thread_id \<Rightarrow> kernel \<Rightarrow> thread option \<times> kernel" where
  "remove_thread tid k =
    (let (t, q) = thread_queue_remove (k_threads k) tid in (t, k\<lparr>k_threads := q\<rparr>))"

definition current_pid :: "kernel \<Rightarrow> process_id option" where
  "current_pid k =
    (case current_thread_id k of None \<Rightarrow> None | Some tid \<Rightarrow> map_option t_process_id (get_thread k tid))"

definition clear_futex_waiter :: "thread_id \<Rightarrow> kernel \<Rightarrow> kernel" where
  "clear_futex_waiter tid k = k\<lparr>k_futex := snd (remove_futex_waiter_by_tid tid (k_futex k))\<rparr>"

definition release_kernel_stack :: "platform \<Rightarrow> u64 \<Rightarrow> kernel \<Rightarrow> kernel" where
  "release_kernel_stack plat base k =
    k\<lparr>k_kstacks := free_kernel_stack (plat_pool_base plat) base (k_kstacks k)\<rparr>"

section \<open>Waking and sleeping\<close>

definition set_state :: "thread_state \<Rightarrow> thread \<Rightarrow> thread" where
  "set_state st t = t\<lparr>t_state := st\<rparr>"

definition wake_transition :: "thread \<Rightarrow> thread" where
  "wake_transition t =
    (if t_state t = TSleeping \<or> t_state t = TBlocked then set_state TReady t
     else if t_state t = TReady then set_pending_wakeup t
     else t)"

definition wake_thread :: "thread_id \<Rightarrow> kernel \<Rightarrow> kernel" where
  "wake_thread tid k = modify_thread tid wake_transition k"

definition sleep_thread :: "thread_id \<Rightarrow> kernel \<Rightarrow> kernel" where
  "sleep_thread tid k = modify_thread tid (set_state TSleeping) k"

definition sleep_thread_unless_woken :: "thread_id \<Rightarrow> kernel \<Rightarrow> bool \<times> kernel" where
  "sleep_thread_unless_woken tid k =
    (case get_thread k tid of
       None \<Rightarrow> (False, k)
     | Some t \<Rightarrow>
         if fst (take_pending_wakeup t) then (False, modify_thread tid (\<lambda>t. snd (take_pending_wakeup t)) k)
         else (True, modify_thread tid (\<lambda>t. set_state TSleeping (snd (take_pending_wakeup t))) k))"

definition wake_due_sleepers :: "u64 \<Rightarrow> kernel \<Rightarrow> kernel" where
  "wake_due_sleepers now_tick k =
    (let (q, woken) = take_due_sleepers now_tick (k_sleepers k)
     in fold wake_thread woken (k\<lparr>k_sleepers := q\<rparr>))"

definition set_futex_timed_out :: "bool \<Rightarrow> thread \<Rightarrow> thread" where
  "set_futex_timed_out b t = t\<lparr>t_futex_timed_out := b\<rparr>"

definition wake_due_futex_waiters :: "u64 \<Rightarrow> kernel \<Rightarrow> kernel" where
  "wake_due_futex_waiters now_tick k =
    (let (q, woken) = take_due_futex_waiters now_tick (k_futex k)
     in fold (\<lambda>tid. wake_thread tid \<circ> modify_thread tid (set_futex_timed_out True)) woken (k\<lparr>k_futex := q\<rparr>))"

section \<open>Well-formed states\<close>

text \<open>
  Every table satisfies its own invariant, the thread with the number in \<^term>\<open>k_current\<close> exists, no thread has the number 0 that
  stands for none, and only the current thread is in state \<^emph>\<open>Running\<close>.
\<close>

definition kernel_wf :: "kernel \<Rightarrow> bool" where
  "kernel_wf k \<longleftrightarrow> thread_queue_wf (k_threads k) \<and> process_table_wf (k_procs k)
    \<and> sleep_queue_wf (k_sleepers k) \<and> futex_queue_wf (k_futex k)
    \<and> length (k_mailboxes k) = MAX_THREADS \<and> (\<forall>mb\<in>set (k_mailboxes k). mailbox_wf mb)
    \<and> pipe_table_wf (k_pipes k)"

definition running_is_current :: "kernel \<Rightarrow> bool" where
  "running_is_current k \<longleftrightarrow> get_thread k 0 = None \<and> (k_current k \<noteq> 0 \<longrightarrow> get_thread k (k_current k) \<noteq> None)
    \<and> (\<forall>tid t. get_thread k tid = Some t \<and> t_state t = TRunning \<longrightarrow> tid = k_current k)"

named_theorems thread_keys

lemma wake_transition_id [thread_keys, simp]: "t_id (wake_transition t) = t_id t"
  by (simp add: wake_transition_def set_state_def set_pending_wakeup_def)

lemma set_state_simps [thread_keys, simp]:
  "t_id (set_state st t) = t_id t" "t_state (set_state st t) = st" "t_process_id (set_state st t) = t_process_id t"
  "t_kernel_stack (set_state st t) = t_kernel_stack t" "t_kernel_stack_size (set_state st t) = t_kernel_stack_size t"
  "t_fs_base (set_state st t) = t_fs_base t" "t_pending_wakeup (set_state st t) = t_pending_wakeup t"
  by (simp_all add: set_state_def)

lemma take_pending_wakeup_simps [thread_keys, simp]:
  "t_id (snd (take_pending_wakeup t)) = t_id t" "t_state (snd (take_pending_wakeup t)) = t_state t"
  "fst (take_pending_wakeup t) = t_pending_wakeup t"
  by (simp_all add: take_pending_wakeup_def)

lemma set_futex_timed_out_simps [thread_keys, simp]:
  "t_id (set_futex_timed_out b t) = t_id t" "t_state (set_futex_timed_out b t) = t_state t"
  by (simp_all add: set_futex_timed_out_def)

lemma get_modify_thread:
  assumes "thread_queue_wf (k_threads k)" "\<And>t. t_id (f t) = t_id t"
  shows "thread_queue_wf (k_threads (modify_thread tid f k))"
    "get_thread (modify_thread tid f k) = (get_thread k)(tid := map_option f (get_thread k tid))"
  using thread_queue_modify_wf[of "k_threads k" f tid] assms
  by (simp_all add: modify_thread_def get_thread_def fun_eq_iff)

lemma modify_thread_frame [simp]:
  "k_current (modify_thread tid f k) = k_current k" "k_procs (modify_thread tid f k) = k_procs k"
  "k_sleepers (modify_thread tid f k) = k_sleepers k" "k_futex (modify_thread tid f k) = k_futex k"
  "k_mailboxes (modify_thread tid f k) = k_mailboxes k" "k_pipes (modify_thread tid f k) = k_pipes k" "k_vm (modify_thread tid f k) = k_vm k"
  "k_sched (modify_thread tid f k) = k_sched k" "k_ticks (modify_thread tid f k) = k_ticks k"
  "k_rsp0 (modify_thread tid f k) = k_rsp0 k" "k_syscall_rsp (modify_thread tid f k) = k_syscall_rsp k"
  "k_fs_base (modify_thread tid f k) = k_fs_base k" "k_halted (modify_thread tid f k) = k_halted k"
  by (simp_all add: modify_thread_def)

lemma modify_thread_wf:
  "\<lbrakk>kernel_wf k; \<And>t. t_id (f t) = t_id t\<rbrakk> \<Longrightarrow> kernel_wf (modify_thread tid f k)"
  by (simp add: kernel_wf_def get_modify_thread)

lemma modify_thread_running:
  assumes "kernel_wf k" "running_is_current k" "\<And>t. t_id (f t) = t_id t"
    "\<And>t. t_state (f t) = TRunning \<Longrightarrow> t_state t = TRunning"
  shows "running_is_current (modify_thread tid f k)"
  using assms by (auto simp: running_is_current_def kernel_wf_def get_modify_thread)

lemma wake_transition_not_running: "t_state (wake_transition t) = TRunning \<Longrightarrow> t_state t = TRunning"
  by (auto simp: wake_transition_def set_pending_wakeup_def split: if_splits)

lemma wake_thread_inv:
  assumes "kernel_wf k" "running_is_current k"
  shows "kernel_wf (wake_thread tid k)" "running_is_current (wake_thread tid k)"
  unfolding wake_thread_def using assms wake_transition_not_running
  by (auto intro!: modify_thread_wf modify_thread_running)

lemma sleep_thread_inv:
  assumes "kernel_wf k" "running_is_current k"
  shows "kernel_wf (sleep_thread tid k)" "running_is_current (sleep_thread tid k)"
  unfolding sleep_thread_def using assms by (auto intro!: modify_thread_wf modify_thread_running)

lemma sleep_thread_unless_woken_inv:
  assumes "kernel_wf k" "running_is_current k" "sleep_thread_unless_woken tid k = (b, k')"
  shows "kernel_wf k'" "running_is_current k'"
  using assms
  by (auto simp: sleep_thread_unless_woken_def intro!: modify_thread_wf modify_thread_running
      split: option.splits if_splits)

lemma fold_inv: "\<lbrakk>\<And>x s. x \<in> set xs \<Longrightarrow> P s \<Longrightarrow> P (f x s); P s\<rbrakk> \<Longrightarrow> P (fold f xs s)"
  by (induction xs arbitrary: s) auto

lemma wake_due_sleepers_inv:
  assumes "kernel_wf k" "running_is_current k"
  shows "kernel_wf (wake_due_sleepers now k)" "running_is_current (wake_due_sleepers now k)"
proof -
  obtain q woken where t: "take_due_sleepers now (k_sleepers k) = (q, woken)" by fastforce
  have "sleep_queue_wf q" using sleepers.take_at_wf[OF _ t] assms(1) by (simp add: kernel_wf_def)
  then have start: "kernel_wf (k\<lparr>k_sleepers := q\<rparr>) \<and> running_is_current (k\<lparr>k_sleepers := q\<rparr>)"
    using assms by (simp add: kernel_wf_def running_is_current_def get_thread_def)
  have "kernel_wf (fold wake_thread woken (k\<lparr>k_sleepers := q\<rparr>))
    \<and> running_is_current (fold wake_thread woken (k\<lparr>k_sleepers := q\<rparr>))"
    by (rule fold_inv[where P = "\<lambda>k. kernel_wf k \<and> running_is_current k"]) (use start wake_thread_inv in auto)
  then show "kernel_wf (wake_due_sleepers now k)" "running_is_current (wake_due_sleepers now k)"
    by (simp_all add: wake_due_sleepers_def t)
qed

lemma wake_due_futex_waiters_inv:
  assumes "kernel_wf k" "running_is_current k"
  shows "kernel_wf (wake_due_futex_waiters now k)" "running_is_current (wake_due_futex_waiters now k)"
proof -
  let ?f = "\<lambda>tid. wake_thread tid \<circ> modify_thread tid (set_futex_timed_out True)"
  obtain q woken where t: "take_due_futex_waiters now (k_futex k) = (q, woken)" by fastforce
  have "futex_queue_wf q" using futex_waiters.take_at_wf[OF _ t] assms(1) by (simp add: kernel_wf_def)
  then have start: "kernel_wf (k\<lparr>k_futex := q\<rparr>) \<and> running_is_current (k\<lparr>k_futex := q\<rparr>)"
    using assms by (simp add: kernel_wf_def running_is_current_def get_thread_def)
  have "kernel_wf (fold ?f woken (k\<lparr>k_futex := q\<rparr>)) \<and> running_is_current (fold ?f woken (k\<lparr>k_futex := q\<rparr>))"
    by (rule fold_inv[where P = "\<lambda>k. kernel_wf k \<and> running_is_current k"])
      (use start in \<open>auto intro!: wake_thread_inv modify_thread_wf modify_thread_running\<close>)
  then show "kernel_wf (wake_due_futex_waiters now k)" "running_is_current (wake_due_futex_waiters now k)"
    by (simp_all add: wake_due_futex_waiters_def t comp_def)
qed

lemma wake_thread_frame [simp]:
  "k_current (wake_thread tid k) = k_current k" "k_sched (wake_thread tid k) = k_sched k"
  "k_mailboxes (wake_thread tid k) = k_mailboxes k" "k_procs (wake_thread tid k) = k_procs k"
  "k_ticks (wake_thread tid k) = k_ticks k" "k_futex (wake_thread tid k) = k_futex k"
  "k_sleepers (wake_thread tid k) = k_sleepers k" "k_rsp0 (wake_thread tid k) = k_rsp0 k"
  "k_syscall_rsp (wake_thread tid k) = k_syscall_rsp k" "k_fs_base (wake_thread tid k) = k_fs_base k"
  "k_pipes (wake_thread tid k) = k_pipes k" "k_vm (wake_thread tid k) = k_vm k" "k_halted (wake_thread tid k) = k_halted k"
  by (simp_all add: wake_thread_def)

lemma get_wake_thread:
  "kernel_wf k \<Longrightarrow> get_thread (wake_thread tid k) = (get_thread k)(tid := map_option wake_transition (get_thread k tid))"
  by (simp add: wake_thread_def get_modify_thread kernel_wf_def)

lemma kernel_initial_wf [simp]: "kernel_wf kernel_initial" "get_thread kernel_initial tid = None"
proof -
  show "kernel_wf kernel_initial" using mailbox_new_wf(1) by (simp add: kernel_wf_def kernel_initial_def)
  show "get_thread kernel_initial tid = None"
    by (simp add: kernel_initial_def get_thread_def thread_queue_get_lookup thread_queue_new_def)
qed

text \<open>A new thread: the table grows by it, and it is refused exactly when all slots are taken.\<close>

lemma add_thread_spec:
  assumes wf: "kernel_wf k" and new: "get_thread k (t_id t) = None" and a: "add_thread t k = (r, k')"
  shows "kernel_wf k'" "r = None \<Longrightarrow> k' = k" "r \<noteq> None \<Longrightarrow> r = Some (t_id t) \<and> get_thread k' = (get_thread k)(t_id t \<mapsto> t)"
    "r = None \<longleftrightarrow> card (dom (get_thread k)) = MAX_THREADS" "k_current k' = k_current k" "k_sched k' = k_sched k"
proof -
  have q: "thread_queue_wf (k_threads k)" using wf by (simp add: kernel_wf_def)
  have g: "get_thread k = thread_queue_get (k_threads k)" by (simp add: get_thread_def fun_eq_iff)
  obtain q' where p: "thread_queue_push (k_threads k) t = (r, q')" "k' = k\<lparr>k_threads := q'\<rparr>"
    using a by (auto simp: add_thread_def split: prod.splits)
  have n: "thread_queue_get (k_threads k) (t_id t) = None" using new by (simp add: get_thread_def)
  have c: "unat (tq_count (k_threads k)) = card (dom (get_thread k))" using thread_ids.dom_card[OF q] g by simp
  have all: "kernel_wf k' \<and> (r = None \<longrightarrow> k' = k)
    \<and> (r \<noteq> None \<longrightarrow> r = Some (t_id t) \<and> get_thread k' = (get_thread k)(t_id t \<mapsto> t))
    \<and> (r = None \<longleftrightarrow> card (dom (get_thread k)) = MAX_THREADS)"
  proof (cases "unat (tq_count (k_threads k)) < MAX_THREADS")
    case True
    then show ?thesis using thread_ids.add_room[OF q True n] p wf c
      by (auto simp: kernel_wf_def get_thread_def fun_eq_iff)
  next
    case False
    then show ?thesis using thread_ids.add_full[OF q] p wf c thread_ids.count_cap[OF q] by (auto simp: kernel_wf_def)
  qed
  then show "kernel_wf k'" "r = None \<Longrightarrow> k' = k" "r \<noteq> None \<Longrightarrow> r = Some (t_id t) \<and> get_thread k' = (get_thread k)(t_id t \<mapsto> t)"
    "r = None \<longleftrightarrow> card (dom (get_thread k)) = MAX_THREADS" by blast+
  show "k_current k' = k_current k" "k_sched k' = k_sched k" using p(2) by simp_all
qed

end
