(* ===== verification/Scheduler.thy ===== *)
theory Scheduler
  imports Kernel
begin

text \<open>
  The scheduler, from \<^verbatim>\<open>src/src/core/task/scheduler.rs\<close>, with the part of \<^verbatim>\<open>src/src/core/task/context.rs\<close> that decides whether and to which thread the
  processor goes, and the timer interrupt of \<^verbatim>\<open>src/src/core/interrupt/timer.rs\<close>. Loading the saved registers is assembly and is not
  part of the state: after a switch the model is in the state in which the chosen thread runs on. What the
  source does after a call that switches away is what the old thread does when it is chosen again; for a thread that
  has ended it is never done.
\<close>

section \<open>Operations\<close>

definition scheduler_tick_slice :: "scheduler \<Rightarrow> bool \<times> scheduler" where
  "scheduler_tick_slice s =
    (if \<not> sc_enabled s then (False, s)
     else let c = sc_current_slice s + 1
          in if c \<ge> sc_time_slice s then (True, s\<lparr>sc_current_slice := 0\<rparr>)
             else (False, s\<lparr>sc_current_slice := c\<rparr>))"

definition reset_slice :: "scheduler \<Rightarrow> scheduler" where
  "reset_slice s = s\<lparr>sc_current_slice := 0\<rparr>"

definition init_scheduler :: "kernel \<Rightarrow> kernel" where
  "init_scheduler k = k\<lparr>k_sched := (k_sched k)\<lparr>sc_enabled := True\<rparr>\<rparr>"

definition disable_scheduler :: "kernel \<Rightarrow> kernel" where
  "disable_scheduler k = k\<lparr>k_sched := (k_sched k)\<lparr>sc_enabled := False\<rparr>\<rparr>"

definition set_time_slice :: "u64 \<Rightarrow> kernel \<Rightarrow> kernel" where
  "set_time_slice ticks k = k\<lparr>k_sched := (k_sched k)\<lparr>sc_time_slice := ticks\<rparr>\<rparr>"

definition scheduler_tick :: "kernel \<Rightarrow> bool \<times> kernel" where
  "scheduler_tick k =
    (let in_syscall = (case current_thread_id k of
           Some tid \<Rightarrow> (case get_thread k tid of Some t \<Rightarrow> t_in_syscall t | None \<Rightarrow> False)
         | None \<Rightarrow> False)
     in if in_syscall then (False, k)
        else let (due, s) = scheduler_tick_slice (k_sched k) in (due, k\<lparr>k_sched := s\<rparr>))"

text \<open>The thread that runs is ready again, then the next ready one after it runs.\<close>

definition preempt :: "thread \<Rightarrow> thread" where
  "preempt t = (if t_state t = TRunning then set_state TReady t else t)"

definition schedule :: "kernel \<Rightarrow> thread_id option \<times> kernel" where
  "schedule k =
    (let current = current_thread_id k;
         k1 = (case current of Some c \<Rightarrow> modify_thread c preempt k | None \<Rightarrow> k)
     in case peek_next_after (k_threads k1) current of
          None \<Rightarrow> (None, k1)
        | Some i \<Rightarrow> (case tq_threads (k_threads k1) ! i of
              None \<Rightarrow> (None, k1)
            | Some t \<Rightarrow> (Some (t_id t),
                k1\<lparr>k_threads := (k_threads k1)\<lparr>tq_threads := (tq_threads (k_threads k1))[i := Some (set_state TRunning t)]\<rparr>,
                  k_sched := reset_slice (k_sched k1)\<rparr>)))"

text \<open>The second half of \<^emph>\<open>switch_to_thread\<close>: the chosen thread becomes current and its stack, its TLS base and the kernel's page table are loaded.\<close>

definition switch_into :: "platform \<Rightarrow> thread_id \<Rightarrow> kernel \<Rightarrow> kernel" where
  "switch_into plat next k =
    (case get_thread k next of
       None \<Rightarrow> k
     | Some t \<Rightarrow> (set_current_thread (Some next) k)\<lparr>k_rsp0 := kernel_stack_top t, k_syscall_rsp := kernel_stack_top t,
         k_fs_base := t_fs_base t,
         k_vm := (if k_kernel_cr3 k \<noteq> 0 then switch_page_table (plat_x86 plat) (k_kernel_cr3 k) (k_vm k) else k_vm k)\<rparr>)"

definition is_kernel_stack_guard_intact :: "platform \<Rightarrow> thread \<Rightarrow> bool" where
  "is_kernel_stack_guard_intact plat t =
    (let pool_start = plat_pool_base plat; pool_end = pool_start + KSTACK_POOL_SIZE
     in case checked_add (t_kernel_stack t) (t_kernel_stack_size t) of
          None \<Rightarrow> False
        | Some stack_end \<Rightarrow>
            if \<not> (t_kernel_stack t \<ge> pool_start + KSTACK_GUARD_BYTES \<and> stack_end \<le> pool_end
                 \<and> t_kernel_stack t \<ge> KSTACK_GUARD_BYTES) then True
            else case plat_translate_page plat of
                None \<Rightarrow> True
              | Some translate \<Rightarrow>
                  (case translate (t_kernel_stack t - KSTACK_GUARD_BYTES) of
                     TranslateOk \<Rightarrow> False
                   | PageNotMapped \<Rightarrow> True
                   | ParentEntryHugePage \<Rightarrow> True
                   | InvalidFrameAddress \<Rightarrow> False))"

text \<open>\<^emph>\<open>yield_now\<close> over the switch it makes, so that ending the current thread, which a switch may do, can yield as well.\<close>

definition yield_with :: "(thread_id option \<Rightarrow> thread_id \<Rightarrow> kernel \<Rightarrow> kernel) \<Rightarrow> kernel \<Rightarrow> kernel" where
  "yield_with switch k =
    (if \<not> sc_enabled (k_sched k) then k
     else case schedule k of
         (None, k1) \<Rightarrow> k1
       | (Some next, k1) \<Rightarrow>
           let current = current_thread_id k1
           in if Some next \<noteq> current then switch current next k1 else k1)"

text \<open>
  \<^emph>\<open>terminate_thread\<close> of the thread that runs sets the current thread to none before it yields, and with no current
  thread a switch is \<^term>\<open>switch_into\<close>. When the yield switches away, the removal below it is never reached.
\<close>

definition reclaim_thread :: "platform \<Rightarrow> thread_id \<Rightarrow> kernel \<Rightarrow> kernel" where
  "reclaim_thread plat tid k =
    (case remove_thread tid (clear_futex_waiter tid k) of
       (Some t, k1) \<Rightarrow> release_kernel_stack plat (t_kernel_stack t) k1
     | (None, k1) \<Rightarrow> k1)"

definition terminate_thread :: "platform \<Rightarrow> thread_id \<Rightarrow> kernel \<Rightarrow> kernel" where
  "terminate_thread plat tid k =
    (let k1 = modify_thread tid (set_state TTerminated) k
     in if Some tid = current_thread_id k1 then
          let k2 = yield_with (\<lambda>_. switch_into plat) (set_current_thread None k1)
          in if current_thread_id k2 \<noteq> None then k2 else reclaim_thread plat tid k2
        else reclaim_thread plat tid k1)"

definition switch_to_thread :: "platform \<Rightarrow> thread_id option \<Rightarrow> thread_id \<Rightarrow> kernel \<Rightarrow> kernel" where
  "switch_to_thread plat current next k =
    (case current of
       None \<Rightarrow> switch_into plat next k
     | Some c \<Rightarrow> (case get_thread k c of
           None \<Rightarrow> k
         | Some t \<Rightarrow> if \<not> is_kernel_stack_guard_intact plat t then terminate_thread plat c k else switch_into plat next k))"

definition yield_now :: "platform \<Rightarrow> kernel \<Rightarrow> kernel" where
  "yield_now plat k = yield_with (switch_to_thread plat) k"

definition block_current_thread :: "platform \<Rightarrow> kernel \<Rightarrow> kernel" where
  "block_current_thread plat k =
    (case current_thread_id k of
       None \<Rightarrow> k
     | Some c \<Rightarrow> yield_now plat (modify_thread c (set_state TBlocked) k))"

definition schedule_and_switch :: "platform \<Rightarrow> kernel \<Rightarrow> kernel" where
  "schedule_and_switch plat k =
    (if \<not> sc_enabled (k_sched k) then k
     else let current = current_thread_id k
          in case schedule k of
               (None, k1) \<Rightarrow> k1
             | (Some next, k1) \<Rightarrow> if Some next \<noteq> current then switch_to_thread plat current next k1 else k1)"

definition start_scheduling :: "platform \<Rightarrow> kernel \<Rightarrow> kernel" where
  "start_scheduling plat k =
    (case peek_next (k_threads k) of
       None \<Rightarrow> k\<lparr>k_halted := True\<rparr>
     | Some i \<Rightarrow> (case tq_threads (k_threads k) ! i of
           None \<Rightarrow> k\<lparr>k_halted := True\<rparr>
         | Some t \<Rightarrow> switch_into plat (t_id t) (modify_thread (t_id t) (set_state TRunning) k)))"

definition timer_interrupt_handler :: "platform \<Rightarrow> kernel \<Rightarrow> kernel" where
  "timer_interrupt_handler plat k =
    (let ticks = saturating_add (k_ticks k) 1;
         k1 = wake_due_futex_waiters ticks (wake_due_sleepers ticks (k\<lparr>k_ticks := k_ticks k + 1\<rparr>));
         (should_schedule, k2) = scheduler_tick k1
     in if should_schedule then schedule_and_switch plat k2 else k2)"

section \<open>One choice of the scheduler\<close>

lemma preempt_simps [simp]: "t_id (preempt t) = t_id t" "t_state (preempt t) \<noteq> TRunning"
  "t_kernel_stack (preempt t) = t_kernel_stack t" "t_kernel_stack_size (preempt t) = t_kernel_stack_size t"
  "t_fs_base (preempt t) = t_fs_base t"
  by (auto simp: preempt_def)

lemma preempt_not_running: "t_state t \<noteq> TRunning \<Longrightarrow> preempt t = t"
  by (simp add: preempt_def)

text \<open>Writing back a slot that the search found is modifying the thread of that number.\<close>

lemma write_slot:
  assumes wf: "thread_queue_wf q" and i: "i < MAX_THREADS" "tq_threads q ! i = Some t" and f: "t_id (f t) = t_id t"
  shows "thread_queue_wf (q\<lparr>tq_threads := (tq_threads q)[i := Some (f t)]\<rparr>)"
    "thread_queue_get (q\<lparr>tq_threads := (tq_threads q)[i := Some (f t)]\<rparr>) = (thread_queue_get q)(t_id t \<mapsto> f t)"
proof -
  have len: "i < length (tq_threads q)" using wf i(1) by (simp add: thread_queue_wf_def)
  have kd: "keys_distinct t_id (tq_threads q)" using wf by (simp add: thread_queue_wf_def)
  note r = replace_slot[OF kd len i(2) f]
  show "thread_queue_wf (q\<lparr>tq_threads := (tq_threads q)[i := Some (f t)]\<rparr>)"
    using wf r(1) i occupied_replace[OF len i(2)] by (auto simp: thread_queue_wf_def nth_list_update)
  show "thread_queue_get (q\<lparr>tq_threads := (tq_threads q)[i := Some (f t)]\<rparr>) = (thread_queue_get q)(t_id t \<mapsto> f t)"
    using r(2) by (simp add: thread_queue_get_lookup)
qed

definition preempted :: "kernel \<Rightarrow> kernel" where
  "preempted k = (case current_thread_id k of Some c \<Rightarrow> modify_thread c preempt k | None \<Rightarrow> k)"

lemma preempted_wf: "kernel_wf k \<Longrightarrow> kernel_wf (preempted k)"
  by (auto simp: preempted_def intro!: modify_thread_wf split: option.split)

lemma preempted_frame [simp]:
  "k_current (preempted k) = k_current k" "current_thread_id (preempted k) = current_thread_id k"
  "k_sched (preempted k) = k_sched k"
  by (auto simp: preempted_def current_thread_id_def split: option.split)

lemma get_preempted:
  "kernel_wf k \<Longrightarrow> get_thread (preempted k) tid =
    (if current_thread_id k = Some tid then map_option preempt (get_thread k tid) else get_thread k tid)"
  by (auto simp: preempted_def kernel_wf_def get_modify_thread split: option.split)

lemma preempted_nobody_runs:
  assumes "kernel_wf k" "running_is_current k" "get_thread (preempted k) tid = Some t"
  shows "t_state t \<noteq> TRunning"
  using assms by (auto simp: get_preempted running_is_current_def current_thread_id_def split: if_splits)

lemma schedule_preempted:
  "schedule k = (case peek_next_after (k_threads (preempted k)) (current_thread_id k) of
     None \<Rightarrow> (None, preempted k)
   | Some i \<Rightarrow> (case tq_threads (k_threads (preempted k)) ! i of
       None \<Rightarrow> (None, preempted k)
     | Some t \<Rightarrow> (Some (t_id t),
         (preempted k)\<lparr>k_threads := (k_threads (preempted k))
            \<lparr>tq_threads := (tq_threads (k_threads (preempted k)))[i := Some (set_state TRunning t)]\<rparr>,
           k_sched := reset_slice (k_sched (preempted k))\<rparr>)))"
  unfolding schedule_def preempted_def Let_def ..

lemma schedule_cases:
  assumes wf: "kernel_wf k"
  obtains (none) "schedule k = (None, preempted k)" "\<And>tid t. get_thread (preempted k) tid = Some t \<Longrightarrow> t_state t \<noteq> TReady"
  | (some) i t k' where "schedule k = (Some (t_id t), k')"
      "peek_next_after (k_threads (preempted k)) (current_thread_id k) = Some i"
      "i < MAX_THREADS" "tq_threads (k_threads (preempted k)) ! i = Some t" "t_state t = TReady"
      "kernel_wf k'" "get_thread k' = (get_thread (preempted k))(t_id t \<mapsto> set_state TRunning t)"
      "get_thread (preempted k) (t_id t) = Some t" "k_current k' = k_current k"
      "k' = (preempted k)\<lparr>k_threads := k_threads k', k_sched := reset_slice (k_sched k)\<rparr>"
proof -
  let ?k1 = "preempted k"
  have wfq: "thread_queue_wf (k_threads ?k1)" using preempted_wf[OF wf] by (simp add: kernel_wf_def)
  show thesis
  proof (cases "peek_next_after (k_threads ?k1) (current_thread_id k)")
    case None
    have "schedule k = (None, ?k1)" using None by (simp add: schedule_preempted)
    moreover have "t_state t \<noteq> TReady" if g: "get_thread ?k1 tid = Some t" for tid t
    proof -
      obtain i where i: "thread_queue_slot_index (k_threads ?k1) tid = Some i"
        using g slot_index_None[of "k_threads ?k1" tid] by (auto simp: get_thread_def)
      then have "i < length (tq_threads (k_threads ?k1))" "tq_threads (k_threads ?k1) ! i = Some t"
        using slot_index_Some[OF wfq i] g wfq by (auto simp: get_thread_def thread_queue_wf_def)
      then show ?thesis using peek_next_after_None[OF None, of i] by (simp add: slot_is_ready_def)
    qed
    ultimately show thesis by (rule none)
  next
    case (Some i)
    have i: "i < MAX_THREADS" "slot_is_ready (tq_threads (k_threads ?k1) ! i)"
      by (rule peek_next_after_Some[OF wfq Some])+
    then obtain t where t: "tq_threads (k_threads ?k1) ! i = Some t" "t_state t = TReady"
      by (auto simp: slot_is_ready_def split: option.splits)
    let ?k2 = "?k1\<lparr>k_threads := (k_threads ?k1)\<lparr>tq_threads := (tq_threads (k_threads ?k1))[i := Some (set_state TRunning t)]\<rparr>,
        k_sched := reset_slice (k_sched ?k1)\<rparr>"
    note w = write_slot[OF wfq i(1) t(1), of "set_state TRunning"]
    have "schedule k = (Some (t_id t), ?k2)" using Some t by (simp add: schedule_preempted)
    moreover have "kernel_wf ?k2" using preempted_wf[OF wf] w(1) by (simp add: kernel_wf_def)
    moreover have "get_thread ?k2 = (get_thread ?k1)(t_id t \<mapsto> set_state TRunning t)"
      using w(2) by (simp add: get_thread_def fun_eq_iff)
    moreover have "get_thread ?k1 (t_id t) = Some t"
      using thread_at_slot(1)[OF wfq i(1) t(1)] by (simp add: get_thread_def)
    ultimately show thesis using Some i(1) t by (intro some[of t ?k2 i]) simp_all
  qed
qed

lemma schedule_inv:
  assumes "kernel_wf k" "running_is_current k" "schedule k = (r, k')"
  shows "kernel_wf k'" "k_current k' = k_current k"
    "\<And>tid t. \<lbrakk>get_thread k' tid = Some t; t_state t = TRunning\<rbrakk> \<Longrightarrow> r = Some tid"
    "\<And>tid. get_thread k' tid = None \<longleftrightarrow> get_thread k tid = None"
    "\<And>next. r = Some next \<Longrightarrow> get_thread k' next \<noteq> None"
proof -
  have keep: "get_thread (preempted k) tid = None \<longleftrightarrow> get_thread k tid = None" for tid
    using get_preempted[OF assms(1)] by simp
  have "kernel_wf k' \<and> k_current k' = k_current k
    \<and> (\<forall>tid t. get_thread k' tid = Some t \<longrightarrow> t_state t = TRunning \<longrightarrow> r = Some tid)
    \<and> (\<forall>tid. get_thread k' tid = None \<longleftrightarrow> get_thread k tid = None) \<and> (\<forall>n. r = Some n \<longrightarrow> get_thread k' n \<noteq> None)"
  proof (rule schedule_cases[OF assms(1)], goal_cases)
    case 1
    then show ?case
      using assms keep preempted_wf[OF assms(1)] preempted_nobody_runs[OF assms(1,2)] by fastforce
  next
    case (2 i t k'')
    then show ?case
      using assms(3) keep keep[of "t_id t"] preempted_nobody_runs[OF assms(1,2)] by (auto split: if_splits)
  qed
  then show "kernel_wf k'" "k_current k' = k_current k"
    "\<And>tid t. \<lbrakk>get_thread k' tid = Some t; t_state t = TRunning\<rbrakk> \<Longrightarrow> r = Some tid"
    "\<And>tid. get_thread k' tid = None \<longleftrightarrow> get_thread k tid = None"
    "\<And>next. r = Some next \<Longrightarrow> get_thread k' next \<noteq> None" by blast+
qed

section \<open>The processor runs the current thread\<close>

text \<open>What a context switch loaded belongs to the current thread.\<close>

definition cpu_loaded :: "kernel \<Rightarrow> bool" where
  "cpu_loaded k \<longleftrightarrow> (\<forall>t. k_current k \<noteq> 0 \<and> get_thread k (k_current k) = Some t \<longrightarrow>
    k_rsp0 k = kernel_stack_top t \<and> k_syscall_rsp k = kernel_stack_top t \<and> k_fs_base k = t_fs_base t)"

definition sched_inv :: "kernel \<Rightarrow> bool" where
  "sched_inv k \<longleftrightarrow> kernel_wf k \<and> running_is_current k \<and> cpu_loaded k"

text \<open>Changes to a thread that leave its number, stack and TLS base alone and do not make it run.\<close>

definition quiet :: "(thread \<Rightarrow> thread) \<Rightarrow> bool" where
  "quiet f \<longleftrightarrow> (\<forall>t. t_id (f t) = t_id t \<and> t_kernel_stack (f t) = t_kernel_stack t
    \<and> t_kernel_stack_size (f t) = t_kernel_stack_size t \<and> t_fs_base (f t) = t_fs_base t
    \<and> (t_state (f t) = TRunning \<longrightarrow> t_state t = TRunning))"

lemma quiet_intros [simp, intro]:
  "quiet wake_transition" "st \<noteq> TRunning \<Longrightarrow> quiet (set_state st)" "quiet (set_futex_timed_out b)" "quiet preempt"
  "quiet (\<lambda>t. snd (take_pending_wakeup t))" "quiet (\<lambda>t. set_state TSleeping (snd (take_pending_wakeup t)))"
  by (auto simp: quiet_def wake_transition_def set_pending_wakeup_def set_futex_timed_out_def take_pending_wakeup_def)

lemma kernel_stack_top_quiet: "quiet f \<Longrightarrow> kernel_stack_top (f t) = kernel_stack_top t"
  by (simp add: kernel_stack_top_def quiet_def)

lemma modify_thread_sched_inv:
  assumes "sched_inv k" "quiet f"
  shows "sched_inv (modify_thread tid f k)"
proof -
  have wf: "kernel_wf k" "running_is_current k" "cpu_loaded k" using assms(1) by (simp_all add: sched_inv_def)
  have f: "\<And>t. t_id (f t) = t_id t" "\<And>t. t_state (f t) = TRunning \<Longrightarrow> t_state t = TRunning"
    "\<And>t. t_fs_base (f t) = t_fs_base t" "\<And>t. kernel_stack_top (f t) = kernel_stack_top t"
    using assms(2) kernel_stack_top_quiet[OF assms(2)] by (auto simp: quiet_def)
  have "cpu_loaded (modify_thread tid f k)"
    using wf f by (auto simp: cpu_loaded_def kernel_wf_def get_modify_thread split: if_splits)
  then show ?thesis
    using modify_thread_wf[OF wf(1) f(1)] modify_thread_running[OF wf(1,2) f(1,2)] by (simp add: sched_inv_def)
qed

lemma wake_thread_sched_inv: "sched_inv k \<Longrightarrow> sched_inv (wake_thread tid k)"
  unfolding wake_thread_def by (rule modify_thread_sched_inv) auto

lemma sched_inv_sleepers: "sched_inv k \<Longrightarrow> sleep_queue_wf q \<Longrightarrow> sched_inv (k\<lparr>k_sleepers := q\<rparr>)"
  by (simp add: sched_inv_def kernel_wf_def running_is_current_def cpu_loaded_def get_thread_def)

lemma sched_inv_futex: "sched_inv k \<Longrightarrow> futex_queue_wf q \<Longrightarrow> sched_inv (k\<lparr>k_futex := q\<rparr>)"
  by (simp add: sched_inv_def kernel_wf_def running_is_current_def cpu_loaded_def get_thread_def)

lemma wake_due_sched_inv:
  assumes "sched_inv k"
  shows "sched_inv (wake_due_sleepers now k)" "sched_inv (wake_due_futex_waiters now k)"
proof -
  have wf: "sleep_queue_wf (k_sleepers k)" "futex_queue_wf (k_futex k)"
    using assms by (simp_all add: sched_inv_def kernel_wf_def)
  obtain q ts where t: "take_due_sleepers now (k_sleepers k) = (q, ts)" by fastforce
  have "sched_inv (k\<lparr>k_sleepers := q\<rparr>)"
    by (rule sched_inv_sleepers[OF assms sleepers.take_at_wf[OF wf(1) t]])
  then show "sched_inv (wake_due_sleepers now k)"
    by (auto simp: wake_due_sleepers_def t intro!: fold_inv[where P = sched_inv] wake_thread_sched_inv)
  obtain q' ts' where t': "take_due_futex_waiters now (k_futex k) = (q', ts')" by fastforce
  have "sched_inv (k\<lparr>k_futex := q'\<rparr>)"
    by (rule sched_inv_futex[OF assms futex_waiters.take_at_wf[OF wf(2) t']])
  then show "sched_inv (wake_due_futex_waiters now k)"
    by (auto simp: wake_due_futex_waiters_def t'
        intro!: fold_inv[where P = sched_inv] wake_thread_sched_inv modify_thread_sched_inv)
qed

lemma switch_into_loads:
  assumes "kernel_wf k" "get_thread k next = Some t" "get_thread k 0 = None"
    "\<And>tid u. \<lbrakk>get_thread k tid = Some u; t_state u = TRunning\<rbrakk> \<Longrightarrow> tid = next"
  shows "sched_inv (switch_into plat next k)" "k_current (switch_into plat next k) = next"
    "get_thread (switch_into plat next k) = get_thread k"
proof -
  have "next \<noteq> 0" using assms(2,3) by auto
  then show "sched_inv (switch_into plat next k)"
    using assms by (auto simp: switch_into_def sched_inv_def kernel_wf_def running_is_current_def cpu_loaded_def
        get_thread_def set_current_thread_def)
  show "k_current (switch_into plat next k) = next" "get_thread (switch_into plat next k) = get_thread k"
    using assms(2) by (auto simp: switch_into_def set_current_thread_def get_thread_def fun_eq_iff)
qed

text \<open>
  A yield through any switch that agrees with \<^term>\<open>switch_into\<close> on the state it gets keeps the invariant.
\<close>

lemma yield_with_inv:
  assumes inv: "sched_inv k"
    and sw: "\<And>next k1. \<lbrakk>schedule k = (Some next, k1); Some next \<noteq> current_thread_id k1\<rbrakk> \<Longrightarrow>
      switch (current_thread_id k1) next k1 = switch_into plat next k1"
  shows "sched_inv (yield_with switch k)"
proof (cases "sc_enabled (k_sched k)")
  case False
  then show ?thesis using inv by (simp add: yield_with_def)
next
  case True
  have wf: "kernel_wf k" "running_is_current k" "cpu_loaded k" using inv by (simp_all add: sched_inv_def)
  obtain r k1 where s: "schedule k = (r, k1)" by fastforce
  note i = schedule_inv[OF wf(1,2) s]
  have zero: "get_thread k1 0 = None" using i(4)[of 0] wf(2) by (simp add: running_is_current_def)
  have stay: "sched_inv k1" if "r = None \<or> r = current_thread_id k1"
  proof -
    have same: "k_rsp0 k1 = k_rsp0 k \<and> k_syscall_rsp k1 = k_syscall_rsp k \<and> k_fs_base k1 = k_fs_base k
      \<and> (\<forall>tid t. get_thread k1 tid = Some t \<longrightarrow> (\<exists>u. get_thread k tid = Some u
          \<and> kernel_stack_top t = kernel_stack_top u \<and> t_fs_base t = t_fs_base u))"
    proof (rule schedule_cases[OF wf(1)], goal_cases)
      case 1
      then show ?case using s get_preempted[OF wf(1)]
        by (auto simp: preempted_def kernel_stack_top_def split: option.splits if_splits)
    next
      case (2 j t k'')
      have k'': "k'' = k1" using 2(1) s by simp
      have g: "get_thread (preempted k) tid = Some u \<Longrightarrow> \<exists>v. get_thread k tid = Some v
          \<and> kernel_stack_top u = kernel_stack_top v \<and> t_fs_base u = t_fs_base v" for tid u
        using get_preempted[OF wf(1), of tid] by (auto simp: kernel_stack_top_def split: if_splits)
      have "k_rsp0 (preempted k) = k_rsp0 k" "k_syscall_rsp (preempted k) = k_syscall_rsp k"
        "k_fs_base (preempted k) = k_fs_base k"
        by (auto simp: preempted_def split: option.split)
      moreover have "k_rsp0 k1 = k_rsp0 (preempted k)" "k_syscall_rsp k1 = k_syscall_rsp (preempted k)"
        "k_fs_base k1 = k_fs_base (preempted k)"
        by (subst 2(10)[unfolded k''], simp)+
      ultimately show ?case
        using 2(7) g[OF 2(8)] g unfolding k'' by (auto simp: kernel_stack_top_def split: if_splits)
    qed
    have "cpu_loaded k1" using same wf(3) i(2) by (fastforce simp: cpu_loaded_def)
    moreover have "running_is_current k1"
      unfolding running_is_current_def
      using zero i(2,4) i(3) that wf(2)
      by (auto simp: running_is_current_def current_thread_id_def split: if_splits)
    ultimately show ?thesis using i(1) by (simp add: sched_inv_def)
  qed
  show ?thesis
  proof (cases r)
    case None
    then show ?thesis using stay True s by (simp add: yield_with_def)
  next
    case (Some n)
    obtain t where t: "get_thread k1 n = Some t" using i(5)[OF Some] by blast
    show ?thesis
    proof (cases "Some n = current_thread_id k1")
      case True
      then have "r = current_thread_id k1" using Some by simp
      then have "sched_inv k1" using stay by blast
      then show ?thesis using s Some True[symmetric] \<open>sc_enabled (k_sched k)\<close> by (simp add: yield_with_def Let_def)
    next
      case False
      have "sched_inv (switch_into plat n k1)"
        by (rule switch_into_loads(1)[OF i(1) t zero]) (use i(3) Some in auto)
      then show ?thesis using sw s Some False \<open>sc_enabled (k_sched k)\<close> by (simp add: yield_with_def)
    qed
  qed
qed

lemma remove_thread_inv:
  assumes inv: "sched_inv k" and r: "remove_thread tid k = (t, k')" and ne: "k_current k = tid \<Longrightarrow> tid = 0"
  shows "sched_inv k'" "t = get_thread k tid" "get_thread k' = (get_thread k)(tid := None)" "k_current k' = k_current k"
proof -
  have wf: "thread_queue_wf (k_threads k)" using inv by (simp add: sched_inv_def kernel_wf_def)
  obtain q where q: "thread_queue_remove (k_threads k) tid = (thread_queue_get (k_threads k) tid, q)"
    "thread_queue_wf q" "thread_queue_get q = (thread_queue_get (k_threads k))(tid := None)"
    using thread_ids.remove_any[OF wf] by blast
  then have k': "k' = k\<lparr>k_threads := q\<rparr>" "t = get_thread k tid"
    using r by (simp_all add: remove_thread_def get_thread_def)
  have g: "get_thread k' = (get_thread k)(tid := None)"
    using q(3) k' by (simp add: get_thread_def fun_eq_iff)
  show "sched_inv k'"
    using inv g k'(1) q(2) ne unfolding sched_inv_def kernel_wf_def running_is_current_def cpu_loaded_def
    by (auto split: if_splits)
  show "t = get_thread k tid" "get_thread k' = (get_thread k)(tid := None)" "k_current k' = k_current k"
    using g k' by simp_all
qed

lemma remove_futex_waiter_wf:
  assumes "futex_queue_wf q"
  shows "futex_queue_wf (snd (remove_futex_waiter_by_tid tid q))"
proof (cases "slot_take (\<lambda>e. fw_tid e = tid) q")
  case None
  then show ?thesis using assms by (simp add: remove_futex_waiter_by_tid_def)
next
  case (Some r)
  obtain e q' where r: "r = (e, q')" by (cases r)
  obtain i where i: "i < length q" "q ! i = Some e" "q' = q[i := None]"
    using slot_take_Some[of _ q e q'] Some r by auto
  have "keys_distinct fw_tid q" using assms by (simp add: futex_queue_wf_def)
  from clear_slot(1)[OF this i(1,2)] show ?thesis
    using assms Some r i(3) by (simp add: remove_futex_waiter_by_tid_def futex_queue_wf_def)
qed

lemma reclaim_thread_inv:
  assumes inv: "sched_inv k" and ne: "k_current k = tid \<Longrightarrow> tid = 0"
  shows "sched_inv (reclaim_thread plat tid k)"
proof -
  let ?k = "clear_futex_waiter tid k"
  have "futex_queue_wf (snd (remove_futex_waiter_by_tid tid (k_futex k)))"
    by (rule remove_futex_waiter_wf) (use inv in \<open>simp add: sched_inv_def kernel_wf_def\<close>)
  then have inv1: "sched_inv ?k" unfolding clear_futex_waiter_def by (rule sched_inv_futex[OF inv])
  obtain t k1 where r: "remove_thread tid ?k = (t, k1)" by fastforce
  have "k_current ?k = tid \<Longrightarrow> tid = 0" using ne by (simp add: clear_futex_waiter_def)
  from remove_thread_inv(1)[OF inv1 r this]
  have "sched_inv k1" "sched_inv (release_kernel_stack plat base k1)" for base
    by (simp_all add: sched_inv_def kernel_wf_def running_is_current_def cpu_loaded_def get_thread_def
        release_kernel_stack_def)
  then show ?thesis by (simp add: reclaim_thread_def r split: option.split)
qed

lemma ended_current_inv:
  assumes inv: "sched_inv k" and cur: "k_current k = tid"
  shows "sched_inv (set_current_thread None (modify_thread tid (set_state TTerminated) k))"
proof -
  let ?k1 = "modify_thread tid (set_state TTerminated) k"
  have inv1: "sched_inv ?k1" by (rule modify_thread_sched_inv[OF inv]) simp
  have wf: "kernel_wf k" using inv by (simp add: sched_inv_def)
  have "t_state t \<noteq> TRunning" if g: "get_thread ?k1 u = Some t" for u t
  proof (cases "u = tid")
    case True
    then show ?thesis using g get_modify_thread(2)[of k "set_state TTerminated" tid] wf by (auto simp: kernel_wf_def)
  next
    case False
    then show ?thesis using g inv1 cur by (auto simp: sched_inv_def running_is_current_def)
  qed
  then show ?thesis
    using inv1 by (auto simp: sched_inv_def kernel_wf_def running_is_current_def cpu_loaded_def set_current_thread_def
        get_thread_def)
qed

lemma terminate_thread_inv:
  assumes inv: "sched_inv k"
  shows "sched_inv (terminate_thread plat tid k)"
proof -
  let ?k1 = "modify_thread tid (set_state TTerminated) k"
  have inv1: "sched_inv ?k1" by (rule modify_thread_sched_inv[OF inv]) simp
  show ?thesis
  proof (cases "Some tid = current_thread_id ?k1")
    case False
    then have "k_current ?k1 = tid \<Longrightarrow> tid = 0" by (auto simp: current_thread_id_def split: if_splits)
    from reclaim_thread_inv[OF inv1 this] show ?thesis using False by (simp add: terminate_thread_def Let_def)
  next
    case True
    then have cur: "k_current k = tid" by (simp add: current_thread_id_def split: if_splits)
    let ?k3 = "yield_with (\<lambda>_. switch_into plat) (set_current_thread None ?k1)"
    have inv3: "sched_inv ?k3" by (rule yield_with_inv[OF ended_current_inv[OF inv cur]]) simp
    show ?thesis
    proof (cases "current_thread_id ?k3 = None")
      case False
      then show ?thesis using True inv3 by (simp add: terminate_thread_def Let_def)
    next
      case none: True
      then have "k_current ?k3 = tid \<Longrightarrow> tid = 0" by (simp add: current_thread_id_def split: if_splits)
      from reclaim_thread_inv[OF inv3 this] show ?thesis using True none by (simp add: terminate_thread_def Let_def)
    qed
  qed
qed

text \<open>The switch ends the current thread when its guard page is mapped, and is \<^term>\<open>switch_into\<close> otherwise.\<close>

lemma switch_to_thread_intact:
  assumes "running_is_current k" "\<And>t. get_thread k (k_current k) = Some t \<Longrightarrow> is_kernel_stack_guard_intact plat t"
  shows "switch_to_thread plat (current_thread_id k) next k = switch_into plat next k"
  using assms by (auto simp: switch_to_thread_def current_thread_id_def running_is_current_def split: option.splits)

section \<open>Runs of the scheduler\<close>

text \<open>What happens to the thread table between two instructions of the running thread, and runs of such events.\<close>

datatype sched_event = Timer | Yield | Block_current | Wake thread_id | Sleep thread_id | Terminate thread_id

fun sched_step :: "platform \<Rightarrow> sched_event \<Rightarrow> kernel \<Rightarrow> kernel" where
  "sched_step plat Timer k = timer_interrupt_handler plat k"
| "sched_step plat Yield k = yield_now plat k"
| "sched_step plat Block_current k = block_current_thread plat k"
| "sched_step plat (Wake tid) k = wake_thread tid k"
| "sched_step plat (Sleep tid) k = snd (sleep_thread_unless_woken tid k)"
| "sched_step plat (Terminate tid) k = terminate_thread plat tid k"

definition sched_run :: "platform \<Rightarrow> sched_event list \<Rightarrow> kernel \<Rightarrow> kernel" where
  "sched_run plat es k = fold (sched_step plat) es k"

text \<open>The guard page below every thread's kernel stack is unmapped.\<close>

definition stacks_guarded :: "platform \<Rightarrow> kernel \<Rightarrow> bool" where
  "stacks_guarded plat k \<longleftrightarrow> (\<forall>tid t. get_thread k tid = Some t \<longrightarrow> is_kernel_stack_guard_intact plat t)"

definition keeps_stacks :: "kernel \<Rightarrow> kernel \<Rightarrow> bool" where
  "keeps_stacks k k' \<longleftrightarrow> (\<forall>tid t'. get_thread k' tid = Some t' \<longrightarrow> (\<exists>t. get_thread k tid = Some t
    \<and> t_kernel_stack t' = t_kernel_stack t \<and> t_kernel_stack_size t' = t_kernel_stack_size t))"

lemma keeps_stacks_refl [simp, intro]: "keeps_stacks k k"
  by (simp add: keeps_stacks_def)

lemma keeps_stacks_trans: "keeps_stacks k k1 \<Longrightarrow> keeps_stacks k1 k2 \<Longrightarrow> keeps_stacks k k2"
  by (fastforce simp: keeps_stacks_def)

lemma keeps_stacks_get: "get_thread k' = get_thread k \<Longrightarrow> keeps_stacks k k'"
  by (simp add: keeps_stacks_def)

lemma guard_intact_cong:
  assumes "t_kernel_stack t' = t_kernel_stack t" "t_kernel_stack_size t' = t_kernel_stack_size t"
  shows "is_kernel_stack_guard_intact plat t' = is_kernel_stack_guard_intact plat t"
  unfolding is_kernel_stack_guard_intact_def assms ..

lemma keeps_stacks_guarded: "stacks_guarded plat k \<Longrightarrow> keeps_stacks k k' \<Longrightarrow> stacks_guarded plat k'"
  unfolding stacks_guarded_def keeps_stacks_def using guard_intact_cong by blast

lemma keeps_stacks_modify: "kernel_wf k \<Longrightarrow> quiet f \<Longrightarrow> keeps_stacks k (modify_thread tid f k)"
  by (auto simp: keeps_stacks_def kernel_wf_def get_modify_thread quiet_def)

lemma keeps_stacks_schedule:
  assumes wf: "kernel_wf k" and s: "schedule k = (r, k')"
  shows "keeps_stacks k k'"
proof -
  have p: "keeps_stacks k (preempted k)"
    using wf by (auto simp: keeps_stacks_def get_preempted split: if_splits)
  show ?thesis
  proof (rule schedule_cases[OF wf], goal_cases)
    case 1
    then show ?case using p s by simp
  next
    case (2 i t k'')
    then have "keeps_stacks (preempted k) k''" by (auto simp: keeps_stacks_def)
    then show ?case using 2(1) s keeps_stacks_trans[OF p] by simp
  qed
qed

lemma get_switch_into: "get_thread (switch_into plat next k) = get_thread k"
  by (auto simp: switch_into_def set_current_thread_def get_thread_def fun_eq_iff split: option.split)

lemma keeps_stacks_yield_with:
  "kernel_wf k \<Longrightarrow> keeps_stacks k (yield_with (\<lambda>_. switch_into plat) k)"
  using keeps_stacks_schedule[of k] keeps_stacks_get[OF get_switch_into]
  by (auto simp: yield_with_def Let_def split: option.split prod.split intro: keeps_stacks_trans)

lemma get_remove_thread:
  assumes "kernel_wf k"
  shows "get_thread (snd (remove_thread tid k)) = (get_thread k)(tid := None)" "fst (remove_thread tid k) = get_thread k tid"
proof -
  obtain q where "thread_queue_remove (k_threads k) tid = (thread_queue_get (k_threads k) tid, q)"
    "thread_queue_get q = (thread_queue_get (k_threads k))(tid := None)"
    using thread_ids.remove_any[of "k_threads k" tid] assms by (auto simp: kernel_wf_def)
  then show "get_thread (snd (remove_thread tid k)) = (get_thread k)(tid := None)"
    "fst (remove_thread tid k) = get_thread k tid"
    by (simp_all add: remove_thread_def get_thread_def fun_eq_iff)
qed

lemma keeps_stacks_reclaim: "kernel_wf k \<Longrightarrow> keeps_stacks k (reclaim_thread plat tid k)"
proof -
  assume wf: "kernel_wf k"
  let ?k = "clear_futex_waiter tid k"
  have th: "k_threads ?k = k_threads k" by (simp add: clear_futex_waiter_def)
  have "get_thread (snd (remove_thread tid ?k)) = (get_thread k)(tid := None)"
    using get_remove_thread(1)[OF wf, of tid] th
    by (simp add: remove_thread_def get_thread_def fun_eq_iff split: prod.splits)
  moreover have "get_thread (release_kernel_stack plat b k1) = get_thread k1" for b k1
    by (simp add: release_kernel_stack_def get_thread_def fun_eq_iff)
  ultimately have "get_thread (reclaim_thread plat tid k) = (get_thread k)(tid := None)"
    by (auto simp: reclaim_thread_def split: prod.split option.split)
  then show ?thesis by (simp add: keeps_stacks_def)
qed

lemma keeps_stacks_terminate:
  assumes inv: "sched_inv k"
  shows "keeps_stacks k (terminate_thread plat tid k)"
proof -
  let ?k1 = "modify_thread tid (set_state TTerminated) k"
  let ?k2 = "set_current_thread None ?k1"
  let ?k3 = "yield_with (\<lambda>_. switch_into plat) ?k2"
  have wf: "kernel_wf k" using inv by (simp add: sched_inv_def)
  have 1: "keeps_stacks k ?k1" by (rule keeps_stacks_modify[OF wf]) simp
  have wf1: "kernel_wf ?k1" by (rule modify_thread_wf[OF wf]) simp
  show ?thesis
  proof (cases "Some tid = current_thread_id ?k1")
    case False
    then show ?thesis using keeps_stacks_trans[OF 1 keeps_stacks_reclaim[OF wf1]] by (simp add: terminate_thread_def Let_def)
  next
    case True
    then have "k_current k = tid" by (simp add: current_thread_id_def split: if_splits)
    note inv2 = ended_current_inv[OF inv this]
    have "sched_inv ?k3" by (rule yield_with_inv[OF inv2]) simp
    then have wf3: "kernel_wf ?k3" by (simp add: sched_inv_def)
    have "keeps_stacks ?k1 ?k2" by (rule keeps_stacks_get) (simp add: set_current_thread_def get_thread_def fun_eq_iff)
    moreover have "keeps_stacks ?k2 ?k3" using keeps_stacks_yield_with inv2 by (simp add: sched_inv_def)
    ultimately have 3: "keeps_stacks k ?k3" using 1 keeps_stacks_trans by blast
    show ?thesis using True 3 keeps_stacks_trans[OF 3 keeps_stacks_reclaim[OF wf3]] by (simp add: terminate_thread_def Let_def)
  qed
qed

text \<open>The invariant of a run.\<close>

definition sched_ok :: "platform \<Rightarrow> kernel \<Rightarrow> bool" where
  "sched_ok plat k \<longleftrightarrow> sched_inv k \<and> stacks_guarded plat k"

lemma sched_okI: "\<lbrakk>sched_ok plat k; sched_inv k'; keeps_stacks k k'\<rbrakk> \<Longrightarrow> sched_ok plat k'"
  using keeps_stacks_guarded by (auto simp: sched_ok_def)

lemma modify_thread_ok: "sched_ok plat k \<Longrightarrow> quiet f \<Longrightarrow> sched_ok plat (modify_thread tid f k)"
  using sched_okI modify_thread_sched_inv keeps_stacks_modify by (metis sched_ok_def sched_inv_def)

lemma yield_now_switches:
  assumes ok: "sched_ok plat k"
  shows "yield_now plat k = yield_with (\<lambda>_. switch_into plat) k"
proof -
  have "switch_to_thread plat (current_thread_id k1) n k1 = switch_into plat n k1" if s: "schedule k = (Some n, k1)" for n k1
  proof -
    have wf: "kernel_wf k" "running_is_current k" using ok by (simp_all add: sched_ok_def sched_inv_def)
    note i = schedule_inv[OF wf s]
    have "stacks_guarded plat k1"
      using keeps_stacks_guarded[OF _ keeps_stacks_schedule[OF wf(1) s]] ok by (simp add: sched_ok_def)
    then show ?thesis
      using i(2) i(4)[of "k_current k"] wf(2)
      by (auto simp: switch_to_thread_def current_thread_id_def running_is_current_def stacks_guarded_def
          split: option.splits)
  qed
  then show ?thesis by (auto simp: yield_now_def yield_with_def Let_def split: option.split prod.split)
qed

lemma yield_now_ok:
  assumes ok: "sched_ok plat k"
  shows "sched_ok plat (yield_now plat k)"
proof -
  have inv: "sched_inv k" "kernel_wf k" using ok by (simp_all add: sched_ok_def sched_inv_def)
  have "sched_inv (yield_with (\<lambda>_. switch_into plat) k)" by (rule yield_with_inv[OF inv(1)]) simp
  from sched_okI[OF ok this keeps_stacks_yield_with[OF inv(2)]] show ?thesis
    using yield_now_switches[OF ok] by simp
qed

lemma schedule_and_switch_yields: "schedule_and_switch plat k = yield_now plat k"
proof -
  have "current_thread_id k1 = current_thread_id k" if "schedule k = (r, k1)" for r k1
    using that by (auto simp: schedule_preempted current_thread_id_def split: option.splits)
  then show ?thesis
    by (auto simp: schedule_and_switch_def yield_now_def yield_with_def Let_def split: option.split prod.split)
qed

lemma block_current_thread_ok: "sched_ok plat k \<Longrightarrow> sched_ok plat (block_current_thread plat k)"
  by (auto simp: block_current_thread_def intro!: yield_now_ok modify_thread_ok split: option.split)

lemma wake_thread_ok: "sched_ok plat k \<Longrightarrow> sched_ok plat (wake_thread tid k)"
  unfolding wake_thread_def by (rule modify_thread_ok) auto

lemma sched_ok_cong:
  assumes "sched_ok plat k" "kernel_wf k'" "k_threads k' = k_threads k" "k_current k' = k_current k"
    "k_rsp0 k' = k_rsp0 k" "k_syscall_rsp k' = k_syscall_rsp k" "k_fs_base k' = k_fs_base k"
  shows "sched_ok plat k'"
proof -
  have "get_thread k' = get_thread k" using assms(3) by (simp add: get_thread_def fun_eq_iff)
  then show ?thesis
    using assms by (simp add: sched_ok_def sched_inv_def running_is_current_def cpu_loaded_def stacks_guarded_def)
qed

lemma wake_due_ok:
  assumes "sched_ok plat k"
  shows "sched_ok plat (wake_due_sleepers now k)" "sched_ok plat (wake_due_futex_waiters now k)"
proof -
  have wf: "kernel_wf k" using assms by (simp add: sched_ok_def sched_inv_def)
  obtain q ts where t: "take_due_sleepers now (k_sleepers k) = (q, ts)" by fastforce
  have "kernel_wf (k\<lparr>k_sleepers := q\<rparr>)" using wf sleepers.take_at_wf[OF _ t] by (simp add: kernel_wf_def)
  then have "sched_ok plat (k\<lparr>k_sleepers := q\<rparr>)" by (rule sched_ok_cong[OF assms]) simp_all
  then show "sched_ok plat (wake_due_sleepers now k)"
    by (auto simp: wake_due_sleepers_def t intro!: fold_inv[where P = "sched_ok plat"] wake_thread_ok)
  obtain q' ts' where t': "take_due_futex_waiters now (k_futex k) = (q', ts')" by fastforce
  have "kernel_wf (k\<lparr>k_futex := q'\<rparr>)" using wf futex_waiters.take_at_wf[OF _ t'] by (simp add: kernel_wf_def)
  then have "sched_ok plat (k\<lparr>k_futex := q'\<rparr>)" by (rule sched_ok_cong[OF assms]) simp_all
  then show "sched_ok plat (wake_due_futex_waiters now k)"
    by (auto simp: wake_due_futex_waiters_def t'
        intro!: fold_inv[where P = "sched_ok plat"] wake_thread_ok modify_thread_ok)
qed

lemma scheduler_tick_frame:
  "\<exists>s. snd (scheduler_tick k) = k\<lparr>k_sched := s\<rparr> \<and> sc_enabled s = sc_enabled (k_sched k)"
proof -
  have "\<exists>s. k = k\<lparr>k_sched := s\<rparr> \<and> sc_enabled s = sc_enabled (k_sched k)" by (rule exI[of _ "k_sched k"]) simp
  then show ?thesis by (auto simp: scheduler_tick_def scheduler_tick_slice_def Let_def split: prod.split if_splits)
qed

lemma timer_interrupt_handler_ok:
  assumes "sched_ok plat k"
  shows "sched_ok plat (timer_interrupt_handler plat k)"
proof -
  let ?now = "saturating_add (k_ticks k) 1"
  let ?k1 = "wake_due_futex_waiters ?now (wake_due_sleepers ?now (k\<lparr>k_ticks := k_ticks k + 1\<rparr>))"
  have "kernel_wf (k\<lparr>k_ticks := k_ticks k + 1\<rparr>)" using assms by (simp add: sched_ok_def sched_inv_def kernel_wf_def)
  then have "sched_ok plat (k\<lparr>k_ticks := k_ticks k + 1\<rparr>)" by (rule sched_ok_cong[OF assms]) simp_all
  then have 1: "sched_ok plat ?k1" by (intro wake_due_ok)
  have "kernel_wf (snd (scheduler_tick ?k1))"
    using 1 scheduler_tick_frame[of ?k1] by (auto simp: sched_ok_def sched_inv_def kernel_wf_def)
  then have "sched_ok plat (snd (scheduler_tick ?k1))"
    using scheduler_tick_frame[of ?k1] by (intro sched_ok_cong[OF 1]) auto
  then show ?thesis
    by (auto simp: timer_interrupt_handler_def Let_def schedule_and_switch_yields yield_now_ok split: prod.split)
qed

lemma sched_step_ok: "sched_ok plat k \<Longrightarrow> sched_ok plat (sched_step plat e k)"
proof (cases e)
  case (Sleep tid)
  assume "sched_ok plat k"
  then show ?thesis using Sleep
    by (auto simp: sleep_thread_unless_woken_def intro!: modify_thread_ok split: option.split)
next
  case (Terminate tid)
  assume "sched_ok plat k"
  then show ?thesis
    using Terminate sched_okI terminate_thread_inv keeps_stacks_terminate by (auto simp: sched_ok_def)
qed (auto intro: timer_interrupt_handler_ok yield_now_ok block_current_thread_ok wake_thread_ok)

lemma sched_run_ok: "sched_ok plat k \<Longrightarrow> sched_ok plat (sched_run plat es k)"
  unfolding sched_run_def by (rule fold_inv[where P = "sched_ok plat"]) (auto intro: sched_step_ok)

section \<open>Round robin\<close>

text \<open>The numbers in the slots; nothing but adding and removing a thread changes them.\<close>

definition slots :: "kernel \<Rightarrow> thread_id option list" where
  "slots k = map (map_option t_id) (tq_threads (k_threads k))"

lemma slot_index_slots: "thread_queue_slot_index (k_threads k) tid = find_index (\<lambda>s. s = Some tid) (slots k)"
proof -
  have "find_index_from i (\<lambda>slot. case slot of Some t \<Rightarrow> t_id t = tid | None \<Rightarrow> False) ts =
      find_index_from i (\<lambda>s. s = Some tid) (map (map_option t_id) ts)" for i ts
    by (induction ts arbitrary: i) (auto split: option.splits)
  then show ?thesis by (simp add: thread_queue_slot_index_def find_index_def slots_def)
qed

lemma slots_modify [simp]: "(\<And>t. t_id (f t) = t_id t) \<Longrightarrow> slots (modify_thread tid f k) = slots k"
proof -
  assume f: "\<And>t. t_id (f t) = t_id t"
  have "map (map_option t_id) (slot_modify P f ts) = map (map_option t_id) ts" for P ts
    using f by (induction P f ts rule: slot_modify.induct) auto
  then show ?thesis by (simp add: slots_def modify_thread_def thread_queue_modify_def)
qed

lemma slots_switch_into [simp]: "slots (switch_into plat n k) = slots k"
  by (simp add: switch_into_def slots_def set_current_thread_def split: option.split)

lemma slots_wake [simp]: "slots (wake_thread tid k) = slots k"
  by (simp add: wake_thread_def)

lemma slots_fold: "(\<And>x k. slots (f x k) = slots k) \<Longrightarrow> slots (fold f xs k) = slots k"
  by (induction xs arbitrary: k) auto

lemma slots_queues [simp]: "slots (k\<lparr>k_sleepers := q\<rparr>) = slots k" "slots (k\<lparr>k_futex := q'\<rparr>) = slots k"
  by (simp_all add: slots_def)

lemma slots_wake_due [simp]: "slots (wake_due_sleepers now k) = slots k" "slots (wake_due_futex_waiters now k) = slots k"
  by (simp_all add: wake_due_sleepers_def wake_due_futex_waiters_def slots_fold split: prod.split)

lemma slot_index_inj:
  "\<lbrakk>thread_queue_wf q; thread_queue_slot_index q a = Some i; thread_queue_slot_index q b = Some i\<rbrakk> \<Longrightarrow> a = b"
  using slot_index_Some(2)[of q a i] slot_index_Some(2)[of q b i] by auto

lemma schedule_slots:
  assumes "kernel_wf k" "schedule k = (r, k')"
  shows "slots k' = slots k" "sc_enabled (k_sched k') = sc_enabled (k_sched k)"
proof -
  have p: "slots (preempted k) = slots k" by (auto simp: preempted_def split: option.split)
  have "slots k' = slots k \<and> sc_enabled (k_sched k') = sc_enabled (k_sched k)"
  proof (rule schedule_cases[OF assms(1)], goal_cases)
    case 1
    then show ?case using assms(2) p by simp
  next
    case (2 i t k'')
    let ?ts = "tq_threads (k_threads (preempted k))"
    have k': "k' = (preempted k)\<lparr>k_threads := (k_threads (preempted k))\<lparr>tq_threads := ?ts[i := Some (set_state TRunning t)]\<rparr>,
        k_sched := reset_slice (k_sched (preempted k))\<rparr>"
      using assms(2) 2(2,4) by (simp add: schedule_preempted)
    have "i < length ?ts" using 2(3) preempted_wf[OF assms(1)] by (simp add: kernel_wf_def thread_queue_wf_def)
    then have "map (map_option t_id) (?ts[i := Some (set_state TRunning t)]) = map (map_option t_id) ?ts"
      using 2(4) by (simp add: map_update list_update_same_conv)
    then show ?case using p unfolding k' by (simp add: slots_def reset_slice_def)
  qed
  then show "slots k' = slots k" "sc_enabled (k_sched k') = sc_enabled (k_sched k)" by simp_all
qed

text \<open>Thread \<^emph>\<open>tid\<close> is ready in slot \<^emph>\<open>j\<close>, and the current thread is \<^emph>\<open>d\<close> slots before it.\<close>

definition waits :: "thread_id \<Rightarrow> nat \<Rightarrow> kernel \<Rightarrow> bool" where
  "waits tid d k \<longleftrightarrow> sc_enabled (k_sched k) \<and> k_current k \<noteq> 0 \<and> k_current k \<noteq> tid
    \<and> (\<exists>t. get_thread k tid = Some t \<and> t_state t = TReady)
    \<and> (\<exists>s j. thread_queue_slot_index (k_threads k) (k_current k) = Some s
        \<and> thread_queue_slot_index (k_threads k) tid = Some j \<and> d = rr_distance s j)"

lemma yield_now_brings_nearer:
  assumes ok: "sched_ok plat k" and w: "waits tid d k"
  shows "k_current (yield_now plat k) = tid \<or> (\<exists>d' < d. waits tid d' (yield_now plat k))"
proof -
  have wf: "kernel_wf k" "running_is_current k" using ok by (simp_all add: sched_ok_def sched_inv_def)
  obtain t s j where t: "get_thread k tid = Some t" "t_state t = TReady"
    and s: "thread_queue_slot_index (k_threads k) (k_current k) = Some s"
    and j: "thread_queue_slot_index (k_threads k) tid = Some j" and d: "d = rr_distance s j"
    and cur: "k_current k \<noteq> 0" "k_current k \<noteq> tid" "sc_enabled (k_sched k)"
    using w by (auto simp: waits_def)
  let ?p = "preempted k"
  have wfp: "kernel_wf ?p" "thread_queue_wf (k_threads ?p)" using preempted_wf[OF wf(1)] by (simp_all add: kernel_wf_def)
  have sl: "slots ?p = slots k" by (auto simp: preempted_def split: option.split)
  have cid: "current_thread_id k = Some (k_current k)" using cur(1) by (simp add: current_thread_id_def)
  have tp: "get_thread ?p tid = Some t" using t cur(2) cid get_preempted[OF wf(1), of tid] by simp
  have sp: "thread_queue_slot_index (k_threads ?p) (k_current k) = Some s"
    "thread_queue_slot_index (k_threads ?p) tid = Some j"
    using s j sl by (simp_all add: slot_index_slots)
  have sj: "s < MAX_THREADS" "j < MAX_THREADS" using slot_index_Some(1)[OF wfp(2)] sp by blast+
  have jr: "slot_is_ready (tq_threads (k_threads ?p) ! j)"
    using slot_index_Some(2)[OF wfp(2) sp(2)] tp t(2) by (auto simp: slot_is_ready_def get_thread_def)
  show ?thesis
  proof (rule schedule_cases[OF wf(1)], goal_cases)
    case 1
    then show ?case using tp t(2) by blast
  next
    case (2 i u k')
    note sch = schedule_slots[OF wf(1) 2(1)]
    have near: "rr_distance s i \<le> rr_distance s j"
      using peek_next_after_nearest[OF wfp(2) sp(1) _ sj(2) jr] 2(2) cid by simp
    have "j \<noteq> s" using slot_index_inj[OF wfp(2) sp(1)] sp(2) cur(2) by auto
    then have "i \<noteq> s" using near sj by (auto simp: rr_distance_def split: if_splits)
    have iu: "thread_queue_slot_index (k_threads ?p) (t_id u) = Some i"
      by (rule thread_at_slot(2)[OF wfp(2) 2(3,4)])
    then have "t_id u \<noteq> k_current k" using sp(1) \<open>i \<noteq> s\<close> by auto
    moreover have gu: "get_thread k' (t_id u) \<noteq> None" using 2(7) by simp
    ultimately have y: "yield_now plat k = switch_into plat (t_id u) k'"
      using yield_now_switches[OF ok] 2(1,9) cur(3) by (simp add: yield_with_def current_thread_id_def)
    have cy: "k_current (switch_into plat (t_id u) k') = t_id u" "sc_enabled (k_sched (switch_into plat (t_id u) k'))"
      using gu cur(3) sch(2) by (auto simp: switch_into_def set_current_thread_def)
    show ?case
    proof (cases "t_id u = tid")
      case True
      then show ?thesis using y cy by simp
    next
      case False
      have "i \<noteq> j" using slot_index_inj[OF wfp(2) iu] sp(2) False by auto
      then have "rr_distance i j < d" using rr_distance_decreases[OF sj(1) 2(3) sj(2) _ near] d by simp
      moreover have "t_id u \<noteq> 0" using schedule_inv(4)[OF wf 2(1), of 0] gu wf(2) by (auto simp: running_is_current_def)
      moreover have "slots (switch_into plat (t_id u) k') = slots ?p" using sch(1) sl by simp
      moreover have "get_thread (switch_into plat (t_id u) k') tid = Some t"
        using get_switch_into[of plat "t_id u" k'] 2(7) tp False by simp
      ultimately show ?thesis
        using y cy False t(2) iu sp(2) by (auto simp: waits_def slot_index_slots)
    qed
  qed
qed

lemma waits_modify:
  assumes "kernel_wf k" "waits tid d k" "\<And>t. t_id (f t) = t_id t"
    "u = tid \<Longrightarrow> (\<And>t. t_state t = TReady \<Longrightarrow> t_state (f t) = TReady)"
  shows "waits tid d (modify_thread u f k)"
  using assms slots_modify[of f u k] by (auto simp: waits_def slot_index_slots kernel_wf_def get_modify_thread)

lemma waits_cong:
  "\<lbrakk>waits tid d k; k_threads k' = k_threads k; k_current k' = k_current k; sc_enabled (k_sched k') = sc_enabled (k_sched k)\<rbrakk>
    \<Longrightarrow> waits tid d k'"
  by (simp add: waits_def get_thread_def)

lemma waits_wake:
  assumes "kernel_wf k" "waits tid d k"
  shows "waits tid d (wake_thread u k)"
  unfolding wake_thread_def using assms by (rule waits_modify) (auto simp: wake_transition_def set_pending_wakeup_def)

lemma waits_wake_due:
  assumes "kernel_wf k \<and> running_is_current k \<and> waits tid d k"
  shows "waits tid d (wake_due_futex_waiters now (wake_due_sleepers now k))"
proof -
  let ?P = "\<lambda>k. kernel_wf k \<and> running_is_current k \<and> waits tid d k"
  have wake: "?P (wake_thread u k)" if "?P k" for u k
    using that wake_thread_inv waits_wake by blast
  have mark: "?P (modify_thread u (set_futex_timed_out True) k)" if "?P k" for u k
    using that by (auto intro!: modify_thread_wf modify_thread_running waits_modify)
  obtain q ts where t: "take_due_sleepers now (k_sleepers k) = (q, ts)" by fastforce
  have "waits tid d (k\<lparr>k_sleepers := q\<rparr>)" using assms by (auto intro: waits_cong)
  moreover have "sleep_queue_wf q" using sleepers.take_at_wf[OF _ t] assms by (simp add: kernel_wf_def)
  ultimately have "?P (k\<lparr>k_sleepers := q\<rparr>)"
    using assms by (simp add: kernel_wf_def running_is_current_def get_thread_def)
  then have 1: "?P (wake_due_sleepers now k)"
    unfolding wake_due_sleepers_def t by (simp add: fold_inv[where P = ?P] wake)
  let ?k = "wake_due_sleepers now k"
  obtain q' ts' where t': "take_due_futex_waiters now (k_futex ?k) = (q', ts')" by fastforce
  have "waits tid d (?k\<lparr>k_futex := q'\<rparr>)" using 1 by (auto intro: waits_cong)
  moreover have "futex_queue_wf q'" using futex_waiters.take_at_wf[OF _ t'] 1 by (simp add: kernel_wf_def)
  ultimately have "?P (?k\<lparr>k_futex := q'\<rparr>)"
    using 1 by (simp add: kernel_wf_def running_is_current_def get_thread_def)
  then show ?thesis
    unfolding wake_due_futex_waiters_def t' by (simp add: fold_inv[where P = ?P] wake mark)
qed

text \<open>The events that leave a ready thread alone, and among them the ones by which the running thread gives up the processor.\<close>

definition leaves_alone :: "thread_id \<Rightarrow> sched_event \<Rightarrow> bool" where
  "leaves_alone tid e \<longleftrightarrow> e \<noteq> Sleep tid \<and> (\<forall>u. e \<noteq> Terminate u)"

definition gives_up :: "sched_event \<Rightarrow> bool" where
  "gives_up e \<longleftrightarrow> e = Yield \<or> e = Block_current"

lemma timer_waits:
  assumes ok: "sched_ok plat k" and w: "waits tid d k"
  shows "k_current (timer_interrupt_handler plat k) = tid \<or> (\<exists>d' \<le> d. waits tid d' (timer_interrupt_handler plat k))"
proof -
  let ?k0 = "k\<lparr>k_ticks := k_ticks k + 1\<rparr>" and ?now = "saturating_add (k_ticks k) 1"
  let ?k1 = "wake_due_futex_waiters ?now (wake_due_sleepers ?now ?k0)"
  have wf0: "kernel_wf ?k0" using ok by (simp add: sched_ok_def sched_inv_def kernel_wf_def)
  have ok0: "sched_ok plat ?k0" by (rule sched_ok_cong[OF ok wf0]) simp_all
  have "waits tid d ?k0" by (rule waits_cong[OF w]) simp_all
  then have w1: "waits tid d ?k1" using waits_wake_due[of ?k0] ok0 by (simp add: sched_ok_def sched_inv_def)
  have ok1: "sched_ok plat ?k1" by (intro wake_due_ok ok0)
  obtain s where s: "snd (scheduler_tick ?k1) = ?k1\<lparr>k_sched := s\<rparr>" "sc_enabled s = sc_enabled (k_sched ?k1)"
    using scheduler_tick_frame by blast
  let ?k2 = "?k1\<lparr>k_sched := s\<rparr>"
  have w2: "waits tid d ?k2" by (rule waits_cong[OF w1]) (simp_all add: s(2))
  have "kernel_wf ?k2" using ok1 by (simp add: sched_ok_def sched_inv_def kernel_wf_def)
  then have ok2: "sched_ok plat ?k2" by (rule sched_ok_cong[OF ok1]) simp_all
  have "timer_interrupt_handler plat k = (if fst (scheduler_tick ?k1) then yield_now plat ?k2 else ?k2)"
    using s(1) by (auto simp: timer_interrupt_handler_def Let_def schedule_and_switch_yields split: prod.split)
  then show ?thesis using yield_now_brings_nearer[OF ok2 w2] w2 less_imp_le by (auto split: if_splits)
qed

lemma sched_step_waits:
  assumes ok: "sched_ok plat k" and w: "waits tid d k" and e: "leaves_alone tid e"
  shows "k_current (sched_step plat e k) = tid
    \<or> (\<exists>d'. waits tid d' (sched_step plat e k) \<and> (if gives_up e then d' < d else d' \<le> d))"
proof (cases e)
  case Timer
  then show ?thesis using timer_waits[OF ok w] by (auto simp: gives_up_def)
next
  case Yield
  then show ?thesis using yield_now_brings_nearer[OF ok w] by (auto simp: gives_up_def)
next
  case Block_current
  have cur: "current_thread_id k = Some (k_current k)" "k_current k \<noteq> tid" using w by (auto simp: waits_def current_thread_id_def)
  let ?k = "modify_thread (k_current k) (set_state TBlocked) k"
  have "waits tid d ?k" using ok w cur(2) by (intro waits_modify) (auto simp: sched_ok_def sched_inv_def)
  moreover have "sched_ok plat ?k" using ok by (rule modify_thread_ok) simp
  ultimately show ?thesis
    using yield_now_brings_nearer[of plat ?k tid d] Block_current cur(1)
    by (auto simp: gives_up_def block_current_thread_def)
next
  case (Wake u)
  have "waits tid d (wake_thread u k)" using waits_wake[OF _ w] ok by (simp add: sched_ok_def sched_inv_def)
  then show ?thesis using Wake by (auto simp: gives_up_def)
next
  case (Sleep u)
  then have "u \<noteq> tid" using e by (simp add: leaves_alone_def)
  then have "waits tid d (snd (sleep_thread_unless_woken u k))"
    using w ok by (auto simp: sleep_thread_unless_woken_def sched_ok_def sched_inv_def intro!: waits_modify split: option.split)
  then show ?thesis using Sleep by (auto simp: gives_up_def)
next
  case (Terminate u)
  then show ?thesis using e by (simp add: leaves_alone_def)
qed

lemma waits_until_chosen:
  assumes "sched_ok plat k" "waits tid d k" "\<forall>e\<in>set es. leaves_alone tid e" "d < length (filter gives_up es)"
  shows "\<exists>n \<le> length es. k_current (sched_run plat (take n es) k) = tid"
  using assms
proof (induction es arbitrary: k d)
  case (Cons e es)
  let ?k = "sched_step plat e k"
  have ok: "sched_ok plat ?k" using sched_step_ok Cons.prems(1) by blast
  consider "k_current ?k = tid" | d' where "waits tid d' ?k" "if gives_up e then d' < d else d' \<le> d"
    using sched_step_waits[of plat k tid d e] Cons.prems by auto
  then show ?case
  proof cases
    case 1
    then show ?thesis by (intro exI[of _ 1]) (simp add: sched_run_def)
  next
    case 2
    have "d' < length (filter gives_up es)" using 2(2) Cons.prems(4) by (auto split: if_splits)
    from Cons.IH[OF ok 2(1) _ this] Cons.prems(3) obtain n where
      "n \<le> length es" "k_current (sched_run plat (take n es) ?k) = tid" by auto
    then show ?thesis by (intro exI[of _ "Suc n"]) (simp add: sched_run_def)
  qed
qed simp

section \<open>From boot\<close>

text \<open>
  The states of a run from boot: ready threads with fresh numbers and guarded stacks are added, the scheduler is configured, the first
  thread is started and the events above happen.
\<close>

inductive sched_reach :: "platform \<Rightarrow> kernel \<Rightarrow> bool" for plat where
  boot: "sched_reach plat kernel_initial"
| spawn: "\<lbrakk>sched_reach plat k; t_id t \<noteq> 0; get_thread k (t_id t) = None; t_state t = TReady;
    is_kernel_stack_guard_intact plat t\<rbrakk> \<Longrightarrow> sched_reach plat (snd (add_thread t k))"
| enable: "sched_reach plat k \<Longrightarrow> sched_reach plat (init_scheduler k)"
| disable: "sched_reach plat k \<Longrightarrow> sched_reach plat (disable_scheduler k)"
| slice_length: "sched_reach plat k \<Longrightarrow> sched_reach plat (set_time_slice ticks k)"
| start: "\<lbrakk>sched_reach plat k; k_current k = 0\<rbrakk> \<Longrightarrow> sched_reach plat (start_scheduling plat k)"
| event: "sched_reach plat k \<Longrightarrow> sched_reach plat (sched_step plat e k)"

inductive_cases sched_reach_bootE: "sched_reach plat kernel_initial"

lemma kernel_initial_ok: "sched_ok plat kernel_initial"
  by (simp add: sched_ok_def sched_inv_def running_is_current_def cpu_loaded_def stacks_guarded_def) (simp add: kernel_initial_def)

lemma add_thread_ok:
  assumes ok: "sched_ok plat k" and t: "t_id t \<noteq> 0" "get_thread k (t_id t) = None" "t_state t \<noteq> TRunning"
    "is_kernel_stack_guard_intact plat t"
  shows "sched_ok plat (snd (add_thread t k))"
proof -
  obtain r k' where a: "add_thread t k = (r, k')" by fastforce
  have wf: "kernel_wf k" using ok by (simp add: sched_ok_def sched_inv_def)
  note sp = add_thread_spec[OF wf t(2) a]
  have regs: "k_rsp0 k' = k_rsp0 k" "k_syscall_rsp k' = k_syscall_rsp k" "k_fs_base k' = k_fs_base k"
    using a by (auto simp: add_thread_def split: prod.splits)
  show ?thesis
  proof (cases r)
    case None
    then show ?thesis using sp(2) ok a by simp
  next
    case (Some i)
    then have g: "get_thread k' = (get_thread k)(t_id t \<mapsto> t)" using sp(3) by simp
    have "k_current k = t_id t \<Longrightarrow> False" using ok t(1,2) by (auto simp: sched_ok_def sched_inv_def running_is_current_def)
    then show ?thesis
      using ok a g sp(1,5) regs t
      by (auto simp: sched_ok_def sched_inv_def running_is_current_def cpu_loaded_def stacks_guarded_def)
  qed
qed

lemma start_scheduling_ok:
  assumes ok: "sched_ok plat k" and none: "k_current k = 0"
  shows "sched_ok plat (start_scheduling plat k)"
proof -
  have wf: "kernel_wf k" "running_is_current k" "thread_queue_wf (k_threads k)"
    using ok by (simp_all add: sched_ok_def sched_inv_def kernel_wf_def)
  have halted: "sched_ok plat (k\<lparr>k_halted := True\<rparr>)"
    using wf(1) by (intro sched_ok_cong[OF ok]) (simp_all add: kernel_wf_def)
  have "sched_ok plat (switch_into plat (t_id t) (modify_thread (t_id t) (set_state TRunning) k))"
    if p: "peek_next (k_threads k) = Some i" and t: "tq_threads (k_threads k) ! i = Some t" for i t
  proof -
    let ?k = "modify_thread (t_id t) (set_state TRunning) k"
    have i: "i < MAX_THREADS" using peek_next_Some[OF p] wf(3) by (simp add: thread_queue_wf_def)
    have g: "get_thread ?k = (get_thread k)(t_id t \<mapsto> set_state TRunning t)"
      using thread_at_slot(1)[OF wf(3) i t] get_modify_thread(2)[OF wf(3), of "set_state TRunning"] by (simp add: get_thread_def)
    have gt: "get_thread k (t_id t) = Some t" using thread_at_slot(1)[OF wf(3) i t] by (simp add: get_thread_def)
    have wk: "kernel_wf ?k" by (rule modify_thread_wf[OF wf(1)]) simp
    have g0: "get_thread ?k 0 = None" using wf(2) g gt by (auto simp: running_is_current_def)
    have "sched_inv (switch_into plat (t_id t) ?k)"
      by (rule switch_into_loads(1)[OF wk _ g0]) (use g wf(2) none in \<open>auto simp: running_is_current_def split: if_splits\<close>)
    moreover have "keeps_stacks k (switch_into plat (t_id t) ?k)"
      using g gt by (auto simp: keeps_stacks_def get_switch_into)
    ultimately show ?thesis by (rule sched_okI[OF ok])
  qed
  then show ?thesis using halted by (auto simp: start_scheduling_def split: option.split)
qed

lemma sched_reach_ok: "sched_reach plat k \<Longrightarrow> sched_ok plat k"
proof (induction rule: sched_reach.induct)
  case boot
  show ?case by (rule kernel_initial_ok)
next
  case (spawn k t)
  then show ?case by (intro add_thread_ok) simp_all
next
  case (start k)
  then show ?case by (intro start_scheduling_ok)
next
  case (event k e)
  then show ?case by (intro sched_step_ok)
qed (auto simp: sched_ok_def sched_inv_def kernel_wf_def init_scheduler_def disable_scheduler_def set_time_slice_def
    running_is_current_def cpu_loaded_def stacks_guarded_def get_thread_def)

text \<open>A kernel with two threads, of which the first has been started.\<close>

definition boot_thread :: "u64 \<Rightarrow> thread" where
  "boot_thread n = fst (thread_new 0 n [] 0x1000 (n * 0x10000) 0x4000 n)"

definition boot_platform :: platform where
  "boot_platform = \<lparr>plat_pool_base = 0x800000, plat_unmap_guard = (\<lambda>_. True), plat_translate_page = None,
    plat_exit_handler = 0, plat_usermode_trampoline = 0, plat_fork_trampoline = 0, plat_x86 = flat_x86,
    plat_boot_entropy = 0\<rparr>"

definition two_threads :: kernel where
  "two_threads = init_scheduler (snd (add_thread (boot_thread 2) (snd (add_thread (boot_thread 1) kernel_initial))))"

lemma boot_thread_simps [simp]:
  "t_id (boot_thread n) = n" "t_state (boot_thread n) = TReady" "t_process_id (boot_thread n) = n"
  "t_kernel_stack (boot_thread n) = n * 0x10000" "t_kernel_stack_size (boot_thread n) = 0x4000"
  "t_pending_wakeup (boot_thread n) = False" "t_fs_base (boot_thread n) = 0" "t_in_syscall (boot_thread n) = False"
  by (simp_all add: boot_thread_def thread_new_def thread_id_new_def)

lemma boot_thread_guarded: "is_kernel_stack_guard_intact boot_platform (boot_thread 1)"
  "is_kernel_stack_guard_intact boot_platform (boot_thread 2)"
  by (simp_all add: is_kernel_stack_guard_intact_def boot_platform_def checked_add_def)

lemma push_first:
  "thread_queue_push thread_queue_new t = (Some (t_id t),
    \<lparr>tq_threads = Some t # replicate 63 None, tq_slot_generations = 1 # replicate 63 0, tq_count = 1\<rparr>)"
proof -
  have i: "find_index (\<lambda>slot. slot = None) (tq_threads thread_queue_new) = Some 0"
    by (simp add: find_index_Some thread_queue_new_def MAX_THREADS_def)
  have u: "(replicate MAX_THREADS x)[0 := y] = y # replicate 63 x" for x y :: 'a
    by (simp add: MAX_THREADS_def numeral_eq_Suc)
  have g: "replicate MAX_THREADS (0 :: u64) ! 0 = 0" by (simp add: MAX_THREADS_def)
  have room: "\<not> of_nat MAX_THREADS \<le> tq_count thread_queue_new" by (simp add: thread_queue_new_def MAX_THREADS_def)
  show ?thesis
    using i room by (simp add: thread_queue_push_def) (simp add: thread_queue_new_def u g next_generation_def)
qed

lemma add_first: "add_thread t kernel_initial = (Some (t_id t), kernel_initial\<lparr>k_threads :=
    \<lparr>tq_threads = Some t # replicate 63 None, tq_slot_generations = 1 # replicate 63 0, tq_count = 1\<rparr>\<rparr>)"
  by (simp add: add_thread_def kernel_initial_def push_first)

lemma two_threads_table:
  "k_threads two_threads = \<lparr>tq_threads = Some (boot_thread 1) # Some (boot_thread 2) # replicate 62 None,
    tq_slot_generations = 1 # 1 # replicate 62 0, tq_count = 2\<rparr>"
proof -
  have "find_index (\<lambda>slot. slot = None) (Some (boot_thread 1) # replicate 63 None) = Some 1"
    by (simp add: find_index_Some less_Suc0)
  moreover have u: "(replicate 63 x)[0 := y] = y # replicate 62 x" for x y :: 'a
    by (simp add: numeral_eq_Suc)
  moreover have "\<not> (64 :: u64) \<le> 1" by (simp add: word_le_nat_alt)
  ultimately show ?thesis
    by (simp add: two_threads_def init_scheduler_def add_first)
      (simp add: add_thread_def thread_queue_push_def next_generation_def MAX_THREADS_def u)
qed

lemma two_threads_reached: "sched_reach boot_platform two_threads"
proof -
  let ?k = "snd (add_thread (boot_thread 1) kernel_initial)"
  have 1: "sched_reach boot_platform ?k" using boot_thread_guarded by (intro spawn boot) simp_all
  have "get_thread ?k 2 = None" by (simp add: add_first get_thread_def thread_queue_get_lookup lookup_def slot_find_live)
  then show ?thesis unfolding two_threads_def using boot_thread_guarded by (intro enable spawn 1) simp_all
qed

definition two_threads_started :: kernel where
  "two_threads_started = start_scheduling boot_platform two_threads"

lemma two_threads_frame: "k_current two_threads = 0" "sc_enabled (k_sched two_threads)"
  by (auto simp: two_threads_def init_scheduler_def add_thread_def kernel_initial_def split: prod.split)

lemma two_threads_started:
  "sched_reach boot_platform two_threads_started" "k_current two_threads_started = 1"
  "sc_enabled (k_sched two_threads_started)" "get_thread two_threads_started 2 = Some (boot_thread 2)"
  "get_thread two_threads_started 1 = Some (set_state TRunning (boot_thread 1))"
proof -
  show "sched_reach boot_platform two_threads_started"
    unfolding two_threads_started_def by (rule start[OF two_threads_reached two_threads_frame(1)])
  let ?k = "modify_thread 1 (set_state TRunning) two_threads"
  have wf: "thread_queue_wf (k_threads two_threads)"
    using sched_reach_ok[OF two_threads_reached] by (simp add: sched_ok_def sched_inv_def kernel_wf_def)
  have g2: "get_thread two_threads 1 = Some (boot_thread 1)" "get_thread two_threads 2 = Some (boot_thread 2)"
    by (simp_all add: get_thread_def thread_queue_get_def two_threads_table)
  have g: "get_thread ?k = (get_thread two_threads)(1 \<mapsto> set_state TRunning (boot_thread 1))"
    using get_modify_thread(2)[OF wf, of "set_state TRunning" 1] g2 by simp
  have "peek_next (k_threads two_threads) = Some 0"
    by (simp add: peek_next_def find_index_Some two_threads_table slot_is_ready_def)
  then have e: "two_threads_started = switch_into boot_platform 1 ?k"
    by (simp add: two_threads_started_def start_scheduling_def two_threads_table)
  show "k_current two_threads_started = 1" "sc_enabled (k_sched two_threads_started)"
    using two_threads_frame by (simp_all add: e switch_into_def g set_current_thread_def)
  show "get_thread two_threads_started 2 = Some (boot_thread 2)"
    "get_thread two_threads_started 1 = Some (set_state TRunning (boot_thread 1))"
    by (simp_all add: e get_switch_into g g2)
qed





end
