(* ===== verification/Usercopy.thy ===== *)
theory Usercopy
  imports Scheduler Errno
begin

text \<open>
  How system calls reach user memory, from \<^verbatim>\<open>src/src/core/syscall/mod.rs\<close>: through the page table of the current
  process. A Rust \<^emph>\<open>Result<T, u64>\<close> is \<^typ>\<open>u64 + 'a\<close>, with the error code on the left. Every error of the page
  table walk becomes \<^emph>\<open>EFAULT\<close>; the audit log is not part of the state.
\<close>

type_synonym 'a sysres = "u64 + 'a"

section \<open>Operations\<close>

definition current_user_page_table :: "kernel \<Rightarrow> u64 option" where
  "current_user_page_table k =
    (case current_pid k of
       None \<Rightarrow> None
     | Some pid \<Rightarrow> (case get_process k pid of None \<Rightarrow> None | Some p \<Rightarrow> p_page_table p))"

definition validate_user_ptr :: "platform \<Rightarrow> kernel \<Rightarrow> u64 \<Rightarrow> u64 \<Rightarrow> bool" where
  "validate_user_ptr plat k ptr len =
    (if ptr = 0 then False
     else if ptr > USER_SPACE_END then False
     else case (if len = 0 then Some ptr else checked_add ptr (len - 1)) of
         None \<Rightarrow> False
       | Some end_inclusive \<Rightarrow>
           if end_inclusive > USER_SPACE_END then False
           else case current_user_page_table k of
               None \<Rightarrow> False
             | Some user_pt \<Rightarrow> is_user_range_mapped_in_table (plat_x86 plat) (k_vm k) user_pt ptr len)"

definition copy_from_user :: "platform \<Rightarrow> kernel \<Rightarrow> u64 \<Rightarrow> nat \<Rightarrow> bytes sysres" where
  "copy_from_user plat k src_ptr len =
    (if len = 0 then Inr []
     else case current_user_page_table k of
         None \<Rightarrow> Inl EFAULT
       | Some user_pt \<Rightarrow>
           if src_ptr = 0 then Inl EFAULT
           else case copy_from_user_in_table (plat_x86 plat) (k_vm k) user_pt src_ptr len of
               Ok bs \<Rightarrow> Inr bs
             | _ \<Rightarrow> Inl EFAULT)"

definition copy_to_user :: "platform \<Rightarrow> u64 \<Rightarrow> bytes \<Rightarrow> kernel \<Rightarrow> unit sysres \<times> kernel" where
  "copy_to_user plat dst_ptr src k =
    (if src = [] then (Inr (), k)
     else case current_user_page_table k of
         None \<Rightarrow> (Inl EFAULT, k)
       | Some user_pt \<Rightarrow>
           if dst_ptr = 0 then (Inl EFAULT, k)
           else case copy_to_user_in_table (plat_x86 plat) user_pt dst_ptr src (k_vm k) of
               (Ok _, v) \<Rightarrow> (Inr (), k\<lparr>k_vm := v\<rparr>)
             | (_, v) \<Rightarrow> (Inl EFAULT, k\<lparr>k_vm := v\<rparr>))"

text \<open>The loop of \<^emph>\<open>read_user_cstring\<close>, with the positions that are left.\<close>

fun read_cstring_loop :: "platform \<Rightarrow> kernel \<Rightarrow> u64 \<Rightarrow> nat list \<Rightarrow> bytes \<Rightarrow> bytes sysres" where
  "read_cstring_loop plat k ptr [] bs = Inl EINVAL"
| "read_cstring_loop plat k ptr (i # is) bs =
    (case checked_add ptr (of_nat i) of
       None \<Rightarrow> Inl EFAULT
     | Some addr \<Rightarrow> (case copy_from_user plat k addr 1 of
           Inl e \<Rightarrow> Inl e
         | Inr one \<Rightarrow>
             let b = hd one
             in if b = 0 then (if utf8_valid bs then Inr bs else Inl EINVAL)
                else read_cstring_loop plat k ptr is (bs @ [b])))"

definition read_user_cstring :: "platform \<Rightarrow> kernel \<Rightarrow> u64 \<Rightarrow> nat \<Rightarrow> bytes sysres" where
  "read_user_cstring plat k ptr max_len =
    (if ptr = 0 \<or> max_len = 0 then Inl EINVAL else read_cstring_loop plat k ptr [0..<max_len] [])"

definition read_user_u64 :: "platform \<Rightarrow> kernel \<Rightarrow> u64 \<Rightarrow> u64 sysres" where
  "read_user_u64 plat k ptr = map_sum id from_le_bytes (copy_from_user plat k ptr 8)"

definition read_user_u32 :: "platform \<Rightarrow> kernel \<Rightarrow> u64 \<Rightarrow> u32 sysres" where
  "read_user_u32 plat k ptr = map_sum id from_le_bytes (copy_from_user plat k ptr 4)"

definition read_user_u16 :: "platform \<Rightarrow> kernel \<Rightarrow> u64 \<Rightarrow> u16 sysres" where
  "read_user_u16 plat k ptr = map_sum id from_le_bytes (copy_from_user plat k ptr 2)"

definition write_user_u64 :: "platform \<Rightarrow> u64 \<Rightarrow> u64 \<Rightarrow> kernel \<Rightarrow> unit sysres \<times> kernel" where
  "write_user_u64 plat ptr w = copy_to_user plat ptr (to_le_bytes w)"

definition write_user_u32 :: "platform \<Rightarrow> u64 \<Rightarrow> u32 \<Rightarrow> kernel \<Rightarrow> unit sysres \<times> kernel" where
  "write_user_u32 plat ptr w = copy_to_user plat ptr (to_le_bytes w)"

definition write_user_u16 :: "platform \<Rightarrow> u64 \<Rightarrow> u16 \<Rightarrow> kernel \<Rightarrow> unit sysres \<times> kernel" where
  "write_user_u16 plat ptr w = copy_to_user plat ptr (to_le_bytes w)"

section \<open>What a copy leaves alone\<close>

lemma copy_to_user_loop_frame: "\<exists>m. snd (copy_to_user_loop X t po dst src n v) = v\<lparr>vm_mem := m\<rparr>"
proof (induction X t po dst src n v rule: copy_to_user_loop.induct)
  case (1 X t po dst src n v)
  have same: "\<exists>m. v = v\<lparr>vm_mem := m\<rparr>" by (rule exI[of _ "vm_mem v"]) simp
  have "\<exists>m'. snd (copy_to_user_loop X t po dst src (n + min (4096 - off) (length src - n))
      (v\<lparr>vm_mem := mem_write (vm_mem v) p (take (min (4096 - off) (length src - n)) (drop n src))\<rparr>)) = v\<lparr>vm_mem := m'\<rparr>"
    if "n < length src" "checked_add dst (of_nat n) = Some cur" "translate_user_addr_in_table X v t cur True = Some (p, off)"
      "checked_add p po = Some q" for cur p off q
    using 1[OF _ that(2,3) refl refl that(4)] that(1) by auto
  then show ?case
    using same by (subst copy_to_user_loop.simps) (auto simp: Let_def split: option.split)
qed

lemma copy_to_user_frame: "\<exists>m. snd (copy_to_user plat dst src k) = k\<lparr>k_vm := (k_vm k)\<lparr>vm_mem := m\<rparr>\<rparr>"
proof -
  have "\<exists>m. snd (copy_to_user_in_table X t dst src v) = v\<lparr>vm_mem := m\<rparr>" for X t v
    using copy_to_user_loop_frame[of X t _ dst src 0 v] exI[of "\<lambda>m. v = v\<lparr>vm_mem := m\<rparr>" "vm_mem v"]
    by (auto simp: copy_to_user_in_table_def split: option.split)
  then have t: "\<exists>m. v' = (k_vm k)\<lparr>vm_mem := m\<rparr>" if "copy_to_user_in_table X t dst src (k_vm k) = (r, v')" for X t r v'
    using that by (metis snd_conv)
  have "\<exists>m. k = k\<lparr>k_vm := (k_vm k)\<lparr>vm_mem := m\<rparr>\<rparr>" by (rule exI[of _ "vm_mem (k_vm k)"]) simp
  then show ?thesis
    using t unfolding copy_to_user_def
    by (fastforce split: option.split kres.split prod.split)
qed

lemma copy_to_user_keeps [simp]:
  "k_threads (snd (copy_to_user plat dst src k)) = k_threads k" "k_mailboxes (snd (copy_to_user plat dst src k)) = k_mailboxes k"
  "k_procs (snd (copy_to_user plat dst src k)) = k_procs k" "k_current (snd (copy_to_user plat dst src k)) = k_current k"
  "k_futex (snd (copy_to_user plat dst src k)) = k_futex k" "k_sleepers (snd (copy_to_user plat dst src k)) = k_sleepers k"
  "k_pipes (snd (copy_to_user plat dst src k)) = k_pipes k" "k_sched (snd (copy_to_user plat dst src k)) = k_sched k"
  using copy_to_user_frame[of plat dst src k] by auto

lemma copy_from_user_loop_length:
  "\<lbrakk>copy_from_user_loop X v t po src len n dst = Ok bs; n \<le> len\<rbrakk> \<Longrightarrow> length bs = length dst + (len - n)"
proof (induction X v t po src len n dst rule: copy_from_user_loop.induct)
  case (1 X v t po src len n dst)
  show ?case
  proof (cases "n < len")
    case True
    obtain cur p off q where c: "checked_add src (of_nat n) = Some cur" "translate_user_addr_in_table X v t cur False = Some (p, off)"
      "checked_add p po = Some q"
      and r: "copy_from_user_loop X v t po src len (n + min (4096 - off) (len - n)) (dst @ mem_read (vm_mem v) p (min (4096 - off) (len - n))) = Ok bs"
      using "1.prems"(1) True by (subst (asm) copy_from_user_loop.simps) (auto simp: Let_def split: option.splits)
    have "length bs = length dst + min (4096 - off) (len - n) + (len - (n + min (4096 - off) (len - n)))"
      using "1.IH"[OF _ c(1,2) refl refl c(3) r] True by simp
    then show ?thesis using True by simp
  next
    case False
    then show ?thesis using "1.prems" by (subst (asm) copy_from_user_loop.simps) auto
  qed
qed

lemma copy_from_user_length: "copy_from_user plat k src len = Inr bs \<Longrightarrow> length bs = len"
  using copy_from_user_loop_length[of _ _ _ _ src len 0 "[]" bs]
  by (auto simp: copy_from_user_def copy_from_user_in_table_def split: if_splits option.splits kres.splits)

lemma copy_from_user_error: "copy_from_user plat k src len = Inl e \<Longrightarrow> e = EFAULT"
  by (auto simp: copy_from_user_def split: if_splits option.splits kres.splits)

text \<open>The walk never gets stuck, so that all its errors are the ones the source maps to \<^emph>\<open>EFAULT\<close>.\<close>

lemma copy_from_user_in_table_not_stuck: "copy_from_user_in_table X v t src len \<noteq> Stuck"
proof -
  have "copy_from_user_loop X v t po src len n dst \<noteq> Stuck" for po n dst
  proof (induction X v t po src len n dst rule: copy_from_user_loop.induct)
    case (1 X v t po src len n dst)
    then show ?case by (subst copy_from_user_loop.simps) (auto simp: Let_def split: option.split)
  qed
  then show ?thesis by (auto simp: copy_from_user_in_table_def split: option.split)
qed

lemma copy_to_user_in_table_not_stuck: "fst (copy_to_user_in_table X t dst src v) \<noteq> Stuck"
proof -
  have "fst (copy_to_user_loop X t po dst src n v) \<noteq> Stuck" for po n
  proof (induction X t po dst src n v rule: copy_to_user_loop.induct)
    case (1 X t po dst src n v)
    then show ?case by (subst copy_to_user_loop.simps) (auto simp: Let_def split: option.split)
  qed
  then show ?thesis by (auto simp: copy_to_user_in_table_def split: option.split)
qed

lemma errno_nonzero [simp]: "EINVAL \<noteq> 0" "EFAULT \<noteq> 0" "EAGAIN \<noteq> 0" "EPERM \<noteq> 0" "ENOMEM \<noteq> 0" "ESRCH \<noteq> 0" "ENOSYS \<noteq> 0"
  by (simp_all add: errno_defs)

lemma copy_from_user_not_zero [simp]: "copy_from_user plat k src len \<noteq> Inl 0"
  using copy_from_user_error[of plat k src len 0] by auto

end
