(* ===== verification/Sample_Kernel.thy ===== *)
theory Sample_Kernel
  imports Usercopy
begin

text \<open>
  A small running kernel on which properties are shown to apply: two threads in two processes, the first on the processor, both
  processes with the page table of \<^verbatim>\<open>Paging\<close> that maps one page at address 0x1000.
\<close>

definition sample_process :: "u64 \<Rightarrow> process" where
  "sample_process n = (fst (process_new [] PrivUser None 0 n))\<lparr>p_page_table := Some 0x1000\<rparr>"

definition sample_procs :: process_table where
  "sample_procs = snd (process_table_add (snd (process_table_add process_table_new (sample_process 1))) (sample_process 2))"

definition sample_kernel :: kernel where
  "sample_kernel = two_threads_started\<lparr>k_vm := one_page_vm, k_procs := sample_procs\<rparr>"

lemma sample_process_simps [simp]:
  "p_id (sample_process n) = n" "p_page_table (sample_process n) = Some 0x1000" "p_state (sample_process n) = PRunning"
  "p_parent_id (sample_process n) = None" "p_heap_start (sample_process n) = 0" "p_heap_end (sample_process n) = 0"
  "p_signal_state (sample_process n) = signal_state_new" "p_privilege (sample_process n) = PrivUser"
  by (simp_all add: sample_process_def process_new_def process_id_new_def Let_def)

lemma sample_procs_wf: "process_table_wf sample_procs"
  and sample_procs_get: "process_table_get sample_procs = [1 \<mapsto> sample_process 1, 2 \<mapsto> sample_process 2]"
proof -
  have n: "unat (pt_count process_table_new) < MAX_PROCESSES" "process_table_get process_table_new = Map.empty"
    by (simp_all add: process_table_new_def MAX_PROCESSES_def process_table_get_lookup)
  obtain t1 where t1: "process_table_add process_table_new (sample_process 1) = (Some 1, t1)" "process_table_wf t1"
    "process_table_get t1 = [1 \<mapsto> sample_process 1]"
    using process_ids.add_room[OF process_table_new_wf n(1), of "sample_process 1"] n(2) by auto
  have "unat (pt_count t1) = 1"
    using process_ids.dom_card[OF t1(2)] t1(3) by simp
  then obtain t2 where "process_table_add t1 (sample_process 2) = (Some 2, t2)" "process_table_wf t2"
    "process_table_get t2 = [1 \<mapsto> sample_process 1, 2 \<mapsto> sample_process 2]"
    using process_ids.add_room[OF t1(2), of "sample_process 2"] t1(3) by (auto simp: MAX_PROCESSES_def)
  then show "process_table_wf sample_procs" "process_table_get sample_procs = [1 \<mapsto> sample_process 1, 2 \<mapsto> sample_process 2]"
    by (simp_all add: sample_procs_def t1)
qed

lemma sample_kernel_frame [simp]:
  "k_vm sample_kernel = one_page_vm" "k_procs sample_kernel = sample_procs" "k_threads sample_kernel = k_threads two_threads_started"
  "k_current sample_kernel = 1" "get_thread sample_kernel = get_thread two_threads_started"
  "k_mailboxes sample_kernel = k_mailboxes two_threads_started" "k_sched sample_kernel = k_sched two_threads_started"
  by (simp_all add: sample_kernel_def two_threads_started get_thread_def fun_eq_iff)

lemma sample_kernel_ok: "sched_ok boot_platform sample_kernel" "kernel_wf sample_kernel"
proof -
  have ok: "sched_ok boot_platform two_threads_started" by (rule sched_reach_ok[OF two_threads_started(1)])
  then have "kernel_wf two_threads_started" by (simp add: sched_ok_def sched_inv_def)
  then show w: "kernel_wf sample_kernel" by (simp add: kernel_wf_def sample_kernel_def sample_procs_wf)
  show "sched_ok boot_platform sample_kernel"
    by (rule sched_ok_cong[OF ok w]) (simp_all add: sample_kernel_def)
qed

lemma sample_platform [simp]: "plat_x86 boot_platform = flat_x86"
  by (simp add: boot_platform_def)

lemma sample_started: "two_threads_started = switch_into boot_platform 1 (modify_thread 1 (set_state TRunning) two_threads)"
proof -
  have "peek_next (k_threads two_threads) = Some 0"
    by (simp add: peek_next_def find_index_Some two_threads_table slot_is_ready_def)
  then show ?thesis by (simp add: two_threads_started_def start_scheduling_def two_threads_table)
qed

lemma sample_slots: "slots two_threads_started = Some 1 # Some 2 # replicate 62 None"
  "tq_slot_generations (k_threads two_threads_started) = 1 # 1 # replicate 62 0"
proof -
  show "slots two_threads_started = Some 1 # Some 2 # replicate 62 None"
    by (simp add: sample_started) (simp add: slots_def two_threads_table)
  show "tq_slot_generations (k_threads two_threads_started) = 1 # 1 # replicate 62 0"
    by (auto simp: sample_started switch_into_def set_current_thread_def modify_thread_def thread_queue_modify_def two_threads_table
        split: option.split)
qed

lemma sample_mailboxes: "k_mailboxes two_threads_started = replicate MAX_THREADS mailbox_new"
proof -
  have "k_mailboxes (snd (add_thread t k)) = k_mailboxes k" for t k by (simp add: add_thread_def split: prod.split)
  then have "k_mailboxes two_threads = replicate MAX_THREADS mailbox_new"
    by (simp add: two_threads_def init_scheduler_def kernel_initial_def)
  then show ?thesis by (auto simp: sample_started switch_into_def set_current_thread_def split: option.split)
qed

lemma sample_page_table:
  assumes "k_current k \<in> {1, 2}" "get_thread k (k_current k) = Some t" "t_process_id t = k_current k" "k_procs k = sample_procs"
  shows "current_user_page_table k = Some 0x1000"
  using assms
  by (auto simp: current_user_page_table_def current_pid_def current_thread_id_def get_process_def sample_procs_get)

lemma sample_threads:
  "get_thread two_threads_started = [1 \<mapsto> set_state TRunning (boot_thread 1), 2 \<mapsto> boot_thread 2]"
proof -
  have "get_thread two_threads tid = None" if "tid \<noteq> 1" "tid \<noteq> 2" for tid
    using that by (simp add: get_thread_def two_threads_table thread_queue_get_lookup lookup_None_iff)
  moreover have "thread_queue_wf (k_threads two_threads)"
    using sched_reach_ok[OF two_threads_reached] by (simp add: sched_ok_def sched_inv_def kernel_wf_def)
  ultimately show ?thesis
    using two_threads_started(4,5) by (auto simp: fun_eq_iff sample_started get_switch_into get_modify_thread)
qed

lemma sample_cr3: "k_kernel_cr3 sample_kernel = 0"
proof -
  have "k_kernel_cr3 (snd (add_thread t k)) = k_kernel_cr3 k" for t k by (simp add: add_thread_def split: prod.split)
  then have "k_kernel_cr3 two_threads = 0" by (simp add: two_threads_def init_scheduler_def kernel_initial_def)
  then show ?thesis
    by (auto simp: sample_kernel_def sample_started switch_into_def set_current_thread_def modify_thread_def split: option.split)
qed

end
