(* ===== verification/Ipc.thy ===== *)
theory Ipc
  imports Sample_Kernel
begin

text \<open>
  Sending and receiving messages, from \<^verbatim>\<open>src/src/core/syscall/ipc.rs\<close>: the mailbox of a thread is the one with the index of
  its slot in the thread queue, and a message carries the slot's generation. An operation is \<^term>\<open>None\<close> where the source panics.
  The blocking receives are one turn of their loop: a turn that finds no message ends with the thread asleep and the processor given away.
\<close>

section \<open>Sending\<close>

definition thread_slot :: "kernel \<Rightarrow> u64 \<Rightarrow> (nat \<times> u64) option" where
  "thread_slot k tid = slot_index_and_generation (k_threads k) tid"

definition set_mailbox :: "nat \<Rightarrow> mailbox \<Rightarrow> kernel \<Rightarrow> kernel" where
  "set_mailbox i mb k = k\<lparr>k_mailboxes := (k_mailboxes k)[i := mb]\<rparr>"

text \<open>The end of every send that queued a message: the thread waiting at the mailbox is taken out and woken.\<close>

definition post :: "nat \<Rightarrow> mailbox \<Rightarrow> kernel \<Rightarrow> kernel" where
  "post i mb k =
    (let (waiter, mb') = take_waiter mb; k' = set_mailbox i mb' k
     in if waiter \<noteq> 0 then wake_thread waiter k' else k')"

definition raw_current :: "kernel \<Rightarrow> u64" where
  "raw_current k = (case current_thread_id k of Some t \<Rightarrow> t | None \<Rightarrow> 0)"

definition send_from_kernel :: "u64 \<Rightarrow> bytes \<Rightarrow> kernel \<Rightarrow> (bool \<times> kernel) option" where
  "send_from_kernel dest dat k =
    (if length dat > MAX_MSG_SIZE then Some (False, k)
     else case thread_slot k dest of
         None \<Rightarrow> Some (False, k)
       | Some (i, gen) \<Rightarrow>
           if i \<ge> MAX_THREADS then Some (False, k)
           else case push_message (k_mailboxes k ! i) (raw_current k) dest (of_nat i) gen dat of
               None \<Rightarrow> None
             | Some (True, mb) \<Rightarrow> Some (True, post i mb k)
             | Some (False, mb) \<Rightarrow> Some (False, set_mailbox i mb k))"

text \<open>The two sends that fill the slot themselves differ in what they write.\<close>

definition fill_pages :: "u64 \<Rightarrow> u64 \<Rightarrow> u16 \<Rightarrow> u64 \<Rightarrow> u64 \<Rightarrow> u64 \<Rightarrow> u64 list \<Rightarrow> message \<Rightarrow> message" where
  "fill_pages sender to to_slot gen map_start total_bytes pages m =
    m\<lparr>msg_from := sender, msg_to := to, msg_to_slot := to_slot, msg_to_generation := gen,
      msg_data := overwrite_front (msg_data m) (to_le_bytes map_start @ to_le_bytes total_bytes), msg_len := 16,
      msg_ext_pages_count := of_nat (length pages), msg_ext_pages := overwrite_front (msg_ext_pages m) pages\<rparr>"

definition MAP_HEADER_MAGIC :: u32 where "MAP_HEADER_MAGIC = 0xABCDDCBA"

definition fill_map_header :: "u64 \<Rightarrow> u64 \<Rightarrow> u16 \<Rightarrow> u64 \<Rightarrow> u64 \<Rightarrow> u64 \<Rightarrow> message \<Rightarrow> message" where
  "fill_map_header sender to to_slot gen map_start total_bytes m =
    m\<lparr>msg_from := sender, msg_to := to, msg_to_slot := to_slot, msg_to_generation := gen,
      msg_data := overwrite_front (msg_data m) (to_le_bytes MAP_HEADER_MAGIC @ to_le_bytes map_start @ to_le_bytes total_bytes),
      msg_len := 20, msg_ext_pages_count := 0\<rparr>"

definition send_filled :: "u64 \<Rightarrow> (u64 \<Rightarrow> u16 \<Rightarrow> u64 \<Rightarrow> message \<Rightarrow> message) \<Rightarrow> kernel \<Rightarrow> (bool \<times> kernel) option" where
  "send_filled dest fill k =
    (case thread_slot k dest of
       None \<Rightarrow> Some (False, k)
     | Some (i, gen) \<Rightarrow>
         if i \<ge> MAX_THREADS then Some (False, k)
         else case alloc_slot (k_mailboxes k ! i) of
             None \<Rightarrow> None
           | Some (None, mb) \<Rightarrow> Some (False, set_mailbox i mb k)
           | Some (Some slot, mb) \<Rightarrow>
               (case array_get (mb_slots mb) slot of
                  None \<Rightarrow> None
                | Some m \<Rightarrow>
                    (case commit_slot (mb\<lparr>mb_slots := (mb_slots mb)[slot := fill (raw_current k) (of_nat i) gen m]\<rparr>) slot of
                       None \<Rightarrow> None
                     | Some (True, mb') \<Rightarrow> Some (True, post i mb' k)
                     | Some (False, mb') \<Rightarrow> Some (False, set_mailbox i mb' k))))"

definition send_pages_from_kernel :: "u64 \<Rightarrow> u64 \<Rightarrow> u64 \<Rightarrow> u64 list \<Rightarrow> kernel \<Rightarrow> (bool \<times> kernel) option" where
  "send_pages_from_kernel dest map_start total_bytes pages k =
    (if length pages > 128 then Some (False, k)
     else send_filled dest (\<lambda>sender slot gen. fill_pages sender dest slot gen map_start total_bytes pages) k)"

definition send_map_header_from_kernel :: "u64 \<Rightarrow> u64 \<Rightarrow> u64 \<Rightarrow> kernel \<Rightarrow> (bool \<times> kernel) option" where
  "send_map_header_from_kernel dest map_start total_bytes k =
    send_filled dest (\<lambda>sender slot gen. fill_map_header sender dest slot gen map_start total_bytes) k"

definition send :: "platform \<Rightarrow> u64 \<Rightarrow> u64 \<Rightarrow> u64 \<Rightarrow> kernel \<Rightarrow> (u64 \<times> kernel) option" where
  "send plat dest buf_ptr len k =
    (if dest = 0 then Some (EINVAL, k)
     else if unat len > MAX_MSG_SIZE then Some (EINVAL, k)
     else if len > 0 \<and> buf_ptr = 0 then Some (EFAULT, k)
     else case current_thread_id k of
         None \<Rightarrow> Some (EINVAL, k)
       | Some sender \<Rightarrow> (case thread_slot k dest of
             None \<Rightarrow> Some (EINVAL, k)
           | Some (i, gen) \<Rightarrow>
               if i \<ge> MAX_THREADS \<or> i > 65535 then Some (EINVAL, k)
               else case (if len > 0 \<and> buf_ptr \<noteq> 0 then copy_from_user plat k buf_ptr (unat len) else Inr []) of
                   Inl e \<Rightarrow> Some (e, k)
                 | Inr dat \<Rightarrow> (case push_message (k_mailboxes k ! i) sender dest (of_nat i) gen dat of
                       None \<Rightarrow> None
                     | Some (False, mb) \<Rightarrow> Some (EAGAIN, set_mailbox i mb k)
                     | Some (True, mb) \<Rightarrow> Some (0, post i mb k))))"

section \<open>Pages that come with a message\<close>

definition IPC_MAP_BASE :: u64 where "IPC_MAP_BASE = 0x710000000000"

text \<open>The address range taken from the heap of the receiver.\<close>

definition reserve_heap :: "u64 \<Rightarrow> process \<Rightarrow> (u64 \<times> u64 \<times> u64 \<times> u64) sysres \<times> process" where
  "reserve_heap page_span p =
    (let base = (if p_heap_end p < IPC_MAP_BASE then IPC_MAP_BASE else p_heap_end p)
     in case page_align_up base of
          None \<Rightarrow> (Inl EINVAL, p)
        | Some virt_addr \<Rightarrow> (case checked_add virt_addr page_span of
              None \<Rightarrow> (Inl EINVAL, p)
            | Some new_end \<Rightarrow> (case p_page_table p of
                  None \<Rightarrow> (Inl EINVAL, p)
                | Some pt \<Rightarrow> (Inr (virt_addr, pt, p_heap_end p, new_end), p\<lparr>p_heap_end := new_end\<rparr>))))"

text \<open>Mapping the pages one by one; the left result is the index of the page that could not be mapped.\<close>

fun map_ext_pages :: "x86 \<Rightarrow> u64 \<Rightarrow> u64 \<Rightarrow> u64 list \<Rightarrow> nat \<Rightarrow> vm \<Rightarrow> (nat + unit) option \<times> vm" where
  "map_ext_pages X pt virt_addr [] i v = (Some (Inr ()), v)"
| "map_ext_pages X pt virt_addr (p # ps) i v =
    (case map_page_in_table X pt (virt_addr + of_nat i * 0x1000) p True False v of
       (Ok _, v) \<Rightarrow> map_ext_pages X pt virt_addr ps (i + 1) v
     | (Err _, v) \<Rightarrow> (Some (Inl i), v)
     | (Stuck, v) \<Rightarrow> (None, v))"

definition unmap_ext_pages :: "x86 \<Rightarrow> u64 \<Rightarrow> u64 \<Rightarrow> nat \<Rightarrow> vm \<Rightarrow> vm" where
  "unmap_ext_pages X pt virt_addr n v =
    fold (\<lambda>j v. snd (unmap_page_in_table X pt (virt_addr + of_nat j * 0x1000) v)) [0..<n] v"

definition map_external_pages_for_receiver ::
  "platform \<Rightarrow> u64 \<Rightarrow> u64 \<Rightarrow> u16 \<Rightarrow> u64 list \<Rightarrow> kernel \<Rightarrow> (u64 sysres \<times> kernel) option" where
  "map_external_pages_for_receiver plat receiver total_bytes count pages k =
    (let X = plat_x86 plat; page_span = ucast count * 0x1000
     in if count = 0 \<or> unat count > length pages then Some (Inl EINVAL, k)
        else if total_bytes = 0 then Some (Inl EINVAL, k)
        else if total_bytes > page_span then Some (Inl EINVAL, k)
        else case thread_to_process_id (k_threads k) receiver of
            None \<Rightarrow> Some (Inl EINVAL, k)
          | Some pid \<Rightarrow> (case get_process k pid of
                None \<Rightarrow> Some (Inl EINVAL, k)
              | Some p \<Rightarrow> (case reserve_heap page_span p of
                    (Inl e, _) \<Rightarrow> Some (Inl e, k)
                  | (Inr (virt_addr, pt, old_end, new_end), _) \<Rightarrow>
                      let k = modify_process pid (\<lambda>p. snd (reserve_heap page_span p)) k
                      in case map_ext_pages X pt virt_addr (take (unat count) pages) 0 (k_vm k) of
                           (None, _) \<Rightarrow> None
                         | (Some (Inr _), v) \<Rightarrow> Some (Inr virt_addr, k\<lparr>k_vm := v\<rparr>)
                         | (Some (Inl i), v) \<Rightarrow>
                             Some (Inl EFAULT, modify_process pid
                               (\<lambda>p. if p_heap_end p = new_end then p\<lparr>p_heap_end := old_end\<rparr> else p)
                               (k\<lparr>k_vm := unmap_ext_pages X pt virt_addr i v\<rparr>)))))"

definition prepare_external_pages_for_user ::
  "platform \<Rightarrow> u64 \<Rightarrow> bytes \<Rightarrow> nat \<Rightarrow> u16 \<Rightarrow> u64 list \<Rightarrow> kernel \<Rightarrow> ((bytes \<times> nat) sysres \<times> kernel) option" where
  "prepare_external_pages_for_user plat receiver recv_buf copy_len count pages k =
    (if count = 0 then Some (Inr (recv_buf, copy_len), k)
     else if copy_len < 16 \<or> length recv_buf < 16 then Some (Inl EFAULT, k)
     else let total_bytes = from_le_bytes (take 8 (drop 8 recv_buf)) :: u64
          in case map_external_pages_for_receiver plat receiver total_bytes count pages k of
               None \<Rightarrow> None
             | Some (Inl e, k) \<Rightarrow> Some (Inl e, k)
             | Some (Inr mapped_addr, k) \<Rightarrow>
                 Some (Inr (overwrite_front recv_buf (to_le_bytes mapped_addr @ to_le_bytes total_bytes), 16), k))"

section \<open>Receiving\<close>

text \<open>The mailbox a thread receives from, fixed when the call starts: its index and the generation of the slot.\<close>

definition receive_slot :: "kernel \<Rightarrow> (u64 \<times> nat \<times> u64) option" where
  "receive_slot k =
    (case current_thread_id k of
       None \<Rightarrow> None
     | Some receiver \<Rightarrow> (case thread_slot k receiver of
           None \<Rightarrow> None
         | Some (i, gen) \<Rightarrow> if i \<ge> MAX_THREADS \<or> i > 65535 then None else Some (receiver, i, gen)))"

text \<open>What is done with a message taken out of the mailbox.\<close>

definition deliver :: "platform \<Rightarrow> u64 \<Rightarrow> u64 \<Rightarrow> bytes \<Rightarrow> u64 \<times> nat \<times> u16 \<times> u64 list \<Rightarrow> kernel \<Rightarrow> (u64 \<times> kernel) option" where
  "deliver plat receiver buf_ptr recv_buf msg k =
    (case msg of (sender, copy_len, count, pages) \<Rightarrow>
       case prepare_external_pages_for_user plat receiver recv_buf copy_len count pages k of
         None \<Rightarrow> None
       | Some (Inl e, k) \<Rightarrow> Some (e, k)
       | Some (Inr (recv_buf, copy_len), k) \<Rightarrow>
           if copy_len > 0 \<and> buf_ptr \<noteq> 0 then
             (case copy_to_user plat buf_ptr (take copy_len recv_buf) k of
                (Inl e, k) \<Rightarrow> Some (e, k)
              | (Inr _, k) \<Rightarrow> Some (push_bit 32 sender OR of_nat copy_len, k))
           else Some (push_bit 32 sender OR of_nat copy_len, k))"

definition receive_from :: "nat \<Rightarrow> u64 \<Rightarrow> u64 \<Rightarrow> nat \<Rightarrow> kernel \<Rightarrow> (received \<times> bytes \<times> kernel) option" where
  "receive_from i receiver gen max_copy k =
    (let recv_buf = replicate MAX_MSG_SIZE 0
     in case pop_valid_for_receiver_copy (k_mailboxes k ! i) receiver (of_nat i) gen (take max_copy recv_buf) of
          None \<Rightarrow> None
        | Some (r, mb, out) \<Rightarrow> Some (r, overwrite_front recv_buf out, set_mailbox i mb k))"

definition recv :: "platform \<Rightarrow> u64 \<Rightarrow> u64 \<Rightarrow> kernel \<Rightarrow> (u64 \<times> kernel) option" where
  "recv plat buf_ptr max_len k =
    (case receive_slot k of
       None \<Rightarrow> Some (EINVAL, k)
     | Some (receiver, i, gen) \<Rightarrow>
         (case receive_from i receiver gen (min (unat max_len) MAX_MSG_SIZE) k of
            None \<Rightarrow> None
          | Some (None, _, k) \<Rightarrow> Some (EAGAIN, k)
          | Some (Some msg, recv_buf, k) \<Rightarrow> deliver plat receiver buf_ptr recv_buf msg k))"

text \<open>How a turn of a blocking receive ends.\<close>

datatype 'a turn = Returned 'a | Waiting

definition set_waiter :: "nat \<Rightarrow> u64 \<Rightarrow> kernel \<Rightarrow> kernel" where
  "set_waiter i w k = set_mailbox i ((k_mailboxes k ! i)\<lparr>mb_waiter := w\<rparr>) k"

definition clear_waiter :: "nat \<Rightarrow> u64 \<Rightarrow> kernel \<Rightarrow> kernel" where
  "clear_waiter i w k = (if mb_waiter (k_mailboxes k ! i) = w then set_waiter i 0 k else k)"

definition recv_blocking_turn ::
  "platform \<Rightarrow> u64 \<times> nat \<times> u64 \<Rightarrow> u64 \<Rightarrow> u64 \<Rightarrow> kernel \<Rightarrow> (u64 turn \<times> kernel) option" where
  "recv_blocking_turn plat slot buf_ptr max_len k =
    (case slot of (receiver, i, gen) \<Rightarrow>
       case receive_from i receiver gen (min (unat max_len) MAX_MSG_SIZE) k of
         None \<Rightarrow> None
       | Some (Some msg, recv_buf, k) \<Rightarrow> map_option (\<lambda>(r, k). (Returned r, k)) (deliver plat receiver buf_ptr recv_buf msg k)
       | Some (None, _, k) \<Rightarrow>
           (case sleep_thread_unless_woken receiver (set_waiter i receiver k) of
              (True, k) \<Rightarrow> Some (Waiting, yield_now plat k)
            | (False, k) \<Rightarrow> Some (Returned 0, clear_waiter i receiver k)))"

definition recv_blocking_start :: "kernel \<Rightarrow> (u64 \<times> nat \<times> u64) sysres" where
  "recv_blocking_start k = (case receive_slot k of None \<Rightarrow> Inl EINVAL | Some s \<Rightarrow> Inr s)"

definition recv_from_sender_for_kernel_nonblocking :: "u64 \<Rightarrow> bytes \<Rightarrow> kernel \<Rightarrow> (nat option sysres \<times> bytes \<times> kernel) option" where
  "recv_from_sender_for_kernel_nonblocking sender buf k =
    (case receive_slot k of
       None \<Rightarrow> Some (Inl EINVAL, buf, k)
     | Some (receiver, i, gen) \<Rightarrow>
         (case pop_from_sender_copy (k_mailboxes k ! i) sender receiver (of_nat i) gen buf of
            None \<Rightarrow> None
          | Some (r, mb, buf) \<Rightarrow> Some (Inr (map_option snd r), buf, set_mailbox i mb k)))"

definition recv_from_sender_turn ::
  "platform \<Rightarrow> u64 \<times> nat \<times> u64 \<Rightarrow> u64 \<Rightarrow> bytes \<Rightarrow> kernel \<Rightarrow> (nat sysres turn \<times> bytes \<times> kernel) option" where
  "recv_from_sender_turn plat slot sender buf k =
    (case slot of (receiver, i, gen) \<Rightarrow>
       case pop_from_sender_copy (k_mailboxes k ! i) sender receiver (of_nat i) gen buf of
         None \<Rightarrow> None
       | Some (Some (_, n), mb, buf) \<Rightarrow> Some (Returned (Inr n), buf, set_mailbox i mb k)
       | Some (None, mb, buf) \<Rightarrow>
           (case sleep_thread_unless_woken receiver (set_waiter i receiver (set_mailbox i mb k)) of
              (True, k) \<Rightarrow> Some (Waiting, buf, yield_now plat k)
            | (False, k) \<Rightarrow> Some (Returned (Inl EAGAIN), buf, clear_waiter i receiver k)))"

section \<open>Invariant\<close>

lemma thread_slot_bound:
  assumes "kernel_wf k" "thread_slot k tid = Some (i, g)"
  shows "i < MAX_THREADS" "i < length (k_mailboxes k)" "i \<le> 65535" "get_thread k tid \<noteq> None" "mailbox_wf (k_mailboxes k ! i)"
proof -
  have wf: "thread_queue_wf (k_threads k)" "length (k_mailboxes k) = MAX_THREADS" using assms(1) by (simp_all add: kernel_wf_def)
  have s: "thread_queue_slot_index (k_threads k) tid = Some i" using assms(2) by (auto simp: thread_slot_def slot_index_and_generation_def)
  then show i: "i < MAX_THREADS" using slot_index_Some[of "k_threads k" tid i] wf(1) by (auto simp: thread_queue_wf_def)
  then show "i < length (k_mailboxes k)" "i \<le> 65535" using wf(2) by (simp_all add: MAX_THREADS_def)
  then show "mailbox_wf (k_mailboxes k ! i)" using assms(1) by (simp add: kernel_wf_def)
  show "get_thread k tid \<noteq> None" using s slot_index_None[of "k_threads k" tid] by (simp add: get_thread_def)
qed

lemma mailbox_waiter [simp]:
  "mailbox_wf (mb\<lparr>mb_waiter := w\<rparr>) = mailbox_wf mb" "mailbox_messages (mb\<lparr>mb_waiter := w\<rparr>) = mailbox_messages mb"
  by (simp_all add: mb_inv_def mailbox_messages_def mb_free_list_def)

lemma thread_slot_same:
  assumes "slots k' = slots k" "tq_slot_generations (k_threads k') = tq_slot_generations (k_threads k)"
  shows "thread_slot k' tid = thread_slot k tid"
  using assms by (simp add: thread_slot_def slot_index_and_generation_def slot_index_slots)

lemma set_mailbox_frame [simp]:
  "k_threads (set_mailbox i mb k) = k_threads k" "k_mailboxes (set_mailbox i mb k) = (k_mailboxes k)[i := mb]"
  "k_vm (set_mailbox i mb k) = k_vm k" "k_current (set_mailbox i mb k) = k_current k" "k_procs (set_mailbox i mb k) = k_procs k"
  "k_sched (set_mailbox i mb k) = k_sched k" "get_thread (set_mailbox i mb k) = get_thread k"
  "current_thread_id (set_mailbox i mb k) = current_thread_id k" "get_process (set_mailbox i mb k) = get_process k"
  "current_user_page_table (set_mailbox i mb k) = current_user_page_table k" "thread_slot (set_mailbox i mb k) = thread_slot k"
  by (simp_all add: set_mailbox_def get_thread_def current_thread_id_def get_process_def current_user_page_table_def
      current_pid_def thread_slot_def fun_eq_iff split: option.split)

lemma set_mailbox_wf: "\<lbrakk>kernel_wf k; mailbox_wf mb\<rbrakk> \<Longrightarrow> kernel_wf (set_mailbox i mb k)"
  by (auto simp: kernel_wf_def set_mailbox_def dest: set_update_subset_insert[THEN subsetD])

lemma wake_thread_slot [simp]: "thread_slot (wake_thread w k) = thread_slot k"
proof (rule ext, rule thread_slot_same)
  show "tq_slot_generations (k_threads (wake_thread w k)) = tq_slot_generations (k_threads k)"
    by (simp add: wake_thread_def modify_thread_def thread_queue_modify_def)
qed simp

lemma post_spec:
  assumes "kernel_wf k" "mailbox_wf mb"
  shows "kernel_wf (post i mb k)" "k_mailboxes (post i mb k) = (k_mailboxes k)[i := mb\<lparr>mb_waiter := 0\<rparr>]"
    "k_vm (post i mb k) = k_vm k" "k_current (post i mb k) = k_current k" "k_procs (post i mb k) = k_procs k"
    "thread_slot (post i mb k) = thread_slot k"
    "get_thread (post i mb k) = (if mb_waiter mb = 0 then get_thread k
       else (get_thread k)(mb_waiter mb := map_option wake_transition (get_thread k (mb_waiter mb))))"
    "running_is_current k \<Longrightarrow> running_is_current (post i mb k)"
proof -
  let ?k = "set_mailbox i (mb\<lparr>mb_waiter := 0\<rparr>) k"
  have wf: "kernel_wf ?k" using assms by (simp add: set_mailbox_wf)
  have p: "post i mb k = (if mb_waiter mb \<noteq> 0 then wake_thread (mb_waiter mb) ?k else ?k)" by (simp add: post_def take_waiter_def)
  show "kernel_wf (post i mb k)" using wf by (simp add: p wake_thread_def modify_thread_wf)
  show "k_mailboxes (post i mb k) = (k_mailboxes k)[i := mb\<lparr>mb_waiter := 0\<rparr>]" "k_vm (post i mb k) = k_vm k"
    "k_current (post i mb k) = k_current k" "k_procs (post i mb k) = k_procs k" "thread_slot (post i mb k) = thread_slot k"
    by (simp_all add: p)
  show "get_thread (post i mb k) = (if mb_waiter mb = 0 then get_thread k
       else (get_thread k)(mb_waiter mb := map_option wake_transition (get_thread k (mb_waiter mb))))"
    using get_wake_thread[OF wf] by (simp add: p)
  show "running_is_current (post i mb k)" if "running_is_current k"
  proof -
    have "running_is_current ?k" using that by (simp add: running_is_current_def)
    then show ?thesis using wake_thread_inv(2)[OF wf] by (simp add: p)
  qed
qed

section \<open>What a send does\<close>

lemma send_ok:
  assumes wf: "kernel_wf k" and s: "send plat d buf len k = Some (0, k')"
  obtains sender i g dat mb where "current_thread_id k = Some sender" "thread_slot k d = Some (i, g)" "length dat = unat len"
    "copy_from_user plat k buf (unat len) = Inr dat" "push_message (k_mailboxes k ! i) sender d (of_nat i) g dat = Some (True, mb)"
    "k' = post i mb k" "mailbox_wf mb" "mb_waiter mb = mb_waiter (k_mailboxes k ! i)"
    "mailbox_messages mb = mailbox_messages (k_mailboxes k ! i) @ [fill_message sender d (of_nat i) g dat message_empty]"
proof -
  from s obtain sender i g dat mb where r: "current_thread_id k = Some sender" "thread_slot k d = Some (i, g)"
    "(if len > 0 \<and> buf \<noteq> 0 then copy_from_user plat k buf (unat len) else Inr []) = Inr dat" "\<not> (len > 0 \<and> buf = 0)"
    "push_message (k_mailboxes k ! i) sender d (of_nat i) g dat = Some (True, mb)" "k' = post i mb k"
    by (auto simp: send_def split: if_splits option.splits sum.splits bool.splits)
  have dat: "copy_from_user plat k buf (unat len) = Inr dat"
    using r(3,4) by (cases "len = 0") (auto simp: copy_from_user_def word_gt_0)
  have mwf: "mailbox_wf (k_mailboxes k ! i)" using thread_slot_bound[OF wf r(2)] by simp
  have p: "mailbox_wf mb \<and> mb_waiter mb = mb_waiter (k_mailboxes k ! i)
    \<and> mailbox_messages mb = mailbox_messages (k_mailboxes k ! i) @ [fill_message sender d (of_nat i) g dat message_empty]"
    using push_message_inv[OF mwf, of sender d "of_nat i" g dat] r(5) by (auto split: if_splits)
  show ?thesis using that[OF r(1,2) copy_from_user_length[OF dat] dat r(5,6)] p by blast
qed

lemma send_total:
  assumes wf: "kernel_wf k"
  shows "\<exists>r k'. send plat d buf len k = Some (r, k') \<and> kernel_wf k' \<and> (running_is_current k \<longrightarrow> running_is_current k')"
proof -
  have p: "\<exists>ok mb. push_message (k_mailboxes k ! i) s d (of_nat i) g dat = Some (ok, mb) \<and> mailbox_wf mb"
    if "thread_slot k d = Some (i, g)" for i g s dat
    using push_message_inv[of "k_mailboxes k ! i" s d "of_nat i" g dat] thread_slot_bound(5)[OF wf that] by blast
  have m: "running_is_current (set_mailbox i mb k) = running_is_current k" for i mb by (simp add: running_is_current_def)
  show ?thesis
    using wf post_spec(1,8)[OF wf] set_mailbox_wf[OF wf] p m
    by (auto simp: send_def split: option.split sum.split bool.split prod.split) (metis option.distinct(1) option.inject prod.inject)+
qed

section \<open>What a receive does\<close>

lemma receive_from_spec:
  assumes wf: "kernel_wf k" and i: "i < length (k_mailboxes k)" and n: "n \<le> MAX_MSG_SIZE"
  shows "\<exists>r buf mb. receive_from i receiver g n k = Some (r, buf, set_mailbox i mb k) \<and> mailbox_wf mb
    \<and> mb_waiter mb = mb_waiter (k_mailboxes k ! i) \<and> length buf = MAX_MSG_SIZE
    \<and> (case dropWhile (\<lambda>m. \<not> addressed_to receiver (of_nat i) g m) (mailbox_messages (k_mailboxes k ! i)) of
         [] \<Rightarrow> r = None \<and> mailbox_messages mb = []
       | m # ms \<Rightarrow> message_wf m \<and> mailbox_messages mb = ms
           \<and> r = Some (msg_from m, min (msg_len m) n, msg_ext_pages_count m, msg_ext_pages m)
           \<and> take (min (msg_len m) n) buf = take (min (msg_len m) n) (msg_data m))"
proof -
  let ?out = "take n (replicate MAX_MSG_SIZE (0 :: u8))" let ?mb = "k_mailboxes k ! i"
  let ?rest = "dropWhile (\<lambda>m. \<not> addressed_to receiver (of_nat i) g m) (mailbox_messages ?mb)"
  have mwf: "mailbox_wf ?mb" using wf i by (simp add: kernel_wf_def)
  have ln: "length ?out = n" using n by simp
  obtain r mb out where p: "pop_valid_for_receiver_copy ?mb receiver (of_nat i) g ?out = Some (r, mb, out)" "mailbox_wf mb"
    "mb_waiter mb = mb_waiter ?mb"
    "case ?rest of [] \<Rightarrow> r = None \<and> mailbox_messages mb = [] \<and> out = ?out
     | m # ms \<Rightarrow> r = Some (delivered m ?out) \<and> mailbox_messages mb = ms \<and> out = copied m ?out"
    using pop_valid_inv[OF mwf, of receiver "of_nat i" g ?out] by blast
  have f: "receive_from i receiver g n k = Some (r, overwrite_front (replicate MAX_MSG_SIZE 0) out, set_mailbox i mb k)"
    using p(1) by (simp add: receive_from_def)
  show ?thesis
  proof (cases ?rest)
    case Nil
    then show ?thesis using p f n by (auto simp del: dropWhile_eq_Nil_conv)
  next
    case (Cons m ms)
    have "m \<in> set (mailbox_messages ?mb)" using Cons by (metis list.set_intros(1) set_dropWhileD)
    then have m: "message_wf m" using mwf by (simp add: mb_inv_def)
    then have l: "min (msg_len m) n \<le> length (msg_data m)" by (auto simp: message_wf_def)
    have "length (copied m ?out) = n" using l n by (simp add: copied_def message_wf_def)
    moreover have "take (min (msg_len m) n) (copied m ?out) = take (min (msg_len m) n) (msg_data m)"
      using l ln by (simp add: copied_def overwrite_front_def)
    ultimately have "take (min (msg_len m) n) (overwrite_front (replicate MAX_MSG_SIZE 0) (copied m ?out)) =
        take (min (msg_len m) n) (msg_data m)"
      by (simp add: overwrite_front_def)
    then show ?thesis
      using p f Cons m n \<open>length (copied m ?out) = n\<close> ln by (auto simp: delivered_def)
  qed
qed

lemma deliver_plain:
  assumes "n > 0" "buf_ptr \<noteq> 0" "copy_to_user plat buf_ptr (take n recv_buf) k = (Inr (), k')"
  shows "deliver plat receiver buf_ptr recv_buf (sender, n, 0, pages) k = Some (push_bit 32 sender OR of_nat n, k')"
  using assms by (simp add: deliver_def prepare_external_pages_for_user_def)

text \<open>The first message for a receiver, taken from a queue that held none for it before.\<close>

lemma dropWhile_last: "\<lbrakk>\<forall>x\<in>set xs. P x; \<not> P y\<rbrakk> \<Longrightarrow> dropWhile P (xs @ [y]) = [y]"
  by (induction xs) auto

lemma recv_after_send:
  assumes wf: "kernel_wf k" and s: "send plat d buf len k = Some (0, k1)" and slot: "thread_slot k d = Some (i, g)"
    and first: "\<forall>m\<in>set (mailbox_messages (k_mailboxes k ! i)). \<not> addressed_to d (of_nat i) g m"
    and wf2: "kernel_wf k2" and cur: "current_thread_id k2 = Some d" and slot2: "thread_slot k2 d = Some (i, g)"
    and same: "k_mailboxes k2 ! i = k_mailboxes k1 ! i" and len: "0 < len" "len \<le> max_len" and buf': "buf' \<noteq> 0"
  obtains sender dat mb where "current_thread_id k = Some sender" "copy_from_user plat k buf (unat len) = Inr dat" "length dat = unat len"
    "mailbox_messages mb = []" "mailbox_wf mb"
    "\<And>k3. copy_to_user plat buf' dat (set_mailbox i mb k2) = (Inr (), k3) \<Longrightarrow>
      recv plat buf' max_len k2 = Some (push_bit 32 sender OR len, k3)"
proof -
  obtain sender dat mb0 where so: "current_thread_id k = Some sender" "length dat = unat len"
    "copy_from_user plat k buf (unat len) = Inr dat" "k1 = post i mb0 k" "mailbox_wf mb0"
    "mailbox_messages mb0 = mailbox_messages (k_mailboxes k ! i) @ [fill_message sender d (of_nat i) g dat message_empty]"
    using send_ok[OF wf s] slot by (metis option.inject prod.inject)
  let ?m = "fill_message sender d (of_nat i) g dat message_empty"
  have small: "unat len \<le> MAX_MSG_SIZE" using s by (auto simp: send_def split: if_splits)
  have k2m: "mailbox_messages (k_mailboxes k2 ! i) = mailbox_messages (k_mailboxes k ! i) @ [?m]"
    using same so(4-6) post_spec(2)[OF wf so(5)] thread_slot_bound(2)[OF wf slot] by simp
  have ad: "addressed_to d (of_nat i) g ?m" "msg_len ?m = unat len" "msg_from ?m = sender" "msg_ext_pages_count ?m = 0"
    "take (unat len) (msg_data ?m) = dat"
    using so(2) by (simp_all add: fill_message_def addressed_to_def overwrite_front_def)
  have dw: "dropWhile (\<lambda>m. \<not> addressed_to d (of_nat i) g m) (mailbox_messages (k_mailboxes k2 ! i)) = [?m]"
    unfolding k2m using first ad(1) by (intro dropWhile_last) auto
  let ?n = "min (unat max_len) MAX_MSG_SIZE"
  have n: "min (unat len) ?n = unat len" using len(2) small by (simp add: word_le_nat_alt)
  obtain r rbuf mb where r: "receive_from i d g ?n k2 = Some (r, rbuf, set_mailbox i mb k2)" "mailbox_wf mb" "mailbox_messages mb = []"
    "r = Some (sender, unat len, 0, msg_ext_pages ?m)" "take (unat len) rbuf = dat"
    using receive_from_spec[OF wf2 thread_slot_bound(2)[OF wf2 slot2], of ?n d g] unfolding dw using ad n by auto
  have rs: "receive_slot k2 = Some (d, i, g)"
    using cur slot2 thread_slot_bound(1,3)[OF wf2 slot2] by (simp add: receive_slot_def)
  show ?thesis
  proof (rule that[OF so(1,3,2) r(3,2)])
    fix k3 assume c: "copy_to_user plat buf' dat (set_mailbox i mb k2) = (Inr (), k3)"
    have "recv plat buf' max_len k2 = Some (push_bit 32 sender OR of_nat (unat len), k3)"
      using r rs deliver_plain[OF _ buf', of "unat len" plat rbuf "set_mailbox i mb k2" k3] c len(1)
      by (simp add: recv_def unat_gt_0)
    then show "recv plat buf' max_len k2 = Some (push_bit 32 sender OR len, k3)" by simp
  qed
qed

text \<open>The memory of the current process as system calls see it.\<close>

definition user_memory :: "platform \<Rightarrow> kernel \<Rightarrow> u64 \<Rightarrow> bool" where
  "user_memory plat k pt \<longleftrightarrow> x86_laws (plat_x86 plat) \<and> current_user_page_table k = Some pt
    \<and> (\<exists>po. vm_phys_offset (k_vm k) = Some po \<and> unat po + 2 ^ 53 \<le> 2 ^ 64) \<and> tables_protected (plat_x86 plat) (k_vm k) pt"

definition user_may_write :: "platform \<Rightarrow> kernel \<Rightarrow> u64 \<Rightarrow> u64 \<Rightarrow> nat \<Rightarrow> bool" where
  "user_may_write plat k pt a n \<longleftrightarrow> a \<noteq> 0 \<and> unat a + n \<le> 2 ^ 47 \<and> no_alias (plat_x86 plat) (k_vm k) pt a n
    \<and> (\<forall>i < n. translate_user_addr_in_table (plat_x86 plat) (k_vm k) pt (a + of_nat i) True \<noteq> None)"

lemma copied_bytes:
  assumes "user_memory plat k pt" "copy_from_user plat k src len = Inr dat" "0 < len" "len < 2 ^ 64" "i < len"
  shows "user_byte (plat_x86 plat) (k_vm k) pt (src + of_nat i) = Some (dat ! i)"
proof -
  let ?X = "plat_x86 plat"
  from assms(1) obtain po where po: "vm_phys_offset (k_vm k) = Some po" "unat po + 2 ^ 53 \<le> 2 ^ 64" "x86_laws ?X"
    "current_user_page_table k = Some pt" by (auto simp: user_memory_def)
  have c: "copy_from_user_in_table ?X (k_vm k) pt src len = Ok dat" "src \<noteq> 0"
    using assms(2,3) po(4) by (auto simp: copy_from_user_def split: if_splits kres.splits)
  have m: "is_user_range_mapped_in_table ?X (k_vm k) pt src (of_nat len)"
    "dat = map (\<lambda>i. the (user_byte ?X (k_vm k) pt (src + of_nat i))) [0..<len]"
    using copy_from_user_spec[OF po(3,1,2) c(2) assms(3,4), of pt] c(1) by (auto split: if_splits)
  have "unat src + i \<le> unat USER_SPACE_END \<and> page_is_user_mapped_in_table ?X (k_vm k) pt (page_base (src + of_nat i))"
    using m(1) assms(4,5) by (simp add: is_user_range_mapped_bytes unat_of_nat)
  moreover have "unat (src + of_nat i) = unat src + i" if "unat src + i \<le> unat USER_SPACE_END"
    using that assms(4,5) unat_u64_lt[of USER_SPACE_END] by (simp add: unat_word_ariths unat_of_nat)
  ultimately have "user_byte ?X (k_vm k) pt (src + of_nat i) \<noteq> None"
    using user_byte_mapped[OF po(3), of "k_vm k" pt "src + of_nat i"] by (simp add: word_le_nat_alt)
  then show ?thesis using m(2) assms(5) by auto
qed

lemma written_bytes:
  assumes "user_memory plat k pt" "user_may_write plat k pt dst (length src)" "length src < 2 ^ 64"
  obtains k' where "copy_to_user plat dst src k = (Inr (), k')"
    "\<And>i. i < length src \<Longrightarrow> user_byte (plat_x86 plat) (k_vm k') pt (dst + of_nat i) = Some (src ! i)"
proof -
  let ?X = "plat_x86 plat"
  from assms(1) obtain po where po: "x86_laws ?X" "vm_phys_offset (k_vm k) = Some po" "unat po + 2 ^ 53 \<le> 2 ^ 64"
    "current_user_page_table k = Some pt" "tables_protected ?X (k_vm k) pt" by (auto simp: user_memory_def)
  from copy_to_user_ok[OF po(1-3) assms(3) po(5)] assms(2)
  obtain v' where v': "copy_to_user_in_table ?X pt dst src (k_vm k) = (Ok (), v')" by (auto simp: user_may_write_def)
  have na: "no_alias ?X (k_vm k) pt dst (length src)" using assms(2) by (simp add: user_may_write_def)
  have c: "copy_to_user plat dst src k = (Inr (), k\<lparr>k_vm := v'\<rparr>)"
  proof (cases "src = []")
    case True
    then have "v' = k_vm k" using v' by (simp add: copy_to_user_in_table_def)
    then show ?thesis using True by (simp add: copy_to_user_def)
  next
    case False
    then show ?thesis using v' po(4) assms(2) by (simp add: copy_to_user_def user_may_write_def)
  qed
  show ?thesis
    using that[OF c] copy_to_user_bytes[OF po(1-3) assms(3) po(5) na v'] by simp
qed

section \<open>Waiting for a message\<close>

lemma thread_slot_modify: "(\<And>t. t_id (f t) = t_id t) \<Longrightarrow> thread_slot (modify_thread tid f k) = thread_slot k"
  by (rule ext, rule thread_slot_same) (simp, simp add: modify_thread_def thread_queue_modify_def)

lemma schedule_frame:
  assumes "schedule k = (r, k')"
  shows "k_mailboxes k' = k_mailboxes k" "k_vm k' = k_vm k" "k_procs k' = k_procs k"
proof -
  have "k_mailboxes (preempted k) = k_mailboxes k" "k_vm (preempted k) = k_vm k" "k_procs (preempted k) = k_procs k"
    by (auto simp: preempted_def split: option.split)
  then show "k_mailboxes k' = k_mailboxes k" "k_vm k' = k_vm k" "k_procs k' = k_procs k"
    using assms by (auto simp: schedule_preempted split: option.splits)
qed

lemma yield_now_frame:
  assumes "sched_ok plat k"
  shows "k_mailboxes (yield_now plat k) = k_mailboxes k" "k_procs (yield_now plat k) = k_procs k"
proof -
  have "k_mailboxes (switch_into plat n k1) = k_mailboxes k1" "k_procs (switch_into plat n k1) = k_procs k1" for n k1
    by (auto simp: switch_into_def set_current_thread_def split: option.split)
  then show "k_mailboxes (yield_now plat k) = k_mailboxes k" "k_procs (yield_now plat k) = k_procs k"
    using schedule_frame[of k] by (auto simp: yield_now_switches[OF assms] yield_with_def Let_def split: option.split prod.split)
qed

lemma schedule_cr3: "schedule k = (r, k') \<Longrightarrow> k_kernel_cr3 k' = k_kernel_cr3 k"
  by (auto simp: schedule_preempted preempted_def modify_thread_def split: option.splits)

lemma yield_now_vm:
  assumes "sched_ok plat k" "k_kernel_cr3 k = 0"
  shows "k_vm (yield_now plat k) = k_vm k"
  using assms(2) schedule_frame(2)[of k] schedule_cr3[of k]
  by (auto simp: yield_now_switches[OF assms(1)] yield_with_def Let_def switch_into_def set_current_thread_def split: option.split prod.split)

lemma yield_now_thread_slot:
  assumes "sched_ok plat k"
  shows "thread_slot (yield_now plat k) = thread_slot k"
proof -
  have wf: "kernel_wf k" using assms by (simp add: sched_ok_def sched_inv_def)
  have g: "tq_slot_generations (k_threads k') = tq_slot_generations (k_threads k)" if "schedule k = (r, k')" for r k'
    using that
    by (auto simp: schedule_preempted preempted_def modify_thread_def thread_queue_modify_def split: option.splits)
  have sw: "tq_slot_generations (k_threads (switch_into plat n k')) = tq_slot_generations (k_threads k')" for n k'
    by (auto simp: switch_into_def set_current_thread_def split: option.split)
  show ?thesis
  proof (rule ext, rule thread_slot_same)
    show "slots (yield_now plat k) = slots k"
      using schedule_slots(1)[OF wf] by (auto simp: yield_now_switches[OF assms] yield_with_def Let_def split: option.split prod.split)
    show "tq_slot_generations (k_threads (yield_now plat k)) = tq_slot_generations (k_threads k)"
      using g by (auto simp: sw yield_now_switches[OF assms] yield_with_def Let_def split: option.split prod.split)
  qed
qed

text \<open>Giving up the processor does not touch a thread that is neither ready nor running.\<close>

lemma sleeper_stays:
  assumes ok: "sched_ok plat k" and t: "get_thread k d = Some t" "t_state t \<noteq> TReady" "t_state t \<noteq> TRunning"
  shows "get_thread (yield_now plat k) d = Some t"
proof -
  have wf: "kernel_wf k" using ok by (simp add: sched_ok_def sched_inv_def)
  have p: "get_thread (preempted k) d = Some t" using t by (simp add: get_preempted[OF wf] preempt_not_running)
  have s: "get_thread k' d = Some t" if "schedule k = (r, k')" for r k'
  proof (rule schedule_cases[OF wf], goal_cases)
    case 1
    then show ?case using that p by simp
  next
    case (2 i u k'')
    then have "t_id u \<noteq> d" using p t(2) by auto
    then show ?case using that p 2(1,7) by simp
  qed
  show ?thesis
    using s p by (auto simp: yield_now_switches[OF ok] yield_with_def Let_def get_switch_into t split: option.split prod.split)
qed

lemma waiting_turn:
  assumes ok: "sched_ok plat k" and i: "i < MAX_THREADS" and w: "recv_blocking_turn plat (d, i, g) buf n k = Some (Waiting, k1)"
  shows "mb_waiter (k_mailboxes k1 ! i) = d" "\<exists>t. get_thread k1 d = Some t \<and> t_state t = TSleeping" "mailbox_messages (k_mailboxes k1 ! i) = []"
    "sched_ok plat k1"
proof -
  have wf: "kernel_wf k" using ok by (simp add: sched_ok_def sched_inv_def)
  then have il: "i < length (k_mailboxes k)" using i by (simp add: kernel_wf_def)
  obtain r rbuf mb where r: "receive_from i d g (min (unat n) MAX_MSG_SIZE) k = Some (r, rbuf, set_mailbox i mb k)" "mailbox_wf mb"
    "r = None \<longrightarrow> mailbox_messages mb = []"
  proof -
    from receive_from_spec[OF wf il, of "min (unat n) MAX_MSG_SIZE" d g] obtain r rbuf mb
      where "receive_from i d g (min (unat n) MAX_MSG_SIZE) k = Some (r, rbuf, set_mailbox i mb k)" "mailbox_wf mb"
        and "case dropWhile (\<lambda>m. \<not> addressed_to d (of_nat i) g m) (mailbox_messages (k_mailboxes k ! i)) of
          [] \<Rightarrow> r = None \<and> mailbox_messages mb = [] | m # ms \<Rightarrow> r \<noteq> None"
      by (fastforce split: list.splits)
    then show ?thesis using that by (auto split: list.splits)
  qed
  let ?k = "set_waiter i d (set_mailbox i mb k)"
  have rn: "r = None" using w r by (auto simp: recv_blocking_turn_def split: option.splits prod.splits)
  then have s: "fst (sleep_thread_unless_woken d ?k)" "k1 = yield_now plat (snd (sleep_thread_unless_woken d ?k))"
    using w r by (auto simp: recv_blocking_turn_def split: prod.splits bool.splits)
  obtain t where t: "get_thread ?k d = Some t" "\<not> t_pending_wakeup t"
    using s(1) by (auto simp: sleep_thread_unless_woken_def split: option.splits if_splits)
  let ?f = "\<lambda>t. set_state TSleeping (snd (take_pending_wakeup t))"
  have k1: "k1 = yield_now plat (modify_thread d ?f ?k)" using s(2) t by (simp add: sleep_thread_unless_woken_def)
  have wk: "kernel_wf ?k" using wf r(2) il by (simp add: set_waiter_def set_mailbox_wf)
  have okk: "sched_ok plat ?k"
    by (rule sched_ok_cong[OF ok wk]) (simp_all add: set_waiter_def set_mailbox_def)
  have okf: "sched_ok plat (modify_thread d ?f ?k)"
    by (rule modify_thread_ok[OF okk]) (simp add: quiet_def take_pending_wakeup_def)
  have g: "get_thread (modify_thread d ?f ?k) d = Some (?f t)" using get_modify_thread(2)[of ?k ?f d] wk t(1) by (simp add: kernel_wf_def)
  show "\<exists>t. get_thread k1 d = Some t \<and> t_state t = TSleeping" using sleeper_stays[OF okf g] k1 by simp
  show "mb_waiter (k_mailboxes k1 ! i) = d" "mailbox_messages (k_mailboxes k1 ! i) = []"
    using yield_now_frame(1)[OF okf] k1 il r(3) rn by (simp_all add: set_waiter_def)
  show "sched_ok plat k1" using yield_now_ok[OF okf] k1 by simp
qed

section \<open>Messages in the sample kernel\<close>

lemma send_succeeds:
  assumes "kernel_wf k" "d \<noteq> 0" "current_thread_id k = Some s" "thread_slot k d = Some (i, g)" "unat len \<le> MAX_MSG_SIZE" "buf \<noteq> 0"
    "copy_from_user plat k buf (unat len) = Inr dat" "length (mailbox_messages (k_mailboxes k ! i)) < MAILBOX_CAP"
  shows "\<exists>k'. send plat d buf len k = Some (0, k')"
proof -
  have "length dat = unat len" by (rule copy_from_user_length[OF assms(7)])
  then obtain mb where "push_message (k_mailboxes k ! i) s d (of_nat i) g dat = Some (True, mb)"
    using push_message_inv[OF thread_slot_bound(5)[OF assms(1,4)], of s d "of_nat i" g dat] assms(5,8) by auto
  moreover have "(if len > 0 \<and> buf \<noteq> 0 then copy_from_user plat k buf (unat len) else Inr []) = Inr dat"
    using assms(6,7) by (cases "len = 0") (auto simp: copy_from_user_def word_gt_0)
  ultimately show ?thesis
    using assms thread_slot_bound(1,3)[OF assms(1,4)] by (auto simp: send_def split: sum.split bool.split)
qed

lemma sample_thread_slot:
  assumes "slots k = slots two_threads_started" "tq_slot_generations (k_threads k) = tq_slot_generations (k_threads two_threads_started)"
  shows "thread_slot k 1 = Some (0, 1)" "thread_slot k 2 = Some (1, 1)"
  by (simp_all add: thread_slot_def slot_index_and_generation_def slot_index_slots assms sample_slots find_index_def)

lemma sample_user_memory:
  assumes "maps_one_page (k_vm k)" "tables_protected flat_x86 (k_vm k) 0x1000" "current_user_page_table k = Some 0x1000"
  shows "user_memory boot_platform k 0x1000" "user_may_write boot_platform k 0x1000 0x1020 2"
    "\<exists>bs. copy_from_user boot_platform k 0x1010 2 = Inr bs"
proof -
  note u = one_page_user[OF assms(1)]
  have o: "vm_phys_offset (k_vm k) = Some 0" using assms(1) by (simp add: maps_one_page_def)
  show "user_memory boot_platform k 0x1000" using assms(2,3) o flat_x86_laws by (simp add: user_memory_def)
  show "user_may_write boot_platform k 0x1000 0x1020 2"
    by (auto simp: user_may_write_def no_alias_def u less_2_cases_iff)
  have "user_byte flat_x86 (k_vm k) 0x1000 (0x1010 + of_nat i) \<noteq> None" if "i < 2" for i
    using that by (auto simp: user_byte_def u less_2_cases_iff)
  then have "0x1010 + of_nat i \<le> USER_SPACE_END \<and> page_is_user_mapped_in_table flat_x86 (k_vm k) 0x1000 (page_base (0x1010 + of_nat i))"
    if "i < 2" for i using that user_byte_mapped[OF flat_x86_laws, of "k_vm k" "0x1000"] by blast
  from this[of 0] this[of 1] have "is_user_range_mapped_in_table flat_x86 (k_vm k) 0x1000 0x1010 2"
    unfolding is_user_range_mapped_bytes by (auto simp: USER_SPACE_END_def less_2_cases_iff)
  then show "\<exists>bs. copy_from_user boot_platform k 0x1010 2 = Inr bs"
    using copy_from_user_spec[OF flat_x86_laws o, of "0x1010" 2 "0x1000"] assms(3) by (simp add: copy_from_user_def)
qed

text \<open>The sample kernel gives the processor to its second thread when the first is asleep.\<close>

lemma sample_gives_way:
  assumes ok: "sched_ok boot_platform q" and g: "get_thread q = [1 \<mapsto> t, 2 \<mapsto> boot_thread 2]" "t_state t = TSleeping"
    and cs: "k_current q = 1" "sc_enabled (k_sched q)" "k_kernel_cr3 q = 0" "k_procs q = sample_procs" "k_vm q = one_page_vm"
  shows "k_current (yield_now boot_platform q) = 2" "k_vm (yield_now boot_platform q) = one_page_vm"
    "current_user_page_table (yield_now boot_platform q) = Some 0x1000"
proof -
  have c: "current_thread_id q = Some 1" using cs(1) by (simp add: current_thread_id_def)
  have wq: "kernel_wf q" using ok by (simp add: sched_ok_def sched_inv_def)
  have pre: "get_thread (preempted q) = get_thread q" using g by (auto simp: get_preempted[OF wq] c preempt_def fun_eq_iff)
  obtain k' where s: "schedule q = (Some 2, k')" "k_current k' = 1" "get_thread k' 2 = Some (set_state TRunning (boot_thread 2))"
  proof (rule schedule_cases[OF wq], goal_cases)
    case 1
    from 1(3)[of 2 "boot_thread 2"] show ?case by (simp add: pre g)
  next
    case (2 i u k'')
    have "u = boot_thread 2"
      using 2(6,9) by (auto simp: pre g(1) g(2) split: if_splits dest: arg_cong[of _ _ t_state])
    then show ?case using 2(1)[of k''] 2(2,8,10) cs by simp
  qed
  have y: "yield_now boot_platform q = switch_into boot_platform 2 k'"
    using s cs yield_now_switches[OF ok] by (simp add: yield_with_def current_thread_id_def)
  show c2: "k_current (yield_now boot_platform q) = 2" using s(3) by (simp add: y switch_into_def set_current_thread_def)
  show "k_vm (yield_now boot_platform q) = one_page_vm" using yield_now_vm[OF ok cs(3)] cs(5) by simp
  have "get_thread (yield_now boot_platform q) 2 = Some (set_state TRunning (boot_thread 2))" using s(3) by (simp add: y get_switch_into)
  then show "current_user_page_table (yield_now boot_platform q) = Some 0x1000"
    using yield_now_frame(2)[OF ok] cs(4) c2
    by (intro sample_page_table[where t = "set_state TRunning (boot_thread 2)"]) simp_all
qed

section \<open>Properties\<close>

text \<open>
  C4. A message arrives: when a send has returned 0 and the receiver had no older message, then in any later state where the
  mailbox and the slot of the receiver are as they were left, a receive by that thread into memory it may write returns the
  sender and the length, and the receiver's memory holds the bytes the sender's memory held when it sent.
\<close>

theorem message_reaches_receiver:
  assumes "kernel_wf k" "send plat d buf len k = Some (0, k1)" "thread_slot k d = Some (i, g)" "user_memory plat k spt"
    "\<forall>m\<in>set (mailbox_messages (k_mailboxes k ! i)). \<not> addressed_to d (of_nat i) g m"
    "kernel_wf k2" "current_thread_id k2 = Some d" "thread_slot k2 d = Some (i, g)" "k_mailboxes k2 ! i = k_mailboxes k1 ! i"
    "0 < len" "len \<le> max_len" "user_memory plat k2 pt" "user_may_write plat k2 pt buf' (unat len)"
  shows "\<exists>sender k3. current_thread_id k = Some sender \<and> recv plat buf' max_len k2 = Some (push_bit 32 sender OR len, k3)
    \<and> (\<forall>j < unat len. user_byte (plat_x86 plat) (k_vm k3) pt (buf' + of_nat j) =
        user_byte (plat_x86 plat) (k_vm k) spt (buf + of_nat j))"
proof -
  have b: "buf' \<noteq> 0" using assms(13) by (simp add: user_may_write_def)
  obtain sender dat mb where r: "current_thread_id k = Some sender" "copy_from_user plat k buf (unat len) = Inr dat" "length dat = unat len"
    "\<And>k3. copy_to_user plat buf' dat (set_mailbox i mb k2) = (Inr (), k3) \<Longrightarrow>
      recv plat buf' max_len k2 = Some (push_bit 32 sender OR len, k3)"
    using recv_after_send[OF assms(1-3,5-11) b] by metis
  have m: "user_memory plat (set_mailbox i mb k2) pt" "user_may_write plat (set_mailbox i mb k2) pt buf' (length dat)"
    using assms(12,13) r(3) by (simp_all add: user_memory_def user_may_write_def)
  obtain k3 where k3: "copy_to_user plat buf' dat (set_mailbox i mb k2) = (Inr (), k3)"
    "\<And>j. j < length dat \<Longrightarrow> user_byte (plat_x86 plat) (k_vm k3) pt (buf' + of_nat j) = Some (dat ! j)"
    using written_bytes[OF m] unat_u64_lt[of len] r(3) by auto
  have "user_byte (plat_x86 plat) (k_vm k) spt (buf + of_nat j) = Some (dat ! j)" if "j < unat len" for j
    using copied_bytes[OF assms(4) r(2) _ _ that] assms(10) unat_u64_lt[of len] by (simp add: unat_gt_0)
  then show ?thesis using r(1) r(4)[OF k3(1)] k3(2) r(3) by auto
qed

theorem message_reaches_receiver_witness:
  "\<exists>k1 k3. send boot_platform 2 0x1010 2 sample_kernel = Some (0, k1)
    \<and> recv boot_platform 0x1020 16 (set_current_thread (Some 2) k1) = Some (0x100000002, k3)
    \<and> (\<forall>j < 2. user_byte flat_x86 (k_vm k3) 0x1000 (0x1020 + of_nat j) = user_byte flat_x86 one_page_vm 0x1000 (0x1010 + of_nat j))"
proof -
  have cur: "current_thread_id sample_kernel = Some 1" by (simp add: current_thread_id_def)
  have slot: "thread_slot sample_kernel 2 = Some (1, 1)" by (rule sample_thread_slot) (simp_all add: slots_def)
  have pt: "current_user_page_table sample_kernel = Some 0x1000"
    by (rule sample_page_table[where t = "set_state TRunning (boot_thread 1)"]) (simp_all add: two_threads_started)
  note mem = sample_user_memory[of sample_kernel, OF _ _ pt, simplified, OF one_page_maps one_page_protected]
  have box: "k_mailboxes sample_kernel ! 1 = mailbox_new" by (simp add: sample_mailboxes MAX_THREADS_def)
  obtain bs where bs: "copy_from_user boot_platform sample_kernel 0x1010 2 = Inr bs" using mem(3) by blast
  obtain k1 where k1: "send boot_platform 2 0x1010 2 sample_kernel = Some (0, k1)"
    using send_succeeds[OF sample_kernel_ok(2) _ cur slot, of 2 "0x1010" boot_platform bs] bs box
    by (auto simp: MAX_MSG_SIZE_def MAILBOX_CAP_def mailbox_new_def)
  let ?k2 = "set_current_thread (Some 2) k1"
  obtain mb where mb: "k1 = post 1 mb sample_kernel" "mailbox_wf mb" "mb_waiter mb = 0"
    by (rule send_ok[OF sample_kernel_ok(2) k1]) (use slot box in \<open>auto simp: mailbox_new_def\<close>)
  note p = post_spec[OF sample_kernel_ok(2) mb(2), of 1]
  have same: "thread_slot ?k2 = thread_slot k1" "get_thread ?k2 = get_thread k1"
    by (simp_all add: set_current_thread_def fun_eq_iff thread_slot_def get_thread_def)
  have k2: "kernel_wf ?k2" "current_thread_id ?k2 = Some 2" "k_mailboxes ?k2 = k_mailboxes k1" "k_vm ?k2 = one_page_vm"
    "thread_slot ?k2 2 = Some (1, 1)" "get_thread ?k2 2 = Some (boot_thread 2)" "k_procs ?k2 = sample_procs" "k_current ?k2 = 2"
    unfolding same using p mb slot two_threads_started(4)
    by (simp_all add: set_current_thread_def kernel_wf_def current_thread_id_def)
  have pt2: "current_user_page_table ?k2 = Some 0x1000" by (rule sample_page_table[where t = "boot_thread 2"]) (simp_all add: k2)
  note mem2 = sample_user_memory[of ?k2, unfolded k2(4), OF one_page_maps one_page_protected pt2]
  have first: "\<forall>m\<in>set (mailbox_messages (k_mailboxes sample_kernel ! 1)). \<not> addressed_to 2 (of_nat 1) 1 m"
    unfolding box by (simp add: mailbox_new_wf(2))
  have "\<exists>sender k3. current_thread_id sample_kernel = Some sender
    \<and> recv boot_platform 0x1020 16 ?k2 = Some (push_bit 32 sender OR 2, k3)
    \<and> (\<forall>j < unat (2 :: u64). user_byte (plat_x86 boot_platform) (k_vm k3) 0x1000 (0x1020 + of_nat j) =
        user_byte (plat_x86 boot_platform) (k_vm sample_kernel) 0x1000 (0x1010 + of_nat j))"
    by (rule message_reaches_receiver[OF sample_kernel_ok(2) k1 slot mem(1) first k2(1,2,5) _ _ _ mem2(1)])
      (use k2(3) mem2(2) in simp_all)
  then show ?thesis using k1 cur by auto
qed

text \<open>
  C5. No wakeup is lost: when a blocking receive went to sleep, a later send to the thread makes it ready, however the rest of the
  kernel changed meanwhile, and the receive does not go to sleep again before it has taken a message.
\<close>

theorem blocked_receiver_woken:
  assumes "sched_ok plat k" "thread_slot k d = Some (i, g)" "d \<noteq> 0" "recv_blocking_turn plat (d, i, g) buf n k = Some (Waiting, k1)"
    "kernel_wf k2" "get_thread k2 d = get_thread k1 d" "k_mailboxes k2 ! i = k_mailboxes k1 ! i" "thread_slot k2 d = Some (i, g)"
    "send plat d buf' len k2 = Some (0, k3)"
  shows "(\<exists>t. get_thread k3 d = Some t \<and> t_state t = TReady)
    \<and> (\<forall>k4 k5. kernel_wf k4 \<and> k_mailboxes k4 ! i = k_mailboxes k3 ! i \<longrightarrow> recv_blocking_turn plat (d, i, g) buf n k4 \<noteq> Some (Waiting, k5))"
proof -
  have wf: "kernel_wf k" using assms(1) by (simp add: sched_ok_def sched_inv_def)
  have i: "i < MAX_THREADS" by (rule thread_slot_bound(1)[OF wf assms(2)])
  note w = waiting_turn[OF assms(1) i assms(4)]
  obtain sender dat mb where so: "k3 = post i mb k2" "mailbox_wf mb" "mb_waiter mb = d"
    "mailbox_messages mb = [fill_message sender d (of_nat i) g dat message_empty]"
    using send_ok[OF assms(5,9)] assms(7,8) w(1,3) by (metis append_Nil option.inject prod.inject)
  have g3: "\<exists>t. get_thread k3 d = Some t \<and> t_state t = TReady"
  proof -
    obtain t where t: "get_thread k2 d = Some t" "t_state t = TSleeping" using w(2) assms(6) by auto
    then have "get_thread k3 d = Some (wake_transition t)" using post_spec(7)[OF assms(5) so(2)] so(1,3) assms(3) by simp
    then show ?thesis using t(2) by (simp add: wake_transition_def)
  qed
  have m3: "mailbox_messages (k_mailboxes k3 ! i) = [fill_message sender d (of_nat i) g dat message_empty]"
    using so post_spec(2)[OF assms(5) so(2)] thread_slot_bound(2)[OF assms(5,8)] by simp
  have ad: "addressed_to d (of_nat i) g (fill_message sender d (of_nat i) g dat message_empty)"
    by (simp add: fill_message_def addressed_to_def)
  have "recv_blocking_turn plat (d, i, g) buf n k4 \<noteq> Some (Waiting, k5)"
    if k4: "kernel_wf k4" "k_mailboxes k4 ! i = k_mailboxes k3 ! i" for k4 k5
  proof -
    have il: "i < length (k_mailboxes k4)" using i k4(1) by (simp add: kernel_wf_def)
    obtain m rbuf k' where "receive_from i d g (min (unat n) MAX_MSG_SIZE) k4 = Some (Some m, rbuf, k')"
      using receive_from_spec[OF k4(1) il, of "min (unat n) MAX_MSG_SIZE" d g] k4(2) m3 ad by auto
    then show ?thesis by (auto simp: recv_blocking_turn_def split: prod.splits)
  qed
  then show ?thesis using g3 by blast
qed

theorem blocked_receiver_woken_witness:
  "\<exists>k1 k3 t. recv_blocking_turn boot_platform (1, 0, 1) 0x1020 16 sample_kernel = Some (Waiting, k1)
    \<and> send boot_platform 1 0x1010 2 k1 = Some (0, k3) \<and> get_thread k3 1 = Some t \<and> t_state t = TReady"
proof -
  have slot: "thread_slot sample_kernel 1 = Some (0, 1)" by (rule sample_thread_slot) (simp_all add: slots_def)
  have box: "k_mailboxes sample_kernel ! 0 = mailbox_new" by (simp add: sample_mailboxes MAX_THREADS_def)
  have il: "0 < length (k_mailboxes sample_kernel)" using sample_kernel_ok(2) by (simp add: kernel_wf_def MAX_THREADS_def)
  obtain r rbuf mb where r: "receive_from 0 1 1 16 sample_kernel = Some (None, rbuf, set_mailbox 0 mb sample_kernel)" "mailbox_wf mb"
    "mailbox_messages mb = []"
    using receive_from_spec[OF sample_kernel_ok(2) il, of 16 1 1] box by (auto simp: mailbox_new_wf(2) MAX_MSG_SIZE_def)
  let ?k = "set_waiter 0 1 (set_mailbox 0 mb sample_kernel)" let ?f = "\<lambda>t. set_state TSleeping (snd (take_pending_wakeup t))"
  let ?ks = "modify_thread 1 ?f ?k"
  have "get_thread ?k 1 = Some (set_state TRunning (boot_thread 1))" by (simp add: set_waiter_def two_threads_started)
  then have turn: "recv_blocking_turn boot_platform (1, 0, 1) 0x1020 16 sample_kernel = Some (Waiting, yield_now boot_platform ?ks)"
    using r(1) by (simp add: recv_blocking_turn_def sleep_thread_unless_woken_def MAX_MSG_SIZE_def)
  let ?k1 = "yield_now boot_platform ?ks"
  note w = waiting_turn[OF sample_kernel_ok(1) _ turn]
  have ok: "sched_ok boot_platform ?k1" by (rule w(4)) (simp add: MAX_THREADS_def)
  then have wf1: "kernel_wf ?k1" by (simp add: sched_ok_def sched_inv_def)
  have wk: "kernel_wf ?k" using sample_kernel_ok(2) r(2) il by (simp add: set_waiter_def set_mailbox_wf)
  have okk: "sched_ok boot_platform ?k"
    by (rule sched_ok_cong[OF sample_kernel_ok(1) wk]) (simp_all add: set_waiter_def set_mailbox_def)
  have ok0: "sched_ok boot_platform ?ks" by (rule modify_thread_ok[OF okk]) (simp add: quiet_def take_pending_wakeup_def)
  define q where "q = ?ks"
  have g: "get_thread q = [1 \<mapsto> ?f (set_state TRunning (boot_thread 1)), 2 \<mapsto> boot_thread 2]"
    using get_modify_thread(2)[of ?k ?f 1] wk
    by (simp add: kernel_wf_def q_def) (simp add: set_waiter_def sample_threads fun_upd_twist)
  have cs: "k_current q = 1" "current_thread_id q = Some 1" "sc_enabled (k_sched q)" "k_kernel_cr3 q = 0"
    by (simp_all add: q_def set_waiter_def two_threads_started current_thread_id_def sample_cr3)
      (simp add: set_mailbox_def modify_thread_def sample_cr3)
  note k1 = sample_gives_way[OF ok0[folded q_def] g _ cs(1,3,4), folded q_def]
  have vm: "k_vm ?k1 = one_page_vm" "current_user_page_table ?k1 = Some 0x1000" and c2: "k_current ?k1 = 2"
    using k1[unfolded q_def] by (simp_all add: set_waiter_def)
  have sl: "thread_slot ?k1 1 = Some (0, 1)" using yield_now_thread_slot[OF ok0] slot by (simp add: thread_slot_modify set_waiter_def)
  obtain bs where bs: "copy_from_user boot_platform ?k1 0x1010 2 = Inr bs"
    using sample_user_memory(3)[of ?k1, unfolded vm(1), OF one_page_maps one_page_protected vm(2)] by blast
  obtain k3 where k3: "send boot_platform 1 0x1010 2 ?k1 = Some (0, k3)"
    using send_succeeds[OF wf1 _ _ sl, of 2 2 "0x1010" boot_platform bs] bs w(3) c2
    by (auto simp: MAX_MSG_SIZE_def MAILBOX_CAP_def MAX_THREADS_def current_thread_id_def)
  from blocked_receiver_woken[OF sample_kernel_ok(1) slot _ turn wf1 refl refl sl k3] turn k3 show ?thesis by auto
qed

end
