(* ===== verification/Signals.thy ===== *)
theory Signals
  imports Ipc
begin

text \<open>
  The end of a task and signals, from \<^verbatim>\<open>src/src/core/task/scheduler.rs\<close> (\<^emph>\<open>exit_current_task\<close> and what it calls)
  and \<^verbatim>\<open>src/src/core/syscall/signal.rs\<close>. The two call each other: a default signal ends the current task, and a task that
  ends sends \<^emph>\<open>SIGCHLD\<close> to its parent. A call that may end the calling thread says so in its outcome. As for
  messages, \<^term>\<open>None\<close> is a panic of the kernel.
\<close>

datatype 'a outcome = Returns 'a | Ends

section \<open>Sending a signal\<close>

definition first_thread_of :: "kernel \<Rightarrow> process_id \<Rightarrow> thread_id option" where
  "first_thread_of k pid = map_option t_id (find (\<lambda>t. t_process_id t = pid) (thread_queue_iter (k_threads k)))"

definition wake_first_thread_of :: "process_id \<Rightarrow> kernel \<Rightarrow> kernel" where
  "wake_first_thread_of pid k = (case first_thread_of k pid of Some tid \<Rightarrow> wake_thread tid k | None \<Rightarrow> k)"

definition modify_signals :: "(signal_state \<Rightarrow> signal_state) \<Rightarrow> process \<Rightarrow> process" where
  "modify_signals f p = p\<lparr>p_signal_state := f (p_signal_state p)\<rparr>"

text \<open>
  \<^emph>\<open>deliver_signal_to_pid\<close> over what it does for \<^emph>\<open>SIGKILL\<close> and for a signal that ends the caller. It does neither for
  \<^emph>\<open>SIGCHLD\<close>, which is how the mutual recursion of the source ends.
\<close>

definition deliver_signal_with ::
  "(kernel \<Rightarrow> (u64 outcome \<times> kernel) option) \<Rightarrow> (kernel \<Rightarrow> (u64 outcome \<times> kernel) option) \<Rightarrow>
    process_id \<Rightarrow> nat \<Rightarrow> kernel \<Rightarrow> (u64 outcome \<times> kernel) option" where
  "deliver_signal_with kill_now exit_now pid sig k =
    (if sig < 1 \<or> sig > 64 then Some (Returns EINVAL, k)
     else case get_process k pid of
         None \<Rightarrow> Some (Returns ESRCH, k)
       | Some p \<Rightarrow>
           if sig = SIGKILL then kill_now k
           else let blocked = ss_mask (p_signal_state p) AND push_bit (sig - 1) 1 \<noteq> 0;
                    action = signal_action (p_signal_state p) sig;
                    own = current_pid k = Some pid
                in if own \<and> \<not> blocked \<and> is_ignored action then Some (Returns SUCCESS, k)
                   else if own \<and> \<not> blocked \<and> is_default action \<and> default_action sig = default_action_kind.Terminate then exit_now k
                   else if own \<and> \<not> blocked \<and> is_default action \<and> default_action sig = Ignore then Some (Returns SUCCESS, k)
                   else Some (Returns SUCCESS, wake_first_thread_of pid (modify_process pid (modify_signals (set_pending sig)) k)))"

definition deliver_sigchld_to_parent :: "process_id \<Rightarrow> kernel \<Rightarrow> kernel option" where
  "deliver_sigchld_to_parent child k =
    (case get_process k child of
       None \<Rightarrow> Some k
     | Some p \<Rightarrow> (case p_parent_id p of
           None \<Rightarrow> Some k
         | Some parent \<Rightarrow> map_option snd (deliver_signal_with (\<lambda>_. None) (\<lambda>_. None) parent SIGCHLD k)))"

section \<open>The end of a task\<close>

definition wake_parent_ipc_waiter :: "process_id \<Rightarrow> kernel \<Rightarrow> kernel option" where
  "wake_parent_ipc_waiter exited k =
    (case get_process k exited of
       None \<Rightarrow> Some k
     | Some p \<Rightarrow> (case p_parent_id p of
           None \<Rightarrow> Some k
         | Some parent \<Rightarrow> (case first_thread_of k parent of
               None \<Rightarrow> Some k
             | Some tid \<Rightarrow> map_option snd (send_from_kernel tid [] k))))"

definition has_other_live_threads :: "kernel \<Rightarrow> process_id \<Rightarrow> thread_id \<Rightarrow> bool" where
  "has_other_live_threads k pid tid =
    list_ex (\<lambda>t. t_process_id t = pid \<and> t_id t \<noteq> tid \<and> t_state t \<noteq> TTerminated) (thread_queue_iter (k_threads k))"

definition exit_process :: "process_id \<Rightarrow> u64 \<Rightarrow> kernel \<Rightarrow> kernel" where
  "exit_process pid code k = k\<lparr>k_procs := mark_process_exited pid code (k_procs k)\<rparr>"

text \<open>What the last thread of a process does for it.\<close>

definition announce_exit :: "thread_id \<Rightarrow> process_id option \<Rightarrow> u64 \<Rightarrow> kernel \<Rightarrow> kernel option" where
  "announce_exit tid pid code k =
    (case pid of
       None \<Rightarrow> Some k
     | Some pid \<Rightarrow>
         if has_other_live_threads k pid tid then Some k
         else case wake_parent_ipc_waiter pid (exit_process pid code k) of
             None \<Rightarrow> None
           | Some k \<Rightarrow> deliver_sigchld_to_parent pid k)"

text \<open>The thread leaves its slot and its stack goes back to the pool before the switch that does not come back.\<close>

definition leave_for :: "platform \<Rightarrow> thread_id \<Rightarrow> thread_id \<Rightarrow> kernel \<Rightarrow> kernel" where
  "leave_for plat tid next k =
    (let k = clear_futex_waiter tid k;
         base = (case get_thread k tid of Some t \<Rightarrow> t_kernel_stack t | None \<Rightarrow> 0);
         k = release_kernel_stack plat base (snd (remove_thread tid k))
     in switch_to_thread plat None next k)"

definition exit_current_task :: "platform \<Rightarrow> u64 \<Rightarrow> kernel \<Rightarrow> kernel option" where
  "exit_current_task plat code k =
    (case current_thread_id k of
       None \<Rightarrow> Some (k\<lparr>k_halted := True\<rparr>)
     | Some tid \<Rightarrow>
         let pid = map_option t_process_id (get_thread k tid)
         in case announce_exit tid pid code (modify_thread tid (set_state TTerminated) k) of
              None \<Rightarrow> None
            | Some k \<Rightarrow> (case schedule (set_current_thread None k) of
                  (Some next, k) \<Rightarrow> Some (leave_for plat tid next k)
                | (None, k) \<Rightarrow> Some ((reclaim_thread plat tid k)\<lparr>k_halted := True\<rparr>)))"

definition exit_thread :: "platform \<Rightarrow> u64 \<Rightarrow> kernel \<Rightarrow> ('a outcome \<times> kernel) option" where
  "exit_thread plat code k = map_option (Pair Ends) (exit_current_task plat code k)"

section \<open>Kill\<close>

definition kill_process_immediately :: "platform \<Rightarrow> process_id \<Rightarrow> u64 \<Rightarrow> kernel \<Rightarrow> (u64 outcome \<times> kernel) option" where
  "kill_process_immediately plat pid code k =
    (if current_pid k = Some pid then exit_thread plat code k
     else let tids = map t_id (filter (\<lambda>t. t_process_id t = pid) (thread_queue_iter (k_threads k)));
              k = exit_process pid code (fold (terminate_thread plat) tids k)
          in map_option (Pair (Returns SUCCESS)) (deliver_sigchld_to_parent pid k))"

definition deliver_signal_to_pid :: "platform \<Rightarrow> process_id \<Rightarrow> nat \<Rightarrow> kernel \<Rightarrow> (u64 outcome \<times> kernel) option" where
  "deliver_signal_to_pid plat pid sig k =
    deliver_signal_with (kill_process_immediately plat pid (of_nat sig)) (exit_thread plat (of_nat sig)) pid sig k"

definition current_privilege :: "kernel \<Rightarrow> privilege_level option" where
  "current_privilege k =
    (case current_pid k of None \<Rightarrow> None | Some pid \<Rightarrow> map_option p_privilege (get_process k pid))"

definition caller_can_broadcast_signal :: "kernel \<Rightarrow> bool" where
  "caller_can_broadcast_signal k \<longleftrightarrow> current_privilege k = Some PrivCore"

definition caller_can_signal_target :: "kernel \<Rightarrow> process_id \<Rightarrow> bool" where
  "caller_can_signal_target k target =
    (case current_pid k of
       None \<Rightarrow> False
     | Some caller \<Rightarrow> if caller = target then True else current_privilege k = Some PrivCore)"

fun deliver_to_all :: "platform \<Rightarrow> nat \<Rightarrow> process_id option \<Rightarrow> process_id list \<Rightarrow> bool \<Rightarrow> kernel \<Rightarrow> (u64 outcome \<times> kernel) option" where
  "deliver_to_all plat sig cur [] found k = Some (Returns (if found then SUCCESS else ESRCH), k)"
| "deliver_to_all plat sig cur (pid # pids) found k =
    (if Some pid = cur then deliver_to_all plat sig cur pids found k
     else case deliver_signal_to_pid plat pid sig k of
         None \<Rightarrow> None
       | Some (Ends, k) \<Rightarrow> Some (Ends, k)
       | Some (Returns r, k) \<Rightarrow> deliver_to_all plat sig cur pids (found \<or> r = SUCCESS) k)"

definition kill :: "platform \<Rightarrow> u64 \<Rightarrow> u64 \<Rightarrow> kernel \<Rightarrow> (u64 outcome \<times> kernel) option" where
  "kill plat pid_raw sig_raw k =
    (let target = sint pid_raw; sig = unat sig_raw
     in if sig > 64 then Some (Returns EINVAL, k)
        else if sig = 0 then
          (if target > 0 then
             (if get_process k pid_raw = None then Some (Returns ESRCH, k)
              else if \<not> caller_can_signal_target k pid_raw then Some (Returns EPERM, k)
              else Some (Returns SUCCESS, k))
           else if target = -1 then Some (Returns (if caller_can_broadcast_signal k then SUCCESS else EPERM), k)
           else Some (Returns EINVAL, k))
        else if target > 0 then
          (if get_process k pid_raw = None then Some (Returns ESRCH, k)
           else if \<not> caller_can_signal_target k pid_raw then Some (Returns EPERM, k)
           else deliver_signal_to_pid plat pid_raw sig k)
        else if target = -1 then
          (if \<not> caller_can_broadcast_signal k then Some (Returns EPERM, k)
           else deliver_to_all plat sig (current_pid k) (map p_id (process_table_iter (k_procs k))) False k)
        else Some (Returns EINVAL, k))"

definition tkill :: "platform \<Rightarrow> u64 \<Rightarrow> u64 \<Rightarrow> kernel \<Rightarrow> (u64 outcome \<times> kernel) option" where
  "tkill plat tid_raw sig_raw k =
    (let sig = unat sig_raw
     in if sig > 64 then Some (Returns EINVAL, k)
        else case thread_to_process_id (k_threads k) tid_raw of
            None \<Rightarrow> Some (Returns ESRCH, k)
          | Some target \<Rightarrow>
              if \<not> caller_can_signal_target k target then Some (Returns EPERM, k)
              else if sig = 0 then Some (Returns SUCCESS, k)
              else deliver_signal_to_pid plat target sig k)"

definition tgkill :: "platform \<Rightarrow> u64 \<Rightarrow> u64 \<Rightarrow> u64 \<Rightarrow> kernel \<Rightarrow> (u64 outcome \<times> kernel) option" where
  "tgkill plat tgid_raw tid_raw sig_raw k =
    (let sig = unat sig_raw
     in if sig > 64 then Some (Returns EINVAL, k)
        else case thread_to_process_id (k_threads k) tid_raw of
            None \<Rightarrow> Some (Returns ESRCH, k)
          | Some target \<Rightarrow>
              if tgid_raw \<noteq> 0 \<and> target \<noteq> tgid_raw then Some (Returns ESRCH, k)
              else if \<not> caller_can_signal_target k target then Some (Returns EPERM, k)
              else if sig = 0 then Some (Returns SUCCESS, k)
              else deliver_signal_to_pid plat target sig k)"

section \<open>Handlers and masks\<close>

definition SIG_BLOCK :: u64 where "SIG_BLOCK = 0"
definition SIG_UNBLOCK :: u64 where "SIG_UNBLOCK = 1"
definition SIG_SETMASK :: u64 where "SIG_SETMASK = 2"
definition SIGACTION_SIZE :: u64 where "SIGACTION_SIZE = 32"

definition UNCATCHABLE_MASK :: u64 where
  "UNCATCHABLE_MASK = push_bit (SIGKILL - 1) 1 OR push_bit (SIGSTOP - 1) 1"

definition store_old_action :: "platform \<Rightarrow> process_id \<Rightarrow> nat \<Rightarrow> u64 \<Rightarrow> kernel \<Rightarrow> unit sysres \<times> kernel" where
  "store_old_action plat pid sig ptr k =
    (if ptr = 0 then (Inr (), k)
     else if \<not> validate_user_ptr plat k ptr SIGACTION_SIZE then (Inl EFAULT, k)
     else let old = (case get_process k pid of Some p \<Rightarrow> signal_action (p_signal_state p) sig | None \<Rightarrow> sig_action_default)
          in case copy_to_user plat ptr (to_le_bytes (sa_handler old) @ to_le_bytes (sa_flags old)
                 @ to_le_bytes (sa_restorer old) @ to_le_bytes (sa_mask old)) k of
               (Inl _, k) \<Rightarrow> (Inl EFAULT, k)
             | (Inr _, k) \<Rightarrow> (Inr (), k))"

definition read_action :: "platform \<Rightarrow> kernel \<Rightarrow> u64 \<Rightarrow> sig_action sysres" where
  "read_action plat k ptr =
    (case read_user_u64 plat k ptr of Inl e \<Rightarrow> Inl e | Inr handler \<Rightarrow>
     case read_user_u64 plat k (ptr + 8) of Inl e \<Rightarrow> Inl e | Inr flags \<Rightarrow>
     case read_user_u64 plat k (ptr + 16) of Inl e \<Rightarrow> Inl e | Inr restorer \<Rightarrow>
     case read_user_u64 plat k (ptr + 24) of Inl e \<Rightarrow> Inl e | Inr msk \<Rightarrow>
       Inr \<lparr>sa_handler = handler, sa_flags = flags, sa_restorer = restorer, sa_mask = msk AND NOT UNCATCHABLE_MASK\<rparr>)"

definition rt_sigaction :: "platform \<Rightarrow> u64 \<Rightarrow> u64 \<Rightarrow> u64 \<Rightarrow> kernel \<Rightarrow> u64 \<times> kernel" where
  "rt_sigaction plat signum new_ptr old_ptr k =
    (let sig = unat signum
     in if sig < 1 \<or> sig > 64 then (EINVAL, k)
        else if new_ptr \<noteq> 0 \<and> push_bit (sig - 1) 1 AND UNCATCHABLE_MASK \<noteq> 0 then (EINVAL, k)
        else case current_pid k of
            None \<Rightarrow> (EINVAL, k)
          | Some pid \<Rightarrow> (case store_old_action plat pid sig old_ptr k of
                (Inl e, k) \<Rightarrow> (e, k)
              | (Inr _, k) \<Rightarrow>
                  if new_ptr = 0 then (SUCCESS, k)
                  else if \<not> validate_user_ptr plat k new_ptr SIGACTION_SIZE then (EFAULT, k)
                  else case read_action plat k new_ptr of
                      Inl e \<Rightarrow> (e, k)
                    | Inr action \<Rightarrow> (SUCCESS, modify_process pid (modify_signals (signal_set_action sig action)) k)))"

definition apply_mask :: "u64 \<Rightarrow> u64 \<Rightarrow> signal_state \<Rightarrow> signal_state" where
  "apply_mask how new_set s =
    (if how = SIG_BLOCK then s\<lparr>ss_mask := ss_mask s OR new_set\<rparr>
     else if how = SIG_UNBLOCK then s\<lparr>ss_mask := ss_mask s AND NOT new_set\<rparr>
     else if how = SIG_SETMASK then s\<lparr>ss_mask := new_set\<rparr>
     else s)"

definition store_old_mask :: "platform \<Rightarrow> process_id \<Rightarrow> u64 \<Rightarrow> kernel \<Rightarrow> unit sysres \<times> kernel" where
  "store_old_mask plat pid ptr k =
    (if ptr = 0 then (Inr (), k)
     else if \<not> validate_user_ptr plat k ptr 8 then (Inl EFAULT, k)
     else let old_mask = (case get_process k pid of Some p \<Rightarrow> ss_mask (p_signal_state p) | None \<Rightarrow> 0)
          in case write_user_u64 plat ptr old_mask k of
               (Inl _, k) \<Rightarrow> (Inl EFAULT, k)
             | (Inr _, k) \<Rightarrow> (Inr (), k))"

definition rt_sigprocmask :: "platform \<Rightarrow> u64 \<Rightarrow> u64 \<Rightarrow> u64 \<Rightarrow> kernel \<Rightarrow> u64 \<times> kernel" where
  "rt_sigprocmask plat how set_ptr oldset_ptr k =
    (case current_pid k of
       None \<Rightarrow> (EINVAL, k)
     | Some pid \<Rightarrow> (case store_old_mask plat pid oldset_ptr k of
           (Inl e, k) \<Rightarrow> (e, k)
         | (Inr _, k) \<Rightarrow>
             if set_ptr = 0 then (SUCCESS, k)
             else if \<not> validate_user_ptr plat k set_ptr 8 then (EFAULT, k)
             else case read_user_u64 plat k set_ptr of
                 Inl e \<Rightarrow> (e, k)
               | Inr w \<Rightarrow> (SUCCESS, modify_process pid (modify_signals (apply_mask how (w AND NOT UNCATCHABLE_MASK))) k)))"

section \<open>Running a handler\<close>

text \<open>
  The register area an \<^emph>\<open>int 0x80\<close> leaves on the kernel stack, twenty words: 8 is \<^emph>\<open>RDI\<close>, 14 the system-call number and from 15 on
  the processor's own frame with the user's \<^emph>\<open>RIP\<close>, \<^emph>\<open>CS\<close>, \<^emph>\<open>RFLAGS\<close>, \<^emph>\<open>RSP\<close> and \<^emph>\<open>SS\<close>.
\<close>

type_synonym kstack = "u64 list"

definition write_signal_frame :: "platform \<Rightarrow> u64 \<Rightarrow> u64 \<Rightarrow> u64 \<Rightarrow> u64 \<Rightarrow> u64 \<Rightarrow> kernel \<Rightarrow> bool \<times> kernel" where
  "write_signal_frame plat new_rsp restorer saved_rip saved_rsp saved_rflags k =
    (if \<not> validate_user_ptr plat k new_rsp 32 then (False, k)
     else case copy_to_user plat new_rsp (to_le_bytes restorer @ to_le_bytes saved_rip @ to_le_bytes saved_rsp
            @ to_le_bytes saved_rflags) k of
         (Inl _, k) \<Rightarrow> (False, k)
       | (Inr _, k) \<Rightarrow> (True, k))"

definition signal_rsp :: "u64 \<Rightarrow> u64" where
  "signal_rsp user_rsp = ((user_rsp - 32) AND NOT 15) - 8"

definition setup_signal_frame ::
  "platform \<Rightarrow> kstack \<Rightarrow> nat \<Rightarrow> sig_action \<Rightarrow> kernel \<Rightarrow> (kstack outcome \<times> kernel) option" where
  "setup_signal_frame plat ks sig action k =
    (let new_rsp = signal_rsp (ks ! 18)
     in case write_signal_frame plat new_rsp (sa_restorer action) (ks ! 15) (ks ! 18) (ks ! 17) k of
          (False, k) \<Rightarrow> exit_thread plat 11 k
        | (True, k) \<Rightarrow>
            let k = (case current_pid k of
                       Some pid \<Rightarrow> modify_process pid (modify_signals (\<lambda>s. s\<lparr>ss_mask := ss_mask s OR sa_mask action\<rparr>)) k
                     | None \<Rightarrow> k)
            in Some (Returns (ks[8 := of_nat sig, 15 := sa_handler action, 18 := new_rsp]), k))"

definition rt_sigreturn :: "platform \<Rightarrow> kstack \<Rightarrow> kernel \<Rightarrow> (kstack outcome \<times> kernel) option" where
  "rt_sigreturn plat ks k =
    (let user_rsp = ks ! 18
     in if \<not> validate_user_ptr plat k user_rsp 24 then exit_thread plat 11 k
        else case read_user_u64 plat k user_rsp of Inl _ \<Rightarrow> exit_thread plat 11 k | Inr saved_rip \<Rightarrow>
             case read_user_u64 plat k (user_rsp + 8) of Inl _ \<Rightarrow> exit_thread plat 11 k | Inr saved_rsp \<Rightarrow>
             case read_user_u64 plat k (user_rsp + 16) of Inl _ \<Rightarrow> exit_thread plat 11 k | Inr saved_rflags \<Rightarrow>
               let k = (case current_pid k of
                          Some pid \<Rightarrow> modify_process pid (modify_signals (\<lambda>s. s\<lparr>ss_mask := 0\<rparr>)) k
                        | None \<Rightarrow> k)
               in Some (Returns (ks[15 := saved_rip, 17 := saved_rflags, 18 := saved_rsp]), k))"

definition SYS_RT_SIGRETURN :: u64 where "SYS_RT_SIGRETURN = 15"

text \<open>The next deliverable signal of the current process, taken out of its pending set.\<close>

definition take_signal :: "process_id \<Rightarrow> kernel \<Rightarrow> nat option \<times> kernel" where
  "take_signal pid k =
    (case get_process k pid of
       None \<Rightarrow> (None, k)
     | Some p \<Rightarrow> (fst (take_next_deliverable (p_signal_state p)),
         modify_process pid (modify_signals (\<lambda>s. snd (take_next_deliverable s))) k))"

definition signal_and_return :: "platform \<Rightarrow> kstack \<Rightarrow> u64 \<Rightarrow> kernel \<Rightarrow> ((u64 \<times> kstack) outcome \<times> kernel) option" where
  "signal_and_return plat ks syscall_ret k =
    (let zero = map_option (\<lambda>(r, k). (case r of Ends \<Rightarrow> Ends | Returns ks \<Rightarrow> Returns (0, ks), k));
         same = (\<lambda>k. Some (Returns (syscall_ret, ks), k))
     in if ks ! 14 = SYS_RT_SIGRETURN then zero (rt_sigreturn plat ks k)
        else case current_pid k of
            None \<Rightarrow> same k
          | Some pid \<Rightarrow> (case take_signal pid k of
                (None, k) \<Rightarrow> same k
              | (Some sig, k) \<Rightarrow>
                  let action = (case get_process k pid of Some p \<Rightarrow> signal_action (p_signal_state p) sig | None \<Rightarrow> sig_action_default)
                  in if is_ignored action then same k
                     else if \<not> has_user_handler action then
                       (case default_action sig of
                          default_action_kind.Terminate \<Rightarrow> exit_thread plat (of_nat sig) k
                        | Ignore \<Rightarrow> same k)
                     else zero (setup_signal_frame plat ks sig action k)))"

section \<open>Processes in the kernel state\<close>

lemma modify_process_frame [simp]:
  "k_threads (modify_process pid f k) = k_threads k" "k_current (modify_process pid f k) = k_current k"
  "k_mailboxes (modify_process pid f k) = k_mailboxes k" "k_vm (modify_process pid f k) = k_vm k"
  "k_sched (modify_process pid f k) = k_sched k" "get_thread (modify_process pid f k) = get_thread k"
  "current_thread_id (modify_process pid f k) = current_thread_id k" "current_pid (modify_process pid f k) = current_pid k"
  "k_halted (modify_process pid f k) = k_halted k" "k_ticks (modify_process pid f k) = k_ticks k"
  by (simp_all add: modify_process_def get_thread_def current_thread_id_def current_pid_def fun_eq_iff split: option.split)

lemma modify_process_spec:
  assumes "kernel_wf k" "\<And>p. p_id (f p) = p_id p"
  shows "kernel_wf (modify_process pid f k)"
    "get_process (modify_process pid f k) = (get_process k)(pid := map_option f (get_process k pid))"
proof -
  have wf: "process_table_wf (k_procs k)" using assms(1) by (simp add: kernel_wf_def)
  note m = process_ids.modify_any[OF wf, of f pid]
  show "kernel_wf (modify_process pid f k)"
    using m assms by (simp add: modify_process_def kernel_wf_def)
  have "get_process k = process_table_get (k_procs k)" by (simp add: fun_eq_iff get_process_def)
  then show "get_process (modify_process pid f k) = (get_process k)(pid := map_option f (get_process k pid))"
    using m assms(2) by (simp add: modify_process_def get_process_def fun_eq_iff)
qed

lemma modify_process_ok:
  assumes "sched_ok plat k" "\<And>p. p_id (f p) = p_id p"
  shows "sched_ok plat (modify_process pid f k)"
  by (rule sched_ok_cong[OF assms(1)])
    (use assms modify_process_spec(1)[of k f pid] in \<open>simp_all add: sched_ok_def sched_inv_def modify_process_def\<close>)

lemma modify_signals_id [simp]: "p_id (modify_signals f p) = p_id p" "p_parent_id (modify_signals f p) = p_parent_id p"
  "p_state (modify_signals f p) = p_state p" "p_exit_code (modify_signals f p) = p_exit_code p"
  "p_page_table (modify_signals f p) = p_page_table p" "p_signal_state (modify_signals f p) = f (p_signal_state p)"
  by (simp_all add: modify_signals_def)

lemma exit_process_modify: "exit_process pid code k = modify_process pid (mark_exited code) k"
  by (simp add: exit_process_def modify_process_def mark_process_exited_def)

lemma mark_exited_id [simp]: "p_id (mark_exited code p) = p_id p" "p_parent_id (mark_exited code p) = p_parent_id p"
  "p_signal_state (mark_exited code p) = p_signal_state p"
  by (simp_all add: mark_exited_def)

section \<open>The end of a task\<close>

text \<open>Telling the parent wakes threads and touches none otherwise.\<close>

definition kept :: "thread \<Rightarrow> thread \<Rightarrow> bool" where
  "kept t t' \<longleftrightarrow> t_id t' = t_id t \<and> t_process_id t' = t_process_id t \<and> t_kernel_stack t' = t_kernel_stack t
    \<and> (t_state t = TTerminated \<longrightarrow> t_state t' = TTerminated)"

definition keeps_threads :: "kernel \<Rightarrow> kernel \<Rightarrow> bool" where
  "keeps_threads k k' \<longleftrightarrow> k_current k' = k_current k \<and> (\<forall>tid. rel_option kept (get_thread k tid) (get_thread k' tid))"

lemma kept_refl [simp]: "kept t t" "kept t (wake_transition t)" "kept t (set_state TTerminated t)"
  by (simp_all add: kept_def wake_transition_def set_pending_wakeup_def)

lemma keeps_threads_same: "k_current k' = k_current k \<Longrightarrow> get_thread k' = get_thread k \<Longrightarrow> keeps_threads k k'"
  by (simp add: keeps_threads_def option.rel_refl)

lemma keeps_threads_refl [simp, intro]: "keeps_threads k k"
  by (rule keeps_threads_same) simp_all

lemma keeps_threads_trans [trans]: "keeps_threads k k1 \<Longrightarrow> keeps_threads k1 k2 \<Longrightarrow> keeps_threads k k2"
proof -
  have "transp (rel_option kept)" by (rule option.rel_transp) (auto simp: transp_def kept_def)
  then show "keeps_threads k k1 \<Longrightarrow> keeps_threads k1 k2 \<Longrightarrow> keeps_threads k k2"
    unfolding keeps_threads_def by (metis transpD)
qed

lemma keeps_threads_modify:
  "\<lbrakk>kernel_wf k; \<And>t. kept t (f t)\<rbrakk> \<Longrightarrow> keeps_threads k (modify_thread tid f k)"
  by (auto simp: keeps_threads_def get_modify_thread kernel_wf_def kept_def rel_option_iff split: option.split)

lemma keeps_threads_wake: "kernel_wf k \<Longrightarrow> keeps_threads k (wake_thread tid k)"
  unfolding wake_thread_def by (rule keeps_threads_modify) simp_all

lemma wake_first_ok:
  assumes "sched_ok plat k"
  shows "sched_ok plat (wake_first_thread_of pid k)" "keeps_threads k (wake_first_thread_of pid k)"
    "k_procs (wake_first_thread_of pid k) = k_procs k"
  using assms wake_thread_ok[OF assms] keeps_threads_wake[of k]
  by (auto simp: wake_first_thread_of_def sched_ok_def sched_inv_def split: option.split)

text \<open>\<^emph>\<open>SIGCHLD\<close> neither kills nor ends the caller, whatever those would do.\<close>

lemma deliver_sigchld_independent: "deliver_signal_with f g pid SIGCHLD k = deliver_signal_with f' g' pid SIGCHLD k"
  by (auto simp: deliver_signal_with_def Let_def signal_number_defs default_action_def split: option.split)

definition process_rest :: "kernel \<Rightarrow> process_id \<Rightarrow> process option" where
  "process_rest k pid = map_option (modify_signals (\<lambda>_. signal_state_new)) (get_process k pid)"

lemma process_rest_modify_signals:
  "kernel_wf k \<Longrightarrow> process_rest (modify_process pid (modify_signals f) k) = process_rest k"
  by (cases "get_process k pid") (auto simp: process_rest_def modify_process_spec(2) fun_eq_iff modify_signals_def)

lemma process_rest_Some:
  assumes "process_rest k pid = Some q"
  obtains p where "get_process k pid = Some p" "p_state p = p_state q" "p_exit_code p = p_exit_code q" "p_parent_id p = p_parent_id q" "p_id p = p_id q"
  using assms by (auto simp: process_rest_def)

lemma sched_ok_wf: "sched_ok plat k \<Longrightarrow> kernel_wf k" "sched_ok plat k \<Longrightarrow> running_is_current k"
  by (simp_all add: sched_ok_def sched_inv_def)

lemma get_process_procs: "k_procs k' = k_procs k \<Longrightarrow> get_process k' = get_process k"
  by (simp add: get_process_def fun_eq_iff)

lemma deliver_sigchld_ok:
  assumes ok: "sched_ok plat k"
  obtains k' where "deliver_sigchld_to_parent child k = Some k'" "sched_ok plat k'" "keeps_threads k k'" "process_rest k' = process_rest k"
proof -
  let ?f = "\<lambda>pid. modify_process pid (modify_signals (set_pending SIGCHLD)) k"
  have wf: "kernel_wf k" by (rule sched_ok_wf[OF ok])
  have m: "sched_ok plat (?f pid)" for pid by (rule modify_process_ok[OF ok]) simp
  have "keeps_threads k (?f pid)" for pid by (rule keeps_threads_same) simp_all
  then have kt: "keeps_threads k (wake_first_thread_of pid (?f pid))" for pid
    using wake_first_ok(2)[OF m] keeps_threads_trans by blast
  have pr: "process_rest (wake_first_thread_of pid (?f pid)) = process_rest k" for pid
    using process_rest_modify_signals[OF wf, of pid "set_pending SIGCHLD"] get_process_procs[OF wake_first_ok(3)[OF m]]
    by (simp add: process_rest_def fun_eq_iff)
  have "\<exists>k'. deliver_sigchld_to_parent child k = Some k' \<and> sched_ok plat k' \<and> keeps_threads k k' \<and> process_rest k' = process_rest k"
    using ok wake_first_ok(1)[OF m] kt pr
    by (auto simp: deliver_sigchld_to_parent_def deliver_signal_with_def Let_def signal_number_defs default_action_def split: option.split)
  then show ?thesis using that by blast
qed

lemma set_mailbox_ok:
  assumes "sched_ok plat k" "mailbox_wf mb"
  shows "sched_ok plat (set_mailbox i mb k)"
  by (rule sched_ok_cong[OF assms(1) set_mailbox_wf[OF sched_ok_wf(1)[OF assms(1)] assms(2)]]) (simp_all add: set_mailbox_def)

lemma send_from_kernel_ok:
  assumes ok: "sched_ok plat k"
  obtains b k' where "send_from_kernel d dat k = Some (b, k')" "sched_ok plat k'" "keeps_threads k k'" "k_procs k' = k_procs k"
proof -
  have wf: "kernel_wf k" by (rule sched_ok_wf[OF ok])
  have set: "sched_ok plat (set_mailbox i mb k) \<and> keeps_threads k (set_mailbox i mb k)" if "mailbox_wf mb" for i mb
    using set_mailbox_ok[OF ok that] by (auto intro!: keeps_threads_same)
  have pst: "sched_ok plat (post i mb k) \<and> keeps_threads k (post i mb k) \<and> k_procs (post i mb k) = k_procs k" if "mailbox_wf mb" for i mb
  proof -
    have w: "mailbox_wf (mb\<lparr>mb_waiter := 0\<rparr>)" using that by simp
    have "keeps_threads k (wake_thread t (set_mailbox i (mb\<lparr>mb_waiter := 0\<rparr>) k))" for t
      using keeps_threads_trans[OF conjunct2[OF set[OF w]] keeps_threads_wake] set_mailbox_wf[OF wf w] by blast
    then show ?thesis using set[OF w] wake_thread_ok by (simp add: post_def take_waiter_def Let_def)
  qed
  have p: "\<exists>ok mb. push_message (k_mailboxes k ! i) s d (of_nat i) g dat = Some (ok, mb) \<and> mailbox_wf mb"
    if "thread_slot k d = Some (i, g)" for i g s
    using push_message_inv[of "k_mailboxes k ! i" s d "of_nat i" g dat] thread_slot_bound(5)[OF wf that] by blast
  have "\<exists>b k'. send_from_kernel d dat k = Some (b, k') \<and> sched_ok plat k' \<and> keeps_threads k k' \<and> k_procs k' = k_procs k"
  proof (cases "thread_slot k d")
    case None
    then show ?thesis using ok by (auto simp: send_from_kernel_def)
  next
    case (Some s)
    obtain i g where s: "s = (i, g)" by (cases s)
    obtain b mb where b: "push_message (k_mailboxes k ! i) (raw_current k) d (of_nat i) g dat = Some (b, mb)" "mailbox_wf mb"
      using p Some s by blast
    show ?thesis using Some s b set[OF b(2)] pst[OF b(2)] ok by (cases b) (auto simp: send_from_kernel_def)
  qed
  then show ?thesis using that by blast
qed

lemma announce_exit_ok:
  assumes ok: "sched_ok plat k"
  obtains k' where "announce_exit tid pid code k = Some k'" "sched_ok plat k'" "keeps_threads k k'"
    "process_rest k' = (case pid of Some p \<Rightarrow> if has_other_live_threads k p tid then process_rest k
      else (process_rest k)(p := map_option (mark_exited code) (process_rest k p)) | None \<Rightarrow> process_rest k)"
proof (cases "\<exists>p. pid = Some p \<and> \<not> has_other_live_threads k p tid")
  case False
  then show ?thesis using that[of k] ok by (auto simp: announce_exit_def split: option.split)
next
  case True
  then obtain p where p: "pid = Some p" "\<not> has_other_live_threads k p tid" by blast
  let ?k = "exit_process p code k"
  have wf: "kernel_wf k" by (rule sched_ok_wf[OF ok])
  have ok1: "sched_ok plat ?k" unfolding exit_process_modify by (rule modify_process_ok[OF ok]) simp
  have kt1: "keeps_threads k ?k" unfolding exit_process_modify by (rule keeps_threads_same) simp_all
  have pr1: "process_rest ?k = (process_rest k)(p := map_option (mark_exited code) (process_rest k p))"
    by (cases "get_process k p")
      (auto simp: exit_process_modify process_rest_def modify_process_spec(2)[OF wf] fun_eq_iff mark_exited_def modify_signals_def)
  obtain k2 where k2: "wake_parent_ipc_waiter p ?k = Some k2" "sched_ok plat k2" "keeps_threads ?k k2" "k_procs k2 = k_procs ?k"
  proof -
    have "\<exists>k2. map_option snd (send_from_kernel t [] ?k) = Some k2 \<and> sched_ok plat k2 \<and> keeps_threads ?k k2 \<and> k_procs k2 = k_procs ?k" for t
      using send_from_kernel_ok[OF ok1, of t "[]"] by (metis option.simps(9) snd_conv)
    then have "\<exists>k2. wake_parent_ipc_waiter p ?k = Some k2 \<and> sched_ok plat k2 \<and> keeps_threads ?k k2 \<and> k_procs k2 = k_procs ?k"
      using ok1 by (auto simp: wake_parent_ipc_waiter_def split: option.split)
    then show ?thesis using that by blast
  qed
  obtain k3 where k3: "deliver_sigchld_to_parent p k2 = Some k3" "sched_ok plat k3" "keeps_threads k2 k3" "process_rest k3 = process_rest k2"
    by (rule deliver_sigchld_ok[OF k2(2)])
  have "process_rest k3 = process_rest ?k" using k3(4) get_process_procs[OF k2(4)] by (simp add: process_rest_def fun_eq_iff)
  then show ?thesis
    using that[of k3] k2(1) k3 p pr1 keeps_threads_trans[OF keeps_threads_trans[OF kt1 k2(3)] k3(3)]
    by (simp add: announce_exit_def)
qed

lemma reclaim_thread_spec:
  assumes wf: "kernel_wf k"
  shows "kernel_wf (reclaim_thread plat tid k)" "get_thread (reclaim_thread plat tid k) = (get_thread k)(tid := None)"
    "k_current (reclaim_thread plat tid k) = k_current k" "k_procs (reclaim_thread plat tid k) = k_procs k"
proof -
  let ?k = "clear_futex_waiter tid k"
  have q: "thread_queue_wf (k_threads k)" using wf by (simp add: kernel_wf_def)
  obtain t k1 where r: "remove_thread tid ?k = (t, k1)" by fastforce
  obtain qs where "thread_queue_remove (k_threads k) tid = (thread_queue_get (k_threads k) tid, qs)"
    "thread_queue_wf qs" "thread_queue_get qs = (thread_queue_get (k_threads k))(tid := None)"
    using thread_ids.remove_any[OF q] by blast
  then have k1: "k1 = ?k\<lparr>k_threads := qs\<rparr>" "thread_queue_wf qs" "thread_queue_get qs = (thread_queue_get (k_threads k))(tid := None)"
    using r by (simp_all add: remove_thread_def clear_futex_waiter_def)
  have e: "reclaim_thread plat tid k = (case t of Some t \<Rightarrow> release_kernel_stack plat (t_kernel_stack t) k1 | None \<Rightarrow> k1)"
    by (simp add: reclaim_thread_def r split: option.split)
  show "kernel_wf (reclaim_thread plat tid k)"
    using wf k1 remove_futex_waiter_wf[of "k_futex k" tid]
    by (simp add: e kernel_wf_def clear_futex_waiter_def release_kernel_stack_def split: option.split)
  show "get_thread (reclaim_thread plat tid k) = (get_thread k)(tid := None)"
    using k1 by (auto simp: e get_thread_def fun_eq_iff release_kernel_stack_def split: option.split)
  show "k_current (reclaim_thread plat tid k) = k_current k" "k_procs (reclaim_thread plat tid k) = k_procs k"
    using k1 by (simp_all add: e clear_futex_waiter_def release_kernel_stack_def split: option.split)
qed

lemma leave_for_reclaim:
  assumes "kernel_wf k" "get_thread k tid \<noteq> None"
  shows "leave_for plat tid next k = switch_into plat next (reclaim_thread plat tid k)"
proof -
  have "get_thread (clear_futex_waiter tid k) = get_thread k" by (simp add: get_thread_def clear_futex_waiter_def fun_eq_iff)
  moreover have "kernel_wf (clear_futex_waiter tid k)"
    using assms(1) remove_futex_waiter_wf[of "k_futex k" tid] by (simp add: kernel_wf_def clear_futex_waiter_def)
  ultimately show ?thesis
    using assms(2) get_remove_thread(2)[of "clear_futex_waiter tid k" tid]
    by (auto simp: leave_for_def reclaim_thread_def Let_def switch_to_thread_def split: prod.split)
qed

lemma thread_iter_get: "kernel_wf k \<Longrightarrow> t \<in> set (thread_queue_iter (k_threads k)) \<longleftrightarrow> get_thread k (t_id t) = Some t"
  by (simp add: thread_queue_iter_def get_thread_def thread_queue_get_lookup kernel_wf_def thread_queue_wf_def lookup_Some_iff)

lemma get_thread_id: "get_thread k tid = Some t \<Longrightarrow> t_id t = tid"
  unfolding get_thread_def by (rule thread_ids.get_key)

lemma has_other_live_threads_get:
  "kernel_wf k \<Longrightarrow> has_other_live_threads k pid tid \<longleftrightarrow>
    (\<exists>u t. get_thread k u = Some t \<and> t_process_id t = pid \<and> u \<noteq> tid \<and> t_state t \<noteq> TTerminated)"
  by (auto simp: has_other_live_threads_def list_ex_iff thread_iter_get) (metis get_thread_id thread_iter_get)+

text \<open>Leaving the processor after the current thread has ended.\<close>

lemma ended_leaves:
  assumes ok: "sched_ok plat k" and t: "k_current k = tid" "get_thread k tid = Some t" "t_state t = TTerminated"
    and s: "schedule (set_current_thread None k) = (r, k1)"
  shows "r = Some next \<Longrightarrow> sched_ok plat (leave_for plat tid next k1) \<and> k_current (leave_for plat tid next k1) \<noteq> tid"
    "r = Some next \<Longrightarrow> get_thread (leave_for plat tid next k1) tid = None" "get_thread (reclaim_thread plat tid k1) tid = None"
    "r = Some next \<Longrightarrow> k_procs (leave_for plat tid next k1) = k_procs k" "k_procs (reclaim_thread plat tid k1) = k_procs k"
    "kernel_wf (reclaim_thread plat tid k1)"
proof -
  let ?k = "set_current_thread None k"
  have same: "get_thread ?k = get_thread k" by (simp add: set_current_thread_def get_thread_def fun_eq_iff)
  have quiet: "t_state u \<noteq> TRunning" if "get_thread k v = Some u" for u v
    using that t sched_ok_wf(2)[OF ok] by (auto simp: running_is_current_def)
  have wf: "kernel_wf ?k" using sched_ok_wf(1)[OF ok] by (simp add: set_current_thread_def kernel_wf_def)
  have rc: "running_is_current ?k"
    using quiet sched_ok_wf(2)[OF ok] same unfolding running_is_current_def by (auto simp: set_current_thread_def)
  note i = schedule_inv[OF wf rc s]
  have pre: "get_thread (preempted ?k) = get_thread k"
    by (simp add: preempted_def current_thread_id_def set_current_thread_def get_thread_def fun_eq_iff)
  have procs: "k_procs k1 = k_procs k" using schedule_frame(3)[OF s] by (simp add: set_current_thread_def)
  note rt = reclaim_thread_spec[OF i(1), of plat tid]
  show "get_thread (reclaim_thread plat tid k1) tid = None" "k_procs (reclaim_thread plat tid k1) = k_procs k"
    "kernel_wf (reclaim_thread plat tid k1)"
    using rt procs by simp_all
  assume n: "r = Some next"
  have tid: "get_thread k1 tid \<noteq> None" using i(4)[of tid] same t by simp
  note lf = leave_for_reclaim[OF i(1) tid, of plat "next"]
  have ne: "next \<noteq> tid"
  proof (rule schedule_cases[OF wf], goal_cases)
    case 1
    then show ?case using n s by simp
  next
    case (2 j u k'')
    then show ?case using n s t(2,3) pre by auto
  qed
  obtain u where u: "get_thread (reclaim_thread plat tid k1) next = Some u" using i(5)[OF n] ne rt(2) by auto
  have zero: "get_thread (reclaim_thread plat tid k1) 0 = None"
    using i(4)[of 0] rt(2) rc by (simp add: running_is_current_def)
  have run: "v = next" if "get_thread (reclaim_thread plat tid k1) v = Some w" "t_state w = TRunning" for v w
    using that i(3)[of v w] rt(2) n by (auto split: if_splits)
  have sw: "sched_inv (switch_into plat next (reclaim_thread plat tid k1))"
    "k_current (switch_into plat next (reclaim_thread plat tid k1)) = next"
    by (rule switch_into_loads(1,2)[OF rt(1) u zero], erule run, assumption)+
  have "keeps_stacks k (leave_for plat tid next k1)"
    unfolding lf using keeps_stacks_get[OF same] keeps_stacks_schedule[OF wf s] keeps_stacks_reclaim[OF i(1)] keeps_stacks_get[OF get_switch_into]
    by (metis keeps_stacks_trans)
  then show "sched_ok plat (leave_for plat tid next k1) \<and> k_current (leave_for plat tid next k1) \<noteq> tid"
    using sched_okI[OF ok sw(1)] sw(2) ne unfolding lf by simp
  show "get_thread (leave_for plat tid next k1) tid = None" unfolding lf using rt(2) by (simp add: get_switch_into)
  show "k_procs (leave_for plat tid next k1) = k_procs k"
    unfolding lf using rt(4) procs by (simp add: switch_into_def set_current_thread_def split: option.split)
qed

text \<open>
  A task ends: its thread leaves the table, another ready thread runs or the machine halts, and the process of a last thread is a
  zombie with the exit code.
\<close>

lemma exit_current_task_ok:
  assumes ok: "sched_ok plat k" and cur: "current_thread_id k = Some tid"
  obtains k' t where "exit_current_task plat code k = Some k'" "get_thread k tid = Some t"
    "get_thread k' tid = None" "kernel_wf k'" "k_halted k' \<or> k_current k' \<noteq> tid \<and> sched_ok plat k'"
    "process_rest k' = (if has_other_live_threads k (t_process_id t) tid then process_rest k
      else (process_rest k)(t_process_id t := map_option (mark_exited code) (process_rest k (t_process_id t))))"
proof -
  have c: "k_current k = tid" "tid \<noteq> 0" using cur by (auto simp: current_thread_id_def split: if_splits)
  obtain t where t: "get_thread k tid = Some t" using sched_ok_wf(2)[OF ok] c by (auto simp: running_is_current_def)
  let ?k0 = "modify_thread tid (set_state TTerminated) k"
  have ok0: "sched_ok plat ?k0" by (rule modify_thread_ok[OF ok]) simp
  have wf: "kernel_wf k" by (rule sched_ok_wf[OF ok])
  obtain k1 where k1: "announce_exit tid (Some (t_process_id t)) code ?k0 = Some k1" "sched_ok plat k1" "keeps_threads ?k0 k1"
    "process_rest k1 = (if has_other_live_threads ?k0 (t_process_id t) tid then process_rest ?k0
      else (process_rest ?k0)(t_process_id t := map_option (mark_exited code) (process_rest ?k0 (t_process_id t))))"
    by (rule announce_exit_ok[OF ok0, of tid "Some (t_process_id t)" code]) auto
  have live: "has_other_live_threads ?k0 p tid = has_other_live_threads k p tid" for p
    using wf by (auto simp: has_other_live_threads_get modify_thread_wf get_modify_thread kernel_wf_def)
  have rest: "process_rest ?k0 = process_rest k" by (simp add: process_rest_def get_process_def fun_eq_iff)
  have g0: "get_thread ?k0 tid = Some (set_state TTerminated t)" using wf t by (simp add: get_modify_thread kernel_wf_def)
  obtain t1 where t1: "get_thread k1 tid = Some t1" "t_state t1 = TTerminated" "k_current k1 = tid"
    using k1(3) g0 c unfolding keeps_threads_def by (auto simp: option_rel_Some1 kept_def dest!: spec[of _ tid])
  obtain r k2 where s: "schedule (set_current_thread None k1) = (r, k2)" by fastforce
  note e = ended_leaves[OF k1(2) t1(3,1,2) s]
  let ?k' = "case r of Some next \<Rightarrow> leave_for plat tid next k2 | None \<Rightarrow> (reclaim_thread plat tid k2)\<lparr>k_halted := True\<rparr>"
  have x: "exit_current_task plat code k = Some ?k'"
    using k1(1) s t cur by (simp add: exit_current_task_def split: option.split)
  have "process_rest ?k' = process_rest k1"
    using e(4,5) by (auto simp: process_rest_def get_process_def fun_eq_iff split: option.split)
  moreover have "kernel_wf ?k'"
    using e(1,6) sched_ok_wf(1) by (auto simp: kernel_wf_def split: option.split)
  ultimately show ?thesis
    using that[OF x t] e(1,2,3) k1(4) live rest by (auto split: option.split simp: get_thread_def)
qed

section \<open>Signal handlers\<close>

text \<open>Bytes that can be read one by one are read by one copy.\<close>

lemma readable_bytes:
  assumes m: "user_memory plat k pt" and s: "src \<noteq> 0" "unat src + length dat \<le> 2 ^ 47" and ne: "dat \<noteq> []"
    and b: "\<And>i. i < length dat \<Longrightarrow> user_byte (plat_x86 plat) (k_vm k) pt (src + of_nat i) = Some (dat ! i)"
  shows "copy_from_user plat k src (length dat) = Inr dat" "validate_user_ptr plat k src (of_nat (length dat))"
proof -
  let ?X = "plat_x86 plat"
  from m obtain po where po: "x86_laws ?X" "vm_phys_offset (k_vm k) = Some po" "unat po + 2 ^ 53 \<le> 2 ^ 64"
    "current_user_page_table k = Some pt" by (auto simp: user_memory_def)
  have l: "length dat < 2 ^ 64" "0 < length dat" using s(2) ne by auto
  have ul: "unat (of_nat (length dat) :: u64) = length dat" using l by (simp add: unat_of_nat)
  have ue: "unat USER_SPACE_END = 2 ^ 47 - 1" by (simp add: USER_SPACE_END_def)
  have r: "is_user_range_mapped_in_table ?X (k_vm k) pt src (of_nat (length dat))"
  proof -
    have "page_is_user_mapped_in_table ?X (k_vm k) pt (page_base (src + of_nat i))" if "i < length dat" for i
      using b[OF that] user_byte_mapped[OF po(1), of "k_vm k" pt "src + of_nat i"] by simp
    moreover have "unat src \<le> 2 ^ 47 - 1" using s(2) l(2) by linarith
    ultimately show ?thesis using s(2) l by (auto simp: is_user_range_mapped_bytes ul ue word_le_nat_alt)
  qed
  have "map (\<lambda>i. the (user_byte ?X (k_vm k) pt (src + of_nat i))) [0..<length dat] = dat"
    by (rule nth_equalityI) (simp_all add: b)
  then have "copy_from_user_in_table ?X (k_vm k) pt src (length dat) = Ok dat"
    using copy_from_user_spec[OF po(1-3) s(1) l(2,1), of pt] r by simp
  then show "copy_from_user plat k src (length dat) = Inr dat" using po(4) l(2) s(1) by (simp add: copy_from_user_def)
  have nz: "of_nat (length dat) \<noteq> (0 :: u64)" using ul l(2) by (metis less_irrefl unat_0)
  have "unat (of_nat (length dat) - 1 :: u64) = length dat - 1" using unat_minus_one[OF nz] ul by simp
  then have c: "checked_add src (of_nat (length dat) - 1) = Some (src + (of_nat (length dat) - 1))"
    "unat (src + (of_nat (length dat) - 1)) = unat src + (length dat - 1)"
    using s(2) l by (simp_all add: checked_add_def unat_word_ariths)
  then have "src + (of_nat (length dat) - 1) \<le> USER_SPACE_END" "src \<le> USER_SPACE_END"
    using s(2) l(2) ue unfolding word_le_nat_alt by linarith+
  then show "validate_user_ptr plat k src (of_nat (length dat))"
    using s(1) r po(4) nz c(1) by (simp add: validate_user_ptr_def not_less)
qed

lemma to_le_bytes_not_Nil [simp]: "to_le_bytes (w :: u64) \<noteq> []"
  by (simp add: to_le_bytes_def)

lemma read_user_word:
  assumes m: "user_memory plat k pt" and s: "src \<noteq> 0" "unat src + 8 \<le> 2 ^ 47"
    and b: "\<And>i. i < 8 \<Longrightarrow> user_byte (plat_x86 plat) (k_vm k) pt (src + of_nat i) = Some (to_le_bytes w ! i)"
  shows "read_user_u64 plat k src = Inr w"
proof -
  have l: "length (to_le_bytes w) = 8" by simp
  then have "copy_from_user plat k src 8 = Inr (to_le_bytes w)" using readable_bytes(1)[OF m s(1), of "to_le_bytes w"] s b l by simp
  then show ?thesis by (simp add: read_user_u64_def)
qed

lemma may_write_valid:
  assumes m: "user_memory plat k pt" and w: "user_may_write plat k pt a n" and n: "0 < n"
  shows "validate_user_ptr plat k a (of_nat n)"
proof -
  let ?b = "\<lambda>i. user_byte (plat_x86 plat) (k_vm k) pt (a + of_nat i)"
  have "?b i \<noteq> None" if i: "i < n" for i
  proof -
    obtain r where "translate_user_addr_in_table (plat_x86 plat) (k_vm k) pt (a + of_nat i) True = Some r"
      using w i unfolding user_may_write_def by blast
    then have "translate_user_addr_in_table (plat_x86 plat) (k_vm k) pt (a + of_nat i) False = Some r"
      by (auto simp: translate_user_addr_in_table_def bind_eq_Some_conv split: if_splits)
    then show ?thesis by (simp add: user_byte_def)
  qed
  then show ?thesis
    using readable_bytes(2)[OF m, of a "map (\<lambda>i. the (?b i)) [0..<n]"] w n by (simp add: user_may_write_def)
qed

lemma signal_rsp_aligned: "unat (signal_rsp u) mod 16 = 8"
proof -
  let ?a = "(u - 32) AND NOT 15"
  have "take_bit 4 ?a = 0" by (auto simp: bit_eq_iff bit_simps simp flip: mask_eq_exp_minus_1[of 4, simplified])
  moreover have "uint (take_bit 4 ?a) = take_bit 4 (uint ?a)" by (rule unsigned_take_bit_eq)
  ultimately have "uint ?a mod 16 = 0" by (simp add: take_bit_eq_mod)
  then have "uint (?a - 8) mod 16 = 8"
    by (simp add: uint_word_ariths mod_mod_cancel) presburger
  then have "int (unat (?a - 8) mod 16) = 8" by (simp add: zmod_int)
  then show ?thesis unfolding signal_rsp_def by linarith
qed


lemma current_user_page_table_cong:
  "\<lbrakk>k_threads k' = k_threads k; k_procs k' = k_procs k; k_current k' = k_current k\<rbrakk> \<Longrightarrow>
    current_user_page_table k' = current_user_page_table k"
  unfolding current_user_page_table_def current_pid_def current_thread_id_def get_thread_def get_process_def by (simp split: option.split)

lemma copy_to_user_user_memory:
  assumes m: "user_memory plat k pt" and l: "length src < 2 ^ 64"
  shows "user_memory plat (snd (copy_to_user plat dst src k)) pt"
proof -
  let ?X = "plat_x86 plat" let ?k = "snd (copy_to_user plat dst src k)"
  from m obtain po where po: "x86_laws ?X" "vm_phys_offset (k_vm k) = Some po" "unat po + 2 ^ 53 \<le> 2 ^ 64"
    "current_user_page_table k = Some pt" "tables_protected ?X (k_vm k) pt" by (auto simp: user_memory_def)
  have "?k = k \<or> ?k = k\<lparr>k_vm := snd (copy_to_user_in_table ?X pt dst src (k_vm k))\<rparr>"
    using po(4) by (auto simp: copy_to_user_def split: kres.split prod.split)
  then show ?thesis
  proof
    assume k: "?k = k\<lparr>k_vm := snd (copy_to_user_in_table ?X pt dst src (k_vm k))\<rparr>"
    obtain r v' where c: "copy_to_user_in_table ?X pt dst src (k_vm k) = (r, v')" by fastforce
    obtain mm where mm: "v' = (k_vm k)\<lparr>vm_mem := mm\<rparr>" "\<forall>x. mm x \<noteq> vm_mem (k_vm k) x \<longrightarrow> x \<in> writable_bytes ?X (k_vm k) pt"
      using copy_to_user_changes[OF po(1-3) l po(5) c] unfolding writable_bytes_def by blast
    have "current_user_page_table ?k = Some pt"
      using po(4) current_user_page_table_cong[of ?k k] by (simp add: k)
    then show ?thesis
      using po tables_protected_write[OF po(5) mm(2)] by (simp add: k c mm(1) user_memory_def)
  qed (use m in simp)
qed

lemma user_memory_modify_signals:
  assumes "kernel_wf k"
  shows "user_memory plat (modify_process pid (modify_signals f) k) pt = user_memory plat k pt"
proof -
  have "current_user_page_table (modify_process pid (modify_signals f) k) = current_user_page_table k"
    using modify_process_spec(2)[OF assms, of "modify_signals f" pid]
    by (auto simp: current_user_page_table_def split: option.split)
  then show ?thesis by (simp add: user_memory_def)
qed

lemma setup_signal_frame_memory:
  assumes "kernel_wf k" "user_memory plat k pt" "setup_signal_frame plat ks sig a k = Some (Returns ks1, k1)" "length ks = 20"
  shows "user_memory plat k1 pt" "length ks1 = 20"
proof -
  let ?f = "to_le_bytes (sa_restorer a) @ to_le_bytes (ks ! 15) @ to_le_bytes (ks ! 18) @ to_le_bytes (ks ! 17)"
  let ?k = "snd (copy_to_user plat (signal_rsp (ks ! 18)) ?f k)"
  have "kernel_wf ?k" using assms(1) by (simp add: kernel_wf_def)
  moreover have "user_memory plat ?k pt" by (rule copy_to_user_user_memory[OF assms(2)]) simp
  ultimately show "user_memory plat k1 pt" "length ks1 = 20"
    using assms(3,4) user_memory_modify_signals[of ?k plat _ _ pt]
    by (auto simp: setup_signal_frame_def write_signal_frame_def exit_thread_def Let_def
        split: if_splits bool.splits option.splits sum.splits prod.splits)
qed

lemma sample_may_write:
  assumes "maps_one_page (k_vm k)" "0x1000 \<le> unat a" "unat a + n \<le> 0x2000"
  shows "user_may_write boot_platform k 0x1000 a n"
proof -
  note u = one_page_user[OF assms(1)]
  have a: "unat (a + of_nat i) = unat a + i" if "i < n" for i
    using that assms(3) by (simp add: unat_word_ariths unat_of_nat)
  have page: "unat (a + of_nat i) div 4096 = 1" if "i < n" for i using a[OF that] that assms(2,3) by (simp add: div_nat_eqI)
  have "i = j" if "i < n" "j < n" "(a + of_nat i) AND 0xfff = (a + of_nat j) AND 0xfff" for i j
  proof -
    have "unat (a + of_nat i) mod 4096 = unat (a + of_nat j) mod 4096" using that(3) by (metis unat_and_fff)
    then have "unat (a + of_nat i) = unat (a + of_nat j)" using page[OF that(1)] page[OF that(2)] by (metis div_mult_mod_eq)
    then show ?thesis using a that by simp
  qed
  then have "no_alias flat_x86 (k_vm k) 0x1000 a n" using page by (auto simp: no_alias_def u)
  moreover have "a \<noteq> 0" using assms(2) by auto
  ultimately show ?thesis using page assms(3) by (auto simp: user_may_write_def u)
qed


section \<open>Killing another process\<close>

lemma terminate_other:
  assumes ok: "sched_ok plat k" and ne: "current_thread_id k \<noteq> Some tid" "tid \<noteq> 0"
  shows "sched_ok plat (terminate_thread plat tid k)" "get_thread (terminate_thread plat tid k) = (get_thread k)(tid := None)"
    "k_current (terminate_thread plat tid k) = k_current k" "k_procs (terminate_thread plat tid k) = k_procs k"
proof -
  let ?k = "modify_thread tid (set_state TTerminated) k"
  have wf: "kernel_wf k" "sched_inv k" using ok by (simp_all add: sched_ok_wf) (simp add: sched_ok_def)
  have e: "terminate_thread plat tid k = reclaim_thread plat tid ?k"
    using ne by (auto simp: terminate_thread_def Let_def current_thread_id_def)
  have wf1: "kernel_wf ?k" using wf(1) by (simp add: modify_thread_wf)
  show "sched_ok plat (terminate_thread plat tid k)"
    by (rule sched_okI[OF ok terminate_thread_inv[OF wf(2)] keeps_stacks_terminate[OF wf(2)]])
  show "get_thread (terminate_thread plat tid k) = (get_thread k)(tid := None)"
    "k_current (terminate_thread plat tid k) = k_current k" "k_procs (terminate_thread plat tid k) = k_procs k"
    unfolding e using reclaim_thread_spec(2-4)[OF wf1, of plat tid] wf(1) by (simp_all add: get_modify_thread kernel_wf_def)
qed

lemma terminate_others:
  assumes "sched_ok plat k" "\<And>tid. tid \<in> set tids \<Longrightarrow> k_current k \<noteq> tid \<and> tid \<noteq> 0"
  shows "sched_ok plat (fold (terminate_thread plat) tids k)"
    "get_thread (fold (terminate_thread plat) tids k) = (\<lambda>u. if u \<in> set tids then None else get_thread k u)"
    "k_current (fold (terminate_thread plat) tids k) = k_current k" "k_procs (fold (terminate_thread plat) tids k) = k_procs k"
proof -
  have "sched_ok plat (fold (terminate_thread plat) tids k)
    \<and> get_thread (fold (terminate_thread plat) tids k) = (\<lambda>u. if u \<in> set tids then None else get_thread k u)
    \<and> k_current (fold (terminate_thread plat) tids k) = k_current k \<and> k_procs (fold (terminate_thread plat) tids k) = k_procs k"
    using assms
  proof (induction tids arbitrary: k)
    case (Cons tid tids)
    have "current_thread_id k \<noteq> Some tid" "tid \<noteq> 0" using Cons.prems(2)[of tid] by (auto simp: current_thread_id_def)
    note t = terminate_other[OF Cons.prems(1) this]
    have "k_current (terminate_thread plat tid k) \<noteq> u \<and> u \<noteq> 0" if "u \<in> set tids" for u using Cons.prems(2)[of u] that t(3) by simp
    from Cons.IH[OF t(1) this] show ?case using t by (auto simp: fun_eq_iff)
  qed simp
  then show "sched_ok plat (fold (terminate_thread plat) tids k)"
    "get_thread (fold (terminate_thread plat) tids k) = (\<lambda>u. if u \<in> set tids then None else get_thread k u)"
    "k_current (fold (terminate_thread plat) tids k) = k_current k" "k_procs (fold (terminate_thread plat) tids k) = k_procs k" by simp_all
qed

lemma killed_threads:
  fixes k pid
  defines "tids \<equiv> map t_id (filter (\<lambda>t. t_process_id t = pid) (thread_queue_iter (k_threads k)))"
  shows "kernel_wf k \<Longrightarrow> tid \<in> set tids \<longleftrightarrow> (\<exists>t. get_thread k tid = Some t \<and> t_process_id t = pid)"
    "sched_ok plat k \<Longrightarrow> current_pid k \<noteq> Some pid \<Longrightarrow> tid \<in> set tids \<Longrightarrow> k_current k \<noteq> tid \<and> tid \<noteq> 0"
proof -
  have mem: "tid \<in> set tids \<longleftrightarrow> (\<exists>t. get_thread k tid = Some t \<and> t_process_id t = pid)" if wf: "kernel_wf k"
  proof
    assume "tid \<in> set tids"
    then obtain t where t: "t \<in> set (thread_queue_iter (k_threads k))" "t_process_id t = pid" "t_id t = tid" by (auto simp: tids_def)
    then show "\<exists>t. get_thread k tid = Some t \<and> t_process_id t = pid" using thread_iter_get[OF wf, of t] by auto
  next
    assume "\<exists>t. get_thread k tid = Some t \<and> t_process_id t = pid"
    then obtain t where t: "get_thread k tid = Some t" "t_process_id t = pid" by blast
    then have "t \<in> set (thread_queue_iter (k_threads k))" "t_id t = tid" using thread_iter_get[OF wf, of t] get_thread_id[OF t(1)] by auto
    then show "tid \<in> set tids" using t(2) by (auto simp: tids_def)
  qed
  then show "kernel_wf k \<Longrightarrow> tid \<in> set tids \<longleftrightarrow> (\<exists>t. get_thread k tid = Some t \<and> t_process_id t = pid)" .
  show "k_current k \<noteq> tid \<and> tid \<noteq> 0" if "sched_ok plat k" "current_pid k \<noteq> Some pid" "tid \<in> set tids"
    using that mem sched_ok_wf[of plat k]
    by (auto simp: current_pid_def current_thread_id_def running_is_current_def split: if_splits)
qed

text \<open>
  C10. \<^emph>\<open>SIGKILL\<close> cannot be handled, ignored or blocked: whatever the target's handlers and mask are, sending it to another process succeeds, leaves the
  process a zombie with exit code 9 and removes every one of its threads and no other.
\<close>

theorem sigkill_ends_process:
  assumes "sched_ok plat k" "get_process k pid = Some p" "current_pid k \<noteq> Some pid"
  shows "\<exists>k' p'. deliver_signal_to_pid plat pid SIGKILL k = Some (Returns SUCCESS, k') \<and> sched_ok plat k'
    \<and> get_process k' pid = Some p' \<and> p_state p' = PZombie \<and> p_exit_code p' = Some 9
    \<and> (\<forall>tid. case get_thread k tid of
          Some t \<Rightarrow> (get_thread k' tid = None \<longleftrightarrow> t_process_id t = pid)
        | None \<Rightarrow> get_thread k' tid = None)"
proof -
  let ?tids = "map t_id (filter (\<lambda>t. t_process_id t = pid) (thread_queue_iter (k_threads k)))"
  let ?k = "fold (terminate_thread plat) ?tids k"
  have wf: "kernel_wf k" by (rule sched_ok_wf[OF assms(1)])
  note mem = killed_threads(1)[OF wf] and ne = killed_threads(2)[OF assms(1,3)]
  have t: "sched_ok plat ?k" "get_thread ?k = (\<lambda>u. if u \<in> set ?tids then None else get_thread k u)" "k_procs ?k = k_procs k"
    by (rule terminate_others[OF assms(1) ne], assumption)+
  let ?e = "exit_process pid 9 ?k"
  have okw: "sched_ok plat ?e" unfolding exit_process_modify by (rule modify_process_ok[OF t(1)]) simp
  obtain k' where k': "deliver_sigchld_to_parent pid ?e = Some k'" "sched_ok plat k'" "keeps_threads ?e k'" "process_rest k' = process_rest ?e"
    by (rule deliver_sigchld_ok[OF okw])
  have "get_process ?e pid = Some (mark_exited 9 p)"
    using assms(2) modify_process_spec(2)[OF sched_ok_wf(1)[OF t(1)], of "mark_exited 9" pid] get_process_procs[OF t(3)]
    by (simp add: exit_process_modify)
  then have "process_rest k' pid = Some (modify_signals (\<lambda>_. signal_state_new) (mark_exited 9 p))" using k'(4) by (simp add: process_rest_def)
  then obtain p' where p': "get_process k' pid = Some p'" "p_state p' = PZombie" "p_exit_code p' = Some 9"
    by (rule process_rest_Some) (simp add: mark_exited_def)
  have "deliver_signal_to_pid plat pid SIGKILL k = Some (Returns SUCCESS, k')"
    using assms(2,3) k'(1) by (simp add: deliver_signal_to_pid_def deliver_signal_with_def kill_process_immediately_def SIGKILL_def)
  moreover have "get_thread ?e = get_thread ?k" by (simp add: exit_process_modify)
  then have "get_thread k' tid = None \<longleftrightarrow> get_thread ?k tid = None" for tid
    using k'(3) by (auto simp: keeps_threads_def rel_option_iff split: option.splits dest!: spec[of _ tid])
  then have "case get_thread k tid of Some t \<Rightarrow> (get_thread k' tid = None \<longleftrightarrow> t_process_id t = pid) | None \<Rightarrow> get_thread k' tid = None" for tid
    unfolding t(2) using mem[of tid] by (simp split: option.split)
  ultimately show ?thesis using p' k'(2) by blast
qed

theorem sigkill_ends_process_witness:
  "\<exists>k' p'. deliver_signal_to_pid boot_platform 2 SIGKILL sample_kernel = Some (Returns SUCCESS, k') \<and> get_process k' 2 = Some p'
    \<and> p_state p' = PZombie \<and> p_exit_code p' = Some 9 \<and> get_thread k' 2 = None \<and> get_thread k' 1 \<noteq> None"
proof -
  have c: "current_pid sample_kernel = Some 1"
    by (simp add: current_pid_def current_thread_id_def two_threads_started)
  have p: "get_process sample_kernel 2 \<noteq> None" by (simp add: get_process_def sample_procs_get)
  then obtain p where p: "get_process sample_kernel 2 = Some p" by blast
  from sigkill_ends_process[OF sample_kernel_ok(1) p] c obtain k' p' where
    k': "deliver_signal_to_pid boot_platform 2 SIGKILL sample_kernel = Some (Returns SUCCESS, k')" "get_process k' 2 = Some p'"
      "p_state p' = PZombie" "p_exit_code p' = Some 9"
    and g: "\<And>tid. case get_thread sample_kernel tid of
          Some t \<Rightarrow> (get_thread k' tid = None \<longleftrightarrow> t_process_id t = 2) | None \<Rightarrow> get_thread k' tid = None" by auto
  from k' g[of 1] g[of 2] show ?thesis by (auto simp: two_threads_started)
qed

section \<open>What cannot be caught\<close>

definition signals_safe :: "signal_state \<Rightarrow> bool" where
  "signals_safe s \<longleftrightarrow> length (ss_actions s) = 64 \<and> ss_mask s AND UNCATCHABLE_MASK = 0
    \<and> (\<forall>a\<in>set (ss_actions s). sa_mask a AND UNCATCHABLE_MASK = 0)
    \<and> is_default (signal_action s SIGKILL) \<and> is_default (signal_action s SIGSTOP)"

definition all_safe :: "kernel \<Rightarrow> bool" where
  "all_safe k \<longleftrightarrow> (\<forall>pid p. get_process k pid = Some p \<longrightarrow> signals_safe (p_signal_state p))"

lemma signals_safe_pending [simp]:
  "signals_safe (set_pending sig s) = signals_safe s" "signals_safe (snd (take_next_deliverable s)) = signals_safe s"
  by (simp_all add: signals_safe_def set_pending_def take_next_deliverable_def signal_action_def Let_def)

lemma signals_safe_mask:
  assumes "signals_safe s" "m AND UNCATCHABLE_MASK = 0"
  shows "signals_safe (s\<lparr>ss_mask := m\<rparr>)"
  using assms by (simp add: signals_safe_def signal_action_def signal_number_defs)

lemma all_safe_modify:
  assumes "kernel_wf k" "all_safe k" "\<And>s. signals_safe s \<Longrightarrow> signals_safe (f s)"
  shows "all_safe (modify_process pid (modify_signals f) k)"
  using assms by (auto simp: all_safe_def modify_process_spec(2) split: if_splits)

lemma all_safe_procs: "k_procs k' = k_procs k \<Longrightarrow> all_safe k' = all_safe k"
  using get_process_procs[of k' k] by (simp add: all_safe_def)

lemma all_safe_exit: "kernel_wf k \<Longrightarrow> all_safe k \<Longrightarrow> all_safe (exit_process pid code k)"
  by (auto simp: all_safe_def exit_process_modify modify_process_spec(2) split: if_splits)

lemma and_not_uncatchable: "(w AND NOT UNCATCHABLE_MASK) AND UNCATCHABLE_MASK = 0"
  by (simp add: bit_eq_iff bit_simps)

lemma masked_or: "\<lbrakk>a AND u = 0; b AND u = 0\<rbrakk> \<Longrightarrow> (a OR b) AND u = (0 :: u64)"
  by (simp add: bit.conj_disj_distrib2)

lemma masked_and: "a AND u = 0 \<Longrightarrow> (a AND b) AND u = (0 :: u64)"
  by (metis and.assoc and.commute and_zero_eq)

lemma apply_mask_safe: "\<lbrakk>signals_safe s; m AND UNCATCHABLE_MASK = 0\<rbrakk> \<Longrightarrow> signals_safe (apply_mask how m s)"
  using signals_safe_mask[of s] masked_or[of "ss_mask s" UNCATCHABLE_MASK m] masked_and[of "ss_mask s" UNCATCHABLE_MASK "NOT m"]
  by (simp add: apply_mask_def) (simp add: signals_safe_def)

lemma set_action_safe:
  assumes "signals_safe s" "sa_mask a AND UNCATCHABLE_MASK = 0" "push_bit (sig - 1) 1 AND UNCATCHABLE_MASK = 0" "1 \<le> sig" "sig \<le> 64"
  shows "signals_safe (signal_set_action sig a s)"
proof -
  have "sig \<noteq> SIGKILL \<and> sig \<noteq> SIGSTOP"
    using assms(3) by (auto simp: UNCATCHABLE_MASK_def signal_number_defs)
  then show ?thesis
    using assms(1,2,4,5) unfolding signals_safe_def signal_set_action_def signal_action_def
    by (auto simp: signal_number_defs nth_list_update dest: set_update_subset_insert[THEN subsetD])
qed

lemma leaving_procs [simp]:
  "k_procs (leave_for plat tid next k) = k_procs k" "k_procs (reclaim_thread plat tid k) = k_procs k"
  by (auto simp: leave_for_def reclaim_thread_def clear_futex_waiter_def remove_thread_def release_kernel_stack_def switch_to_thread_def
      switch_into_def set_current_thread_def Let_def split: option.split prod.split)

lemma deliver_sigchld_safe:
  assumes "kernel_wf k" "all_safe k" "deliver_sigchld_to_parent child k = Some k'"
  shows "all_safe k'"
proof -
  have p: "all_safe (wake_first_thread_of pid (modify_process pid (modify_signals (set_pending SIGCHLD)) k))" for pid
    using all_safe_modify[OF assms(1,2), of "set_pending SIGCHLD" pid]
    by (subst all_safe_procs[where k = "modify_process pid (modify_signals (set_pending SIGCHLD)) k"])
      (auto simp: wake_first_thread_of_def split: option.split)
  show ?thesis
    using assms p by (auto simp: deliver_sigchld_to_parent_def deliver_signal_with_def Let_def signal_number_defs default_action_def split: option.splits if_splits)
qed

lemma announce_exit_safe:
  assumes ok: "sched_ok plat k" and safe: "all_safe k" and a: "announce_exit tid pid code k = Some k'"
  shows "all_safe k'"
proof (cases "\<exists>p. pid = Some p \<and> \<not> has_other_live_threads k p tid")
  case False
  then show ?thesis using safe a by (auto simp: announce_exit_def split: option.splits)
next
  case True
  then obtain p where p: "pid = Some p" "\<not> has_other_live_threads k p tid" by blast
  let ?k = "exit_process p code k"
  have ok1: "sched_ok plat ?k" unfolding exit_process_modify by (rule modify_process_ok[OF ok]) simp
  have s1: "all_safe ?k" by (rule all_safe_exit[OF sched_ok_wf(1)[OF ok] safe])
  obtain k2 where k2: "wake_parent_ipc_waiter p ?k = Some k2" "deliver_sigchld_to_parent p k2 = Some k'"
    using a p by (auto simp: announce_exit_def split: option.splits)
  have "k2 = ?k \<or> (\<exists>t b. send_from_kernel t [] ?k = Some (b, k2))"
    using k2(1) by (auto simp: wake_parent_ipc_waiter_def split: option.splits)
  then have "kernel_wf k2 \<and> all_safe k2"
  proof
    assume "\<exists>t b. send_from_kernel t [] ?k = Some (b, k2)"
    then obtain t b where "send_from_kernel t [] ?k = Some (b, k2)" by blast
    then have "sched_ok plat k2" "k_procs k2 = k_procs ?k" using send_from_kernel_ok[OF ok1, of t "[]"] by (metis option.inject prod.inject)+
    then show ?thesis using sched_ok_wf(1) all_safe_procs s1 by blast
  qed (use s1 sched_ok_wf(1)[OF ok1] in auto)
  then show ?thesis using deliver_sigchld_safe k2(2) by blast
qed

lemma exit_current_task_safe:
  assumes ok: "sched_ok plat k" and safe: "all_safe k" and e: "exit_current_task plat code k = Some k'"
  shows "all_safe k'"
proof (cases "current_thread_id k")
  case None
  then have "k_procs k' = k_procs k" using e by (auto simp: exit_current_task_def)
  then show ?thesis using safe all_safe_procs by blast
next
  case (Some tid)
  let ?k0 = "modify_thread tid (set_state TTerminated) k"
  have ok0: "sched_ok plat ?k0" by (rule modify_thread_ok[OF ok]) simp
  have s0: "all_safe ?k0" using safe all_safe_procs[of ?k0 k] by simp
  obtain pid k1 where k1: "announce_exit tid pid code ?k0 = Some k1" and
    e1: "(case schedule (set_current_thread None k1) of (Some next, k) \<Rightarrow> Some (leave_for plat tid next k)
       | (None, k) \<Rightarrow> Some ((reclaim_thread plat tid k)\<lparr>k_halted := True\<rparr>)) = Some k'"
    using e Some by (auto simp: exit_current_task_def Let_def split: option.splits)
  obtain r k2 where s: "schedule (set_current_thread None k1) = (r, k2)" by fastforce
  have "k_procs k' = k_procs k1" using e1 s schedule_frame(3)[OF s] by (auto simp: set_current_thread_def split: option.splits)
  then show ?thesis using announce_exit_safe[OF ok0 s0 k1] all_safe_procs by blast
qed

lemma deliver_signal_safe:
  assumes ok: "sched_ok plat k" and safe: "all_safe k" and d: "deliver_signal_to_pid plat pid sig k = Some (r, k')"
  shows "all_safe k'"
proof -
  have wf: "kernel_wf k" by (rule sched_ok_wf[OF ok])
  have p: "all_safe (wake_first_thread_of pid (modify_process pid (modify_signals (set_pending sig)) k))"
    using all_safe_modify[OF wf safe, of "set_pending sig" pid]
    by (subst all_safe_procs[where k = "modify_process pid (modify_signals (set_pending sig)) k"])
      (auto simp: wake_first_thread_of_def split: option.split)
  have x: "all_safe k'" if "exit_thread plat code k = Some (r, k')" for code
    using exit_current_task_safe[OF ok safe, of code k'] that by (auto simp: exit_thread_def)
  have kl: "all_safe k'" if k: "kill_process_immediately plat pid code k = Some (r, k')" for code
  proof (cases "current_pid k = Some pid")
    case True
    then show ?thesis using x k by (simp add: kill_process_immediately_def)
  next
    case False
    let ?tids = "map t_id (filter (\<lambda>t. t_process_id t = pid) (thread_queue_iter (k_threads k)))"
    let ?k = "fold (terminate_thread plat) ?tids k"
    have t: "sched_ok plat ?k" "k_procs ?k = k_procs k"
      by (rule terminate_others[OF ok killed_threads(2)[OF ok False]], assumption)+
    have "all_safe (exit_process pid code ?k)"
      using all_safe_exit[OF sched_ok_wf(1)[OF t(1)]] all_safe_procs[OF t(2)] safe by blast
    moreover have "kernel_wf (exit_process pid code ?k)"
      unfolding exit_process_modify by (rule modify_process_spec(1)[OF sched_ok_wf(1)[OF t(1)]]) simp
    ultimately show ?thesis
      using deliver_sigchld_safe False k by (auto simp: kill_process_immediately_def Let_def)
  qed
  show ?thesis
    using d p x kl safe by (auto simp: deliver_signal_to_pid_def deliver_signal_with_def Let_def split: option.splits if_splits)
qed

lemma store_old_keeps:
  "k_procs (snd (store_old_action plat pid sig ptr k)) = k_procs k" "kernel_wf k \<Longrightarrow> kernel_wf (snd (store_old_action plat pid sig ptr k))"
  "k_procs (snd (store_old_mask plat pid ptr k)) = k_procs k" "kernel_wf k \<Longrightarrow> kernel_wf (snd (store_old_mask plat pid ptr k))"
proof -
  have c: "snd (case copy_to_user plat ptr bs k of (Inl _, k) \<Rightarrow> (Inl EFAULT :: unit sysres, k) | (Inr _, k) \<Rightarrow> (Inr (), k))
      = snd (copy_to_user plat ptr bs k)" for bs k
    by (auto split: prod.split sum.split)
  have w: "kernel_wf (snd (copy_to_user plat ptr bs k)) = kernel_wf k" for bs k by (simp add: kernel_wf_def)
  show "k_procs (snd (store_old_action plat pid sig ptr k)) = k_procs k" "kernel_wf k \<Longrightarrow> kernel_wf (snd (store_old_action plat pid sig ptr k))"
    "k_procs (snd (store_old_mask plat pid ptr k)) = k_procs k" "kernel_wf k \<Longrightarrow> kernel_wf (snd (store_old_mask plat pid ptr k))"
    by (simp_all add: store_old_action_def store_old_mask_def write_user_u64_def c w Let_def del: append_assoc)
qed

lemma rt_sigaction_safe:
  assumes "kernel_wf k" "all_safe k"
  shows "all_safe (snd (rt_sigaction plat signum new_ptr old_ptr k))"
proof (cases "current_pid k")
  case (Some pid)
  let ?sig = "unat signum"
  obtain r k1 where o: "store_old_action plat pid ?sig old_ptr k = (r, k1)" by fastforce
  have k1: "kernel_wf k1" "all_safe k1"
    using store_old_keeps(1)[of plat pid ?sig old_ptr k] store_old_keeps(2)[of k plat pid ?sig old_ptr] o assms all_safe_procs[of k1 k] by auto
  have act: "sa_mask a AND UNCATCHABLE_MASK = 0" if "read_action plat k1 new_ptr = Inr a" for a
    using that by (auto simp: read_action_def and_not_uncatchable split: sum.splits)
  have "all_safe (modify_process pid (modify_signals (signal_set_action ?sig a)) k1)"
    if "read_action plat k1 new_ptr = Inr a" "push_bit (?sig - 1) 1 AND UNCATCHABLE_MASK = 0" "1 \<le> ?sig" "?sig \<le> 64" for a
    by (rule all_safe_modify[OF k1]) (rule set_action_safe[OF _ act[OF that(1)] that(2-4)])
  then show ?thesis
    using Some o k1 assms by (auto simp: rt_sigaction_def Let_def not_less Suc_le_eq split: sum.split)
qed (use assms in \<open>simp add: rt_sigaction_def Let_def\<close>)

lemma rt_sigprocmask_safe:
  assumes "kernel_wf k" "all_safe k"
  shows "all_safe (snd (rt_sigprocmask plat how set_ptr old_ptr k))"
proof (cases "current_pid k")
  case (Some pid)
  obtain r k1 where o: "store_old_mask plat pid old_ptr k = (r, k1)" by fastforce
  have k1: "kernel_wf k1" "all_safe k1"
    using store_old_keeps(3)[of plat pid old_ptr k] store_old_keeps(4)[of k plat pid old_ptr] o assms all_safe_procs[of k1 k] by auto
  have "all_safe (modify_process pid (modify_signals (apply_mask how (w AND NOT UNCATCHABLE_MASK))) k1)" for w
    by (rule all_safe_modify[OF k1]) (rule apply_mask_safe[OF _ and_not_uncatchable])
  then show ?thesis
    using Some o k1 by (auto simp: rt_sigprocmask_def split: sum.split)
qed (use assms in \<open>simp add: rt_sigprocmask_def\<close>)

lemma copy_to_user_ok_state:
  assumes "sched_ok plat k"
  shows "sched_ok plat (snd (copy_to_user plat' dst src k))"
proof -
  obtain m where m: "snd (copy_to_user plat' dst src k) = k\<lparr>k_vm := (k_vm k)\<lparr>vm_mem := m\<rparr>\<rparr>" using copy_to_user_frame by blast
  have "kernel_wf (k\<lparr>k_vm := (k_vm k)\<lparr>vm_mem := m\<rparr>\<rparr>)" using sched_ok_wf(1)[OF assms] by (simp add: kernel_wf_def)
  from sched_ok_cong[OF assms this] show ?thesis unfolding m by simp
qed

lemma action_mask_safe: "signals_safe s \<Longrightarrow> sa_mask (signal_action s sig) AND UNCATCHABLE_MASK = 0"
  by (auto simp: signals_safe_def signal_action_def sig_action_default_def)

lemma setup_signal_frame_safe:
  assumes ok: "sched_ok plat k" and safe: "all_safe k" and a: "sa_mask a AND UNCATCHABLE_MASK = 0"
    and s: "setup_signal_frame plat ks sig a k = Some (r, k')"
  shows "all_safe k'"
proof -
  obtain b k1 where w: "write_signal_frame plat (signal_rsp (ks ! 18)) (sa_restorer a) (ks ! 15) (ks ! 18) (ks ! 17) k = (b, k1)" by fastforce
  then have "k1 = k \<or> (\<exists>bs. k1 = snd (copy_to_user plat (signal_rsp (ks ! 18)) bs k))"
    by (auto simp: write_signal_frame_def split: if_splits prod.splits sum.splits) (metis snd_conv)+
  then have k1: "sched_ok plat k1" "all_safe k1"
    using ok safe copy_to_user_ok_state[OF ok] all_safe_procs[of k1 k] by auto
  have "all_safe (modify_process pid (modify_signals (\<lambda>s. s\<lparr>ss_mask := ss_mask s OR sa_mask a\<rparr>)) k1)" for pid
  proof (rule all_safe_modify[OF sched_ok_wf(1)[OF k1(1)] k1(2)])
    fix s assume s: "signals_safe s"
    then have "ss_mask s AND UNCATCHABLE_MASK = 0" by (simp add: signals_safe_def)
    from signals_safe_mask[OF s masked_or[OF this a]] show "signals_safe (s\<lparr>ss_mask := ss_mask s OR sa_mask a\<rparr>)" .
  qed
  then show ?thesis
    using s w k1(2) exit_current_task_safe[OF k1]
    by (auto simp: setup_signal_frame_def exit_thread_def Let_def split: bool.splits option.splits)
qed

lemma rt_sigreturn_safe:
  assumes ok: "sched_ok plat k" and safe: "all_safe k" and s: "rt_sigreturn plat ks k = Some (r, k')"
  shows "all_safe k'"
proof -
  have "all_safe (modify_process pid (modify_signals (\<lambda>s. s\<lparr>ss_mask := 0\<rparr>)) k)" for pid
    by (rule all_safe_modify[OF sched_ok_wf(1)[OF ok] safe]) (auto intro!: signals_safe_mask)
  then show ?thesis
    using s safe exit_current_task_safe[OF ok safe]
    by (auto simp: rt_sigreturn_def exit_thread_def Let_def split: if_splits sum.splits option.splits)
qed

lemma signal_and_return_safe:
  assumes ok: "sched_ok plat k" and safe: "all_safe k" and s: "signal_and_return plat ks ret k = Some (r, k')"
  shows "all_safe k'"
proof (cases "ks ! 14 = SYS_RT_SIGRETURN")
  case True
  then obtain r' where "rt_sigreturn plat ks k = Some (r', k')" using s by (auto simp: signal_and_return_def)
  then show ?thesis using rt_sigreturn_safe[OF ok safe] by blast
next
  case False
  show ?thesis
  proof (cases "current_pid k")
    case None
    then show ?thesis using s safe False by (simp add: signal_and_return_def Let_def)
  next
    case (Some pid)
    obtain sig k1 where t: "take_signal pid k = (sig, k1)" by fastforce
    let ?m = "modify_process pid (modify_signals (\<lambda>s. snd (take_next_deliverable s))) k"
    have "k1 = k \<or> k1 = ?m" using t by (auto simp: take_signal_def split: option.splits)
    moreover have "sched_ok plat ?m" by (rule modify_process_ok[OF ok]) simp
    moreover have "all_safe ?m" by (rule all_safe_modify[OF sched_ok_wf(1)[OF ok] safe]) simp
    ultimately have k1: "sched_ok plat k1" "all_safe k1" using ok safe by auto
    have act: "sa_mask (case get_process k1 pid of Some p \<Rightarrow> signal_action (p_signal_state p) n | None \<Rightarrow> sig_action_default) AND UNCATCHABLE_MASK = 0" for n
      using k1(2) action_mask_safe by (auto simp: all_safe_def sig_action_default_def split: option.split)
    show ?thesis
      using s False Some t k1 act setup_signal_frame_safe[OF k1 act] exit_current_task_safe[OF k1]
      by (auto simp: signal_and_return_def exit_thread_def Let_def split: option.splits if_splits default_action_kind.splits)
  qed
qed



end
