(* ===== verification/Process_Calls.thy ===== *)
theory Process_Calls
  imports Signals
begin

text \<open>
  The system calls of processes and of time, from \<^verbatim>\<open>src/src/core/syscall/process.rs\<close> and \<^verbatim>\<open>src/src/core/syscall/time.rs\<close>. A call that can meet a
  panic of the kernel or wait for a lock forever is \<^term>\<open>None\<close> there. Calls that wait are one turn of their loop, as for messages. The
  words that a new thread finds on its kernel stack are not part of the state.
\<close>

section \<open>Identifiers and the heap\<close>

definition getpid :: "kernel \<Rightarrow> u64" where
  "getpid k =
    (case current_thread_id k of
       Some tid \<Rightarrow> (case get_thread k tid of Some t \<Rightarrow> t_process_id t | None \<Rightarrow> 0)
     | None \<Rightarrow> 0)"

definition gettid :: "kernel \<Rightarrow> u64" where
  "gettid k = (case current_thread_id k of Some tid \<Rightarrow> tid | None \<Rightarrow> 0)"

definition aslr_mix64 :: "u64 \<Rightarrow> u64" where
  "aslr_mix64 x =
    (let x = x XOR drop_bit 30 x; x = x * 0xbf58476d1ce4e5b9;
         x = x XOR drop_bit 27 x; x = x * 0x94d049bb133111eb
     in x XOR drop_bit 31 x)"

definition randomized_heap_base :: "platform \<Rightarrow> kernel \<Rightarrow> process_id \<Rightarrow> u64 \<Rightarrow> u64 \<Rightarrow> u64" where
  "randomized_heap_base plat k pid floor max_pages =
    (let seed = plat_boot_entropy plat XOR word_rotl 17 (k_ticks k) XOR word_rotl 9 pid XOR word_rotl 3 floor
     in saturating_add floor ((aslr_mix64 seed mod max_pages) * 4096))"

definition is_user_range :: "u64 \<Rightarrow> u64 \<Rightarrow> bool" where
  "is_user_range addr len =
    (if len = 0 then addr \<le> USER_SPACE_END
     else case checked_add addr (saturating_sub len 1) of
         None \<Rightarrow> False
       | Some e \<Rightarrow> addr \<le> USER_SPACE_END \<and> e \<le> USER_SPACE_END)"

definition start_heap :: "u64 \<Rightarrow> process \<Rightarrow> process" where
  "start_heap base p = (if p_heap_start p = 0 then p\<lparr>p_heap_start := base, p_heap_end := base\<rparr> else p)"

text \<open>What is done to the process while its table is locked: a result, the process and memory.\<close>

definition brk_process :: "x86 \<Rightarrow> u64 \<Rightarrow> process \<Rightarrow> vm \<Rightarrow> (u64 sysres \<times> process \<times> vm) option" where
  "brk_process X addr p v =
    (if addr = 0 then Some (Inr (p_heap_end p), p, v)
     else if addr < p_heap_start p then Some (Inl EINVAL, p, v)
     else if \<not> is_user_range addr 1 then Some (Inl EINVAL, p, v)
     else if addr \<le> p_heap_end p then Some (Inr addr, p\<lparr>p_heap_end := addr\<rparr>, v)
     else case p_page_table p of
         None \<Rightarrow> Some (Inl ENOSYS, p, v)
       | Some pt \<Rightarrow>
           let current_brk = p_heap_end p;
               start_addr = (if is_user_range_mapped_in_table X v pt current_brk 1 then saturating_add current_brk 1 else current_brk)
           in case page_align_up start_addr of
                None \<Rightarrow> Some (Inl EINVAL, p, v)
              | Some start_page \<Rightarrow> (case page_align_up (saturating_add addr 1) of
                    None \<Rightarrow> Some (Inl EINVAL, p, v)
                  | Some end_page \<Rightarrow>
                      if \<not> is_user_range (saturating_sub end_page 1) 1 then Some (Inl EINVAL, p, v)
                      else if end_page > start_page then
                        (case map_and_copy_segment_to X pt start_page 0 (end_page - start_page) [] True False v of
                           (Ok _, v) \<Rightarrow> Some (Inr addr, p\<lparr>p_heap_end := addr\<rparr>, v)
                         | (Err _, v) \<Rightarrow> Some (Inl ENOSYS, p, v)
                         | (Stuck, v) \<Rightarrow> None)
                      else Some (Inr addr, p\<lparr>p_heap_end := addr\<rparr>, v)))"

definition mmap_process :: "x86 \<Rightarrow> u64 \<Rightarrow> u64 \<Rightarrow> process \<Rightarrow> vm \<Rightarrow> (u64 sysres \<times> process \<times> vm) option" where
  "mmap_process X addr sz p v =
    (if addr \<noteq> 0 \<and> addr > USER_SPACE_END then Some (Inl EINVAL, p, v)
     else case page_align_up (if addr \<noteq> 0 then addr else p_heap_end p) of
         None \<Rightarrow> Some (Inl EINVAL, p, v)
       | Some map_start \<Rightarrow>
           if \<not> is_user_range map_start sz then Some (Inl EINVAL, p, v)
           else case p_page_table p of
               None \<Rightarrow> Some (Inl ENOMEM, p, v)
             | Some pt \<Rightarrow> (case map_and_copy_segment_to X pt map_start 0 sz [] True False v of
                   (Stuck, v) \<Rightarrow> None
                 | (Err _, v) \<Rightarrow> Some (Inl ENOMEM, p, v)
                 | (Ok _, v) \<Rightarrow>
                     if addr = 0 then
                       (case checked_add map_start sz of
                          None \<Rightarrow> Some (Inl EINVAL, p, v)
                        | Some new_heap_end \<Rightarrow> Some (Inr map_start, p\<lparr>p_heap_end := new_heap_end\<rparr>, v))
                     else Some (Inr map_start, p, v)))"

text \<open>\<^emph>\<open>with_process_mut\<close> around such a function.\<close>

definition with_process_memory ::
  "process_id \<Rightarrow> (process \<Rightarrow> vm \<Rightarrow> (u64 sysres \<times> process \<times> vm) option) \<Rightarrow> u64 \<Rightarrow> kernel \<Rightarrow> (u64 \<times> kernel) option" where
  "with_process_memory pid f missing k =
    (case get_process k pid of
       None \<Rightarrow> Some (missing, k)
     | Some p \<Rightarrow> (case f p (k_vm k) of
           None \<Rightarrow> None
         | Some (r, p', v) \<Rightarrow> Some (case r of Inl e \<Rightarrow> e | Inr a \<Rightarrow> a, modify_process pid (\<lambda>_. p') (k\<lparr>k_vm := v\<rparr>))))"

definition brk :: "platform \<Rightarrow> u64 \<Rightarrow> kernel \<Rightarrow> (u64 \<times> kernel) option" where
  "brk plat addr k =
    (case current_pid k of
       None \<Rightarrow> Some (ENOSYS, k)
     | Some pid \<Rightarrow> with_process_memory pid
         (\<lambda>p. brk_process (plat_x86 plat) addr (start_heap (randomized_heap_base plat k pid 0x40000000 0x8000) p)) ENOSYS k)"

definition MAP_ANONYMOUS :: u64 where "MAP_ANONYMOUS = 0x20"

definition mmap :: "platform \<Rightarrow> u64 \<Rightarrow> u64 \<Rightarrow> u64 \<Rightarrow> kernel \<Rightarrow> (u64 \<times> kernel) option" where
  "mmap plat addr len flags k =
    (if len = 0 then Some (EINVAL, k)
     else if flags AND MAP_ANONYMOUS = 0 then Some (ENOSYS, k)
     else case current_pid k of
         None \<Rightarrow> Some (ENOMEM, k)
       | Some pid \<Rightarrow> (case page_align_up len of
             None \<Rightarrow> Some (EINVAL, k)
           | Some sz \<Rightarrow>
               if sz = 0 then Some (EINVAL, k)
               else with_process_memory pid
                 (\<lambda>p. mmap_process (plat_x86 plat) addr sz (start_heap (randomized_heap_base plat k pid 0x50000000 0x10000) p)) ENOMEM k))"

definition munmap :: "platform \<Rightarrow> u64 \<Rightarrow> u64 \<Rightarrow> kernel \<Rightarrow> (u64 \<times> kernel) option" where
  "munmap plat addr len k =
    (if addr = 0 \<or> len = 0 then Some (EINVAL, k)
     else let unmap_start = addr AND NOT 4095
          in case (case checked_add addr len of None \<Rightarrow> None | Some e \<Rightarrow> page_align_up e) of
               None \<Rightarrow> Some (EINVAL, k)
             | Some unmap_end \<Rightarrow> (case checked_sub unmap_end unmap_start of
                   None \<Rightarrow> Some (EINVAL, k)
                 | Some unmap_len \<Rightarrow>
                     if unmap_len = 0 then Some (EINVAL, k)
                     else if \<not> is_user_range unmap_start unmap_len then Some (EINVAL, k)
                     else case current_user_page_table k of
                         None \<Rightarrow> Some (ENOSYS, k)
                       | Some pt \<Rightarrow> (case unmap_range_in_table (plat_x86 plat) pt unmap_start unmap_len (k_vm k) of
                             (Ok _, v) \<Rightarrow> Some (SUCCESS, k\<lparr>k_vm := v\<rparr>)
                           | (Err _, v) \<Rightarrow> Some (EINVAL, k\<lparr>k_vm := v\<rparr>)
                           | (Stuck, v) \<Rightarrow> None)))"

section \<open>Fork, exit and wait\<close>

definition drop_process :: "process \<Rightarrow> kernel \<Rightarrow> kernel" where
  "drop_process p k = k\<lparr>k_remote := snd (close_all (p_fd_table p) (k_remote k))\<rparr>"

definition add_process :: "process \<Rightarrow> kernel \<Rightarrow> process_id option \<times> kernel" where
  "add_process p k =
    (case process_table_add (k_procs k) p of
       (None, t) \<Rightarrow> (None, drop_process p (k\<lparr>k_procs := t\<rparr>))
     | (Some pid, t) \<Rightarrow> (Some pid, k\<lparr>k_procs := t\<rparr>))"

definition remove_process :: "process_id \<Rightarrow> kernel \<Rightarrow> kernel" where
  "remove_process pid k =
    (case process_table_remove (k_procs k) pid of
       (Some p, t) \<Rightarrow> drop_process p (k\<lparr>k_procs := t\<rparr>)
     | (None, t) \<Rightarrow> k\<lparr>k_procs := t\<rparr>)"

definition destroy_page_table :: "platform \<Rightarrow> u64 \<Rightarrow> kernel \<Rightarrow> kernel" where
  "destroy_page_table plat pt k = k\<lparr>k_vm := snd (destroy_user_page_table (plat_x86 plat) pt (k_vm k))\<rparr>"

definition KERNEL_THREAD_STACK_SIZE :: u64 where "KERNEL_THREAD_STACK_SIZE = 4096 * 4"

text \<open>The child process: the privilege, the heap and the stack of the parent with the copied page table and descriptors.\<close>

definition fork_process :: "process \<Rightarrow> u64 \<Rightarrow> kernel \<Rightarrow> process \<times> kernel" where
  "fork_process parent child_pt k =
    (let (fds, remote) = clone_for_fork (p_fd_table parent) (k_remote k);
         (child, next) = process_new (str_bytes ''fork'') (p_privilege parent) (Some (p_id parent)) (p_priority parent) (k_next_pid k)
     in (child\<lparr>p_page_table := Some child_pt, p_heap_start := p_heap_start parent, p_heap_end := p_heap_end parent,
           p_stack_bottom := p_stack_bottom parent, p_stack_top := p_stack_top parent, p_fd_table := fds\<rparr>,
         k\<lparr>k_next_pid := next, k_remote := remote\<rparr>))"

definition fork_thread :: "platform \<Rightarrow> thread \<Rightarrow> process_id \<Rightarrow> u64 \<Rightarrow> kernel \<Rightarrow> thread \<times> kernel" where
  "fork_thread plat t child_pid kstack k =
    (let (child, next, _) = thread_new_fork_child (plat_exit_handler plat) (plat_fork_trampoline plat) child_pid (t_syscall_user_rip t)
           (t_syscall_user_rsp t) (t_syscall_user_rflags t) (t_fs_base t) kstack KERNEL_THREAD_STACK_SIZE (k_next_tid k)
     in (child, k\<lparr>k_next_tid := next\<rparr>))"

definition undo_fork :: "platform \<Rightarrow> process_id \<Rightarrow> u64 \<Rightarrow> kernel \<Rightarrow> kernel" where
  "undo_fork plat child_pid child_pt k = destroy_page_table plat child_pt (remove_process child_pid k)"

definition fork_into :: "platform \<Rightarrow> thread \<Rightarrow> process \<Rightarrow> u64 \<Rightarrow> kernel \<Rightarrow> u64 \<times> kernel" where
  "fork_into plat t parent child_pt k =
    (let (child, k) = fork_process parent child_pt k; child_pid = p_id child
     in case add_process child k of
          (None, k) \<Rightarrow> (ENOMEM, destroy_page_table plat child_pt k)
        | (Some _, k) \<Rightarrow>
            (case allocate_kernel_stack (plat_unmap_guard plat) (plat_pool_base plat) KERNEL_THREAD_STACK_SIZE (k_kstacks k) of
               (None, ks) \<Rightarrow> (ENOMEM, undo_fork plat child_pid child_pt (k\<lparr>k_kstacks := ks\<rparr>))
             | (Some kstack, ks) \<Rightarrow>
                 let (child_thread, k) = fork_thread plat t child_pid kstack (k\<lparr>k_kstacks := ks\<rparr>)
                 in case add_thread child_thread k of
                      (None, k) \<Rightarrow> (ENOMEM, undo_fork plat child_pid child_pt k)
                    | (Some _, k) \<Rightarrow> (child_pid, k)))"

definition fork :: "platform \<Rightarrow> kernel \<Rightarrow> (u64 \<times> kernel) option" where
  "fork plat k =
    (case current_thread_id k of None \<Rightarrow> Some (ENOSYS, k) | Some tid \<Rightarrow>
     case get_thread k tid of None \<Rightarrow> Some (ENOSYS, k) | Some t \<Rightarrow>
     case get_process k (t_process_id t) of None \<Rightarrow> Some (ENOSYS, k) | Some parent \<Rightarrow>
     case p_page_table parent of None \<Rightarrow> Some (ENOSYS, k) | Some parent_pt \<Rightarrow>
       (case clone_user_page_table (plat_x86 plat) parent_pt (k_vm k) of
          (Stuck, v) \<Rightarrow> None
        | (Err _, v) \<Rightarrow> Some (ENOMEM, k\<lparr>k_vm := v\<rparr>)
        | (Ok child_pt, v) \<Rightarrow>
            let k = k\<lparr>k_vm := v\<rparr>
            in if t_syscall_user_rip t = 0 \<or> t_syscall_user_rsp t = 0 then Some (ENOSYS, destroy_page_table plat child_pt k)
               else Some (fork_into plat t parent child_pt k)))"

definition exit :: "platform \<Rightarrow> u64 \<Rightarrow> kernel \<Rightarrow> kernel option" where
  "exit plat exit_code k = exit_current_task plat exit_code k"

definition ECHILD :: u64 where "ECHILD = errno 10"
definition ETIMEDOUT :: u64 where "ETIMEDOUT = errno 110"
definition WNOHANG :: u64 where "WNOHANG = 1"

definition reap_zombie_child_process ::
  "platform \<Rightarrow> process_id \<Rightarrow> process_id option \<Rightarrow> kernel \<Rightarrow> (process_id \<times> u64) option \<times> kernel" where
  "reap_zombie_child_process plat parent target k =
    (case reap_zombie_child (k_procs k) parent target of
       (None, t) \<Rightarrow> (None, k\<lparr>k_procs := t\<rparr>)
     | (Some (pid, exit_code, page_table), t) \<Rightarrow>
         let k1 = (case get_process k pid of Some p \<Rightarrow> drop_process p (k\<lparr>k_procs := t\<rparr>) | None \<Rightarrow> k\<lparr>k_procs := t\<rparr>);
             k2 = (case page_table of Some pt \<Rightarrow> destroy_page_table plat pt k1 | None \<Rightarrow> k1)
         in (Some (pid, exit_code), k2))"

definition wait_target :: "u64 \<Rightarrow> process_id option" where
  "wait_target pid = (if sint pid = -1 then None else Some pid)"

definition wait_start :: "platform \<Rightarrow> u64 \<Rightarrow> u64 \<Rightarrow> u64 \<Rightarrow> kernel \<Rightarrow> process_id sysres" where
  "wait_start plat pid status_ptr options k =
    (if options AND NOT WNOHANG \<noteq> 0 then Inl EINVAL
     else if sint pid < -1 \<or> sint pid = 0 then Inl EINVAL
     else if status_ptr \<noteq> 0 \<and> \<not> validate_user_ptr plat k status_ptr 4 then Inl EFAULT
     else case current_pid k of None \<Rightarrow> Inl ECHILD | Some current \<Rightarrow> Inr current)"

definition exit_status :: "u64 \<Rightarrow> u32" where
  "exit_status exit_code = ucast (push_bit 8 (exit_code AND 0xff))"

definition wait_turn :: "platform \<Rightarrow> process_id \<Rightarrow> u64 \<Rightarrow> u64 \<Rightarrow> u64 \<Rightarrow> kernel \<Rightarrow> u64 turn \<times> kernel" where
  "wait_turn plat parent pid status_ptr options k =
    (case reap_zombie_child_process plat parent (wait_target pid) k of
       (Some (reaped, exit_code), k) \<Rightarrow>
         if status_ptr \<noteq> 0 then
           (case write_user_u32 plat status_ptr (exit_status exit_code) k of
              (Inl _, k) \<Rightarrow> (Returned EFAULT, k)
            | (Inr _, k) \<Rightarrow> (Returned reaped, k))
         else (Returned reaped, k)
     | (None, k) \<Rightarrow>
         if \<not> has_child (k_procs k) parent (wait_target pid) then (Returned ECHILD, k)
         else if options AND WNOHANG \<noteq> 0 then (Returned 0, k)
         else (Waiting, yield_now plat k))"

section \<open>Futexes\<close>

definition futex_wait_start :: "platform \<Rightarrow> u64 \<Rightarrow> u64 \<Rightarrow> u64 \<Rightarrow> kernel \<Rightarrow> (thread_id \<times> u64) sysres \<times> kernel" where
  "futex_wait_start plat uaddr val timeout k =
    (if uaddr = 0 then (Inl EFAULT, k)
     else case current_thread_id k of
         None \<Rightarrow> (Inl ENOSYS, k)
       | Some tid \<Rightarrow>
           if \<not> validate_user_ptr plat k uaddr 4 then (Inl EFAULT, k)
           else let wake_tick = (if timeout = 0 then NO_TIMEOUT_WAKE_TICK else saturating_add (k_ticks k) timeout);
                    k = modify_thread tid (set_futex_timed_out False) k
                in case read_user_u32 plat k uaddr of
                     Inl _ \<Rightarrow> (Inl EFAULT, k)
                   | Inr current_val \<Rightarrow>
                       if current_val \<noteq> ucast val then (Inl EAGAIN, k)
                       else case register_futex_waiter tid uaddr wake_tick (k_futex k) of
                           (False, q) \<Rightarrow> (Inl EAGAIN, k\<lparr>k_futex := q\<rparr>)
                         | (True, q) \<Rightarrow> (Inr (tid, wake_tick), yield_now plat (sleep_thread tid (k\<lparr>k_futex := q\<rparr>))))"

definition take_timed_out :: "thread_id \<Rightarrow> kernel \<Rightarrow> bool \<times> kernel" where
  "take_timed_out tid k =
    (case get_thread k tid of
       None \<Rightarrow> (False, k)
     | Some t \<Rightarrow> (fst (take_futex_timed_out t), modify_thread tid (\<lambda>t. snd (take_futex_timed_out t)) k))"

definition futex_wait_turn :: "platform \<Rightarrow> thread_id \<Rightarrow> u64 \<Rightarrow> u64 \<Rightarrow> kernel \<Rightarrow> u64 turn \<times> kernel" where
  "futex_wait_turn plat tid uaddr wake_tick k =
    (case take_timed_out tid k of
       (True, k) \<Rightarrow> (Returned ETIMEDOUT, k)
     | (False, k) \<Rightarrow>
         if \<not> futex_waiter_exists (k_futex k) tid uaddr then (Returned SUCCESS, k)
         else if wake_tick \<noteq> NO_TIMEOUT_WAKE_TICK \<and> k_ticks k \<ge> wake_tick then
           (case remove_futex_waiter_by_tid tid (k_futex k) of
              (True, q) \<Rightarrow> (Returned ETIMEDOUT, modify_thread tid (set_futex_timed_out False) (k\<lparr>k_futex := q\<rparr>))
            | (False, q) \<Rightarrow>
                (case take_timed_out tid (k\<lparr>k_futex := q\<rparr>) of
                   (True, k) \<Rightarrow> (Returned ETIMEDOUT, k)
                 | (False, k) \<Rightarrow> (Returned SUCCESS, k)))
         else (Waiting, yield_now plat k))"

definition futex_wake :: "platform \<Rightarrow> u64 \<Rightarrow> u64 \<Rightarrow> kernel \<Rightarrow> u64 \<times> kernel" where
  "futex_wake plat uaddr val k =
    (if uaddr = 0 then (EFAULT, k)
     else if \<not> validate_user_ptr plat k uaddr 4 then (EFAULT, k)
     else let max_wake = min (unat val) MAX_FUTEX_WAITERS
          in if max_wake = 0 then (0, k)
             else let (q, woken) = take_futex_waiters max_wake uaddr (k_futex k) []
                  in (of_nat (length woken),
                      fold (\<lambda>tid. wake_thread tid \<circ> modify_thread tid (set_futex_timed_out False)) woken (k\<lparr>k_futex := q\<rparr>)))"

text \<open>The call: \<^emph>\<open>FUTEX_PRIVATE_FLAG\<close> is dropped, and a wait that is queued goes on with its turns.\<close>

definition futex :: "platform \<Rightarrow> u64 \<Rightarrow> u32 \<Rightarrow> u64 \<Rightarrow> u64 \<Rightarrow> kernel \<Rightarrow> u64 turn \<times> kernel" where
  "futex plat uaddr op val timeout k =
    (let op_base = op AND NOT 128
     in if op_base = 0 then
          (case futex_wait_start plat uaddr val timeout k of (Inl e, k) \<Rightarrow> (Returned e, k) | (Inr _, k) \<Rightarrow> (Waiting, k))
        else if op_base = 1 then (case futex_wake plat uaddr val k of (r, k) \<Rightarrow> (Returned r, k))
        else (Returned ENOSYS, k))"

section \<open>Threads, time and randomness\<close>

definition ARCH_SET_FS :: u64 where "ARCH_SET_FS = 0x1002"
definition ARCH_GET_FS :: u64 where "ARCH_GET_FS = 0x1003"

definition copy_guard_value :: "platform \<Rightarrow> u64 \<Rightarrow> u64 \<Rightarrow> u64 \<Rightarrow> kernel \<Rightarrow> kernel" where
  "copy_guard_value plat old_fs addr off k =
    (let src = saturating_add old_fs off; dst = saturating_add addr off
     in if validate_user_ptr plat k src 8 \<and> validate_user_ptr plat k dst 8 then
          (case read_user_u64 plat k src of Inr val \<Rightarrow> snd (write_user_u64 plat dst val k) | Inl _ \<Rightarrow> k)
        else k)"

definition arch_prctl :: "platform \<Rightarrow> u64 \<Rightarrow> u64 \<Rightarrow> kernel \<Rightarrow> u64 \<times> kernel" where
  "arch_prctl plat code addr k =
    (if code = ARCH_SET_FS then
       if addr > USER_SPACE_END then (EINVAL, k)
       else let old_fs = (case current_thread_id k of
                   Some tid \<Rightarrow> (case get_thread k tid of Some t \<Rightarrow> t_fs_base t | None \<Rightarrow> 0)
                 | None \<Rightarrow> k_fs_base k);
                k1 = (if old_fs \<ge> 0x1000 \<and> addr \<ge> 0x1000 \<and> old_fs \<noteq> addr
                      then copy_guard_value plat old_fs addr 0x30 (copy_guard_value plat old_fs addr 0x28 k) else k);
                k2 = k1\<lparr>k_fs_base := addr\<rparr>
            in (SUCCESS, case current_thread_id k2 of Some tid \<Rightarrow> modify_thread tid (\<lambda>t. t\<lparr>t_fs_base := addr\<rparr>) k2 | None \<Rightarrow> k2)
     else if code = ARCH_GET_FS then
       if addr = 0 then (EFAULT, k)
       else if \<not> validate_user_ptr plat k addr 8 then (EFAULT, k)
       else case write_user_u64 plat addr (k_fs_base k) k of (Inr _, k) \<Rightarrow> (SUCCESS, k) | (Inl e, k) \<Rightarrow> (e, k)
     else (EINVAL, k))"

definition clock_gettime :: "platform \<Rightarrow> u64 \<Rightarrow> u64 \<Rightarrow> kernel \<Rightarrow> u64 \<times> kernel" where
  "clock_gettime plat clk_id ts_ptr k =
    (if ts_ptr = 0 then (EINVAL, k)
     else if \<not> validate_user_ptr plat k ts_ptr 16 then (EFAULT, k)
     else let sec = k_ticks k div 100; nsec = (k_ticks k mod 100) * 10000000
          in if clk_id \<le> 3 then
               (case copy_to_user plat ts_ptr (to_le_bytes sec @ to_le_bytes nsec) k of
                  (Inr _, k) \<Rightarrow> (SUCCESS, k)
                | (Inl e, k) \<Rightarrow> (e, k))
             else (EINVAL, k))"

definition TICK_MS :: u64 where "TICK_MS = 10"

text \<open>The first part of \<^emph>\<open>sleep_until\<close>: done at once, or registered and asleep until the tick.\<close>

definition sleep_until_start :: "u64 \<Rightarrow> kernel \<Rightarrow> u64 turn \<times> kernel" where
  "sleep_until_start ticks k =
    (if k_ticks k \<ge> ticks then (Returned SUCCESS, k)
     else case current_thread_id k of
         None \<Rightarrow> (Returned EINVAL, k)
       | Some tid \<Rightarrow> (case register_sleep_entry tid ticks (k_sleepers k) of
             (False, q) \<Rightarrow> (Returned EAGAIN, k\<lparr>k_sleepers := q\<rparr>)
           | (True, q) \<Rightarrow> (Waiting, sleep_thread tid (k\<lparr>k_sleepers := q\<rparr>))))"

definition sleep_until_turn :: "platform \<Rightarrow> u64 \<Rightarrow> kernel \<Rightarrow> u64 turn \<times> kernel" where
  "sleep_until_turn plat ticks k = (if k_ticks k < ticks then (Waiting, yield_now plat k) else (Returned SUCCESS, k))"

definition sleep_target :: "u64 \<Rightarrow> kernel \<Rightarrow> u64" where
  "sleep_target milliseconds k =
    saturating_add (k_ticks k) (case checked_add milliseconds (TICK_MS - 1) of Some v \<Rightarrow> v div TICK_MS | None \<Rightarrow> - 1)"

definition sleep :: "platform \<Rightarrow> u64 \<Rightarrow> kernel \<Rightarrow> u64 turn \<times> kernel" where
  "sleep plat milliseconds k =
    (if milliseconds = 0 then (Returned SUCCESS, yield_now plat k)
     else case sleep_until_start (sleep_target milliseconds k) k of
         (Returned _, k) \<Rightarrow> (Returned SUCCESS, k)
       | (Waiting, k) \<Rightarrow> (Waiting, k))"

text \<open>Two calls that only report success.\<close>

definition sigaltstack :: "u64 \<Rightarrow> u64 \<Rightarrow> u64" where "sigaltstack ss old_ss = SUCCESS"
definition set_robust_list :: "u64 \<Rightarrow> u64 \<Rightarrow> u64" where "set_robust_list head len = SUCCESS"

fun random_bytes :: "nat \<Rightarrow> u64 \<Rightarrow> bytes" where
  "random_bytes 0 st = []"
| "random_bytes (Suc n) st = (let st = st * 6364136223846793005 + 1442695040888963407 in ucast (drop_bit 24 st) # random_bytes n st)"

definition getrandom :: "platform \<Rightarrow> u64 \<Rightarrow> u64 \<Rightarrow> kernel \<Rightarrow> u64 \<times> kernel" where
  "getrandom plat buf_ptr len k =
    (if len = 0 then (0, k)
     else if buf_ptr = 0 \<or> \<not> validate_user_ptr plat k buf_ptr len then (EFAULT, k)
     else let seed = k_ticks k XOR word_rotl 17 buf_ptr XOR word_rotl 7 len XOR 0x9E3779B97F4A7C15
          in case copy_to_user plat buf_ptr (random_bytes (unat len) seed) k of
               (Inr _, k) \<Rightarrow> (len, k)
             | (Inl e, k) \<Rightarrow> (e, k))"

section \<open>Looking at processes\<close>

definition find_process_by_name_call :: "platform \<Rightarrow> u64 \<Rightarrow> u64 \<Rightarrow> kernel \<Rightarrow> u64" where
  "find_process_by_name_call plat name_ptr len k =
    (if name_ptr = 0 \<or> len = 0 \<or> len > 64 then 0
     else case copy_from_user plat k name_ptr (unat len) of
         Inl _ \<Rightarrow> 0
       | Inr name \<Rightarrow>
           if \<not> utf8_valid name then 0
           else case find_process_id_by_name (k_procs k) name of
               None \<Rightarrow> 0
             | Some pid \<Rightarrow>
                 (case find (\<lambda>t. t_process_id t = pid \<and> t_state t \<noteq> TTerminated) (thread_queue_iter (k_threads k)) of
                    Some t \<Rightarrow> t_id t
                  | None \<Rightarrow> 0))"

text \<open>
  \<^emph>\<open>list_processes\<close> copies every record to the user while it holds the lock of the process table. The copy takes that lock to find the page table of the
  current process, so it never returns when there is a current process; otherwise it fails, and no record is counted.
\<close>

definition PROCESS_RECORD_SIZE :: nat where "PROCESS_RECORD_SIZE = 88"

definition copy_to_user_with_table_locked :: "kernel \<Rightarrow> bytes \<Rightarrow> unit sysres option" where
  "copy_to_user_with_table_locked k src =
    (if src = [] then Some (Inr ())
     else case current_pid k of None \<Rightarrow> Some (Inl EFAULT) | Some _ \<Rightarrow> None)"

definition process_record :: "process \<Rightarrow> bytes" where
  "process_record p =
    (let state_num = (case p_state p of PRunning \<Rightarrow> 1 | PSleeping \<Rightarrow> 3 | PZombie \<Rightarrow> 4 | PTerminated \<Rightarrow> 4) :: u64;
         name = take 64 (process_name p)
     in to_le_bytes (p_id p) @ to_le_bytes (p_id p) @ to_le_bytes state_num @ replicate 8 0
        @ overwrite_front (replicate 56 0) name)"

fun list_records :: "kernel \<Rightarrow> nat \<Rightarrow> process list \<Rightarrow> nat \<Rightarrow> nat option" where
  "list_records k max_entries [] written = Some written"
| "list_records k max_entries (p # ps) written =
    (if written \<ge> max_entries then list_records k max_entries ps written
     else case copy_to_user_with_table_locked k (process_record p) of
         None \<Rightarrow> None
       | Some (Inl _) \<Rightarrow> list_records k max_entries ps written
       | Some (Inr _) \<Rightarrow> list_records k max_entries ps (written + 1))"

definition list_processes :: "u64 \<Rightarrow> u64 \<Rightarrow> kernel \<Rightarrow> u64 option" where
  "list_processes buf_ptr buf_len k =
    (if buf_ptr = 0 then Some 0
     else let max_entries = unat buf_len div PROCESS_RECORD_SIZE
          in if max_entries = 0 then Some 0
             else map_option of_nat (list_records k max_entries (process_table_iter (k_procs k)) 0))"

section \<open>Exit and wait\<close>

lemma drop_process_frame [simp]:
  "k_procs (drop_process p k) = k_procs k" "k_threads (drop_process p k) = k_threads k" "k_vm (drop_process p k) = k_vm k"
  "get_process (drop_process p k) = get_process k"
  by (simp_all add: drop_process_def get_process_def fun_eq_iff)

lemma destroy_page_table_frame [simp]:
  "k_procs (destroy_page_table plat pt k) = k_procs k" "k_threads (destroy_page_table plat pt k) = k_threads k"
  "get_process (destroy_page_table plat pt k) = get_process k" "get_thread (destroy_page_table plat pt k) = get_thread k"
  by (simp_all add: destroy_page_table_def get_process_def get_thread_def fun_eq_iff)

lemma reap_target:
  assumes wf: "kernel_wf k" and p: "get_process k pid = Some p" "p_parent_id p = Some parent" "p_state p = PZombie" "p_exit_code p = Some code"
  obtains k' where "reap_zombie_child_process plat parent (Some pid) k = (Some (pid, code), k')"
    "get_process k' = (get_process k)(pid := None)"
proof -
  have t: "process_table_wf (k_procs k)" "process_table_get (k_procs k) pid = Some p"
    using wf p(1) by (simp_all add: kernel_wf_def get_process_def)
  have id: "p_id p = pid" by (rule process_ids.get_key[OF t(2)])
  have m: "is_child_match p parent (Some pid)" using p(2) id by (simp add: is_child_match_def)
  obtain r t' where r: "reap_zombie_child (k_procs k) parent (Some pid) = (r, t')" by fastforce
  have "r \<noteq> None"
  proof
    assume "r = None"
    from reap_zombie_child_None(2)[OF t(1) r[unfolded this] t(2) m] p(3) show False by simp
  qed
  then obtain pid' c pt where rs: "r = Some (pid', c, pt)" by auto
  note s = reap_zombie_child_Some[OF t(1) r[unfolded rs]]
  from s(1) obtain q where q: "process_table_get (k_procs k) pid' = Some q" "is_child_match q parent (Some pid)"
    "c = (case p_exit_code q of Some c \<Rightarrow> c | None \<Rightarrow> 0)" by blast
  have "pid' = pid" using q(2) process_ids.get_key[OF q(1)] by (auto simp: is_child_match_def split: if_splits)
  then have e: "pid' = pid" "c = code" using q t(2) p(4) by auto
  have "reap_zombie_child_process plat parent (Some pid) k = (Some (pid, code),
      let k1 = drop_process p (k\<lparr>k_procs := t'\<rparr>) in case pt of Some pt \<Rightarrow> destroy_page_table plat pt k1 | None \<Rightarrow> k1)"
    using r rs e p(1) by (simp add: reap_zombie_child_process_def Let_def split: option.split)
  moreover have "get_process (let k1 = drop_process p (k\<lparr>k_procs := t'\<rparr>) in case pt of Some pt \<Rightarrow> destroy_page_table plat pt k1 | None \<Rightarrow> k1)
      = (get_process k)(pid := None)"
    using s(3) e(1) by (auto simp: Let_def get_process_def fun_eq_iff split: option.split)
  ultimately show ?thesis using that by blast
qed

text \<open>
  C8. The exit code reaches the parent: when the last thread of a process calls \<^emph>\<open>exit\<close>, the call does not fail, the thread is gone from the table and
  the processor has gone to another ready thread or halted. In any later state where the process table is as it was left, a \<^emph>\<open>wait\<close>
  of the parent for this child returns at once with its process id, reads the exit code and removes the child, and only it.
\<close>

theorem exit_then_wait:
  assumes "sched_ok plat k" "current_thread_id k = Some tid" "get_thread k tid = Some t" "t_process_id t = pid"
    "\<not> has_other_live_threads k pid tid" "get_process k pid = Some p" "p_parent_id p = Some parent" "0 < sint pid"
  shows "\<exists>k1. exit plat code k = Some k1 \<and> get_thread k1 tid = None \<and> kernel_wf k1 \<and> (k_halted k1 \<or> k_current k1 \<noteq> tid \<and> sched_ok plat k1)
    \<and> (\<forall>k2. kernel_wf k2 \<and> k_procs k2 = k_procs k1 \<longrightarrow>
        (\<exists>k3. reap_zombie_child_process plat parent (Some pid) k2 = (Some (pid, code), k3)
          \<and> wait_turn plat parent pid 0 options k2 = (Returned pid, k3) \<and> get_process k3 = (get_process k2)(pid := None)))"
proof -
  obtain k1 t' where k1: "exit_current_task plat code k = Some k1" "get_thread k tid = Some t'" "get_thread k1 tid = None" "kernel_wf k1"
    "k_halted k1 \<or> k_current k1 \<noteq> tid \<and> sched_ok plat k1"
    "process_rest k1 = (if has_other_live_threads k (t_process_id t') tid then process_rest k
      else (process_rest k)(t_process_id t' := map_option (mark_exited code) (process_rest k (t_process_id t'))))"
    by (rule exit_current_task_ok[OF assms(1,2), of code])
  have t: "t' = t" using k1(2) assms(3) by simp
  have "process_rest k1 pid = Some (mark_exited code (modify_signals (\<lambda>_. signal_state_new) p))"
    using k1(6) assms(4-6) unfolding t by (simp add: process_rest_def)
  then obtain p' where p': "get_process k1 pid = Some p'" "p_state p' = PZombie" "p_exit_code p' = Some code" "p_parent_id p' = Some parent"
    by (rule process_rest_Some) (use assms(7) in \<open>simp add: mark_exited_def\<close>)
  have "\<exists>k3. reap_zombie_child_process plat parent (Some pid) k2 = (Some (pid, code), k3)
      \<and> wait_turn plat parent pid 0 options k2 = (Returned pid, k3) \<and> get_process k3 = (get_process k2)(pid := None)"
    if k2: "kernel_wf k2" "k_procs k2 = k_procs k1" for k2
  proof -
    have g: "get_process k2 pid = Some p'" using p'(1) get_process_procs[OF k2(2)] by simp
    obtain k3 where k3: "reap_zombie_child_process plat parent (Some pid) k2 = (Some (pid, code), k3)"
      "get_process k3 = (get_process k2)(pid := None)"
      by (rule reap_target[OF k2(1) g p'(4,2,3)])
    moreover have "wait_target pid = Some pid" using assms(8) by (simp add: wait_target_def)
    ultimately show ?thesis by (auto simp: wait_turn_def)
  qed
  then show ?thesis using k1(1,3,4,5) by (auto simp: exit_def)
qed

definition family_kernel :: kernel where
  "family_kernel = modify_process 1 (\<lambda>p. p\<lparr>p_parent_id := Some 2\<rparr>) sample_kernel"

theorem exit_then_wait_witness:
  "\<exists>k1 k3. exit boot_platform 7 family_kernel = Some k1 \<and> get_thread k1 1 = None
    \<and> wait_turn boot_platform 2 1 0 0 k1 = (Returned 1, k3)"
proof -
  have ok: "sched_ok boot_platform family_kernel"
    unfolding family_kernel_def by (rule modify_process_ok[OF sample_kernel_ok(1)]) simp
  have g: "get_thread family_kernel = [1 \<mapsto> set_state TRunning (boot_thread 1), 2 \<mapsto> boot_thread 2]" "k_current family_kernel = 1"
    by (simp_all add: family_kernel_def sample_threads)
  have p: "get_process family_kernel 1 = Some ((sample_process 1)\<lparr>p_parent_id := Some 2\<rparr>)"
    using modify_process_spec(2)[OF sample_kernel_ok(2), of "\<lambda>p. p\<lparr>p_parent_id := Some 2\<rparr>" 1]
    by (simp add: family_kernel_def) (simp add: get_process_def sample_procs_get)
  have o: "\<not> has_other_live_threads family_kernel 1 1"
    using has_other_live_threads_get[OF sched_ok_wf(1)[OF ok]] g by auto
  from exit_then_wait[OF ok, of 1 "set_state TRunning (boot_thread 1)" 1 "(sample_process 1)\<lparr>p_parent_id := Some 2\<rparr>" 2 7 0] g o p
  show ?thesis by (auto simp: current_thread_id_def)
qed

section \<open>Waiting on a futex\<close>

lemma yield_now_futex:
  assumes "sched_ok plat k"
  shows "k_futex (yield_now plat k) = k_futex k"
proof -
  have "k_futex k1 = k_futex k" if "schedule k = (r, k1)" for r k1
    using that by (auto simp: schedule_preempted preempted_def split: option.splits)
  moreover have "k_futex (switch_into plat n k1) = k_futex k1" for n k1
    by (auto simp: switch_into_def set_current_thread_def split: option.split)
  ultimately show ?thesis
    by (auto simp: yield_now_switches[OF assms] yield_with_def Let_def split: option.split prod.split)
qed

lemma futex_ok:
  assumes "sched_ok plat k" "futex_queue_wf q"
  shows "sched_ok plat (k\<lparr>k_futex := q\<rparr>)"
  by (rule sched_ok_cong[OF assms(1)]) (use sched_ok_wf(1)[OF assms(1)] assms(2) in \<open>simp_all add: kernel_wf_def\<close>)

lemma futex_wait_start_sleeps:
  assumes ok: "sched_ok plat k" and s: "futex_wait_start plat uaddr val timeout k = (Inr (tid, wake_tick), k1)"
  shows "sched_ok plat k1" "lookup fw_tid (k_futex k1) tid = Some \<lparr>fw_tid = tid, fw_uaddr = uaddr, fw_wake_tick = wake_tick\<rparr>"
    "\<exists>t. get_thread k1 tid = Some t \<and> t_state t = TSleeping \<and> \<not> t_futex_timed_out t" "uaddr \<noteq> 0" "tid \<noteq> 0"
proof -
  let ?k = "modify_thread tid (set_futex_timed_out False) k"
  obtain q where q: "register_futex_waiter tid uaddr wake_tick (k_futex ?k) = (True, q)"
    "k1 = yield_now plat (sleep_thread tid (?k\<lparr>k_futex := q\<rparr>))" and cur: "current_thread_id k = Some tid" and ua: "uaddr \<noteq> 0"
    using s by (auto simp: futex_wait_start_def Let_def split: if_splits option.splits sum.splits prod.splits bool.splits)
  then show "uaddr \<noteq> 0" by simp
  show t0: "tid \<noteq> 0" using cur by (auto simp: current_thread_id_def split: if_splits)
  have okk: "sched_ok plat ?k" by (rule modify_thread_ok[OF ok]) (simp add: quiet_def set_futex_timed_out_def)
  have "futex_queue_wf (k_futex ?k)" using sched_ok_wf(1)[OF okk] by (simp add: kernel_wf_def)
  note r = register_futex_waiter_correct[OF this q(1)]
  note okq = futex_ok[OF okk r(1)]
  let ?s = "sleep_thread tid (?k\<lparr>k_futex := q\<rparr>)"
  have oks: "sched_ok plat ?s" unfolding sleep_thread_def by (rule modify_thread_ok[OF okq]) simp
  have "k_futex k1 = q" using yield_now_futex[OF oks] by (simp add: q(2) sleep_thread_def)
  then show "lookup fw_tid (k_futex k1) tid = Some \<lparr>fw_tid = tid, fw_uaddr = uaddr, fw_wake_tick = wake_tick\<rparr>" using r(2) by simp
  obtain t where t: "get_thread k tid = Some t" using cur t0 sched_ok_wf(2)[OF ok]
    by (auto simp: running_is_current_def current_thread_id_def split: if_splits)
  have "get_thread ?k tid = Some (set_futex_timed_out False t)" using t sched_ok_wf(1)[OF ok] by (simp add: get_modify_thread kernel_wf_def)
  moreover have "get_thread (?k\<lparr>k_futex := q\<rparr>) = get_thread ?k" by (simp add: get_thread_def fun_eq_iff)
  ultimately have g: "get_thread ?s tid = Some (set_state TSleeping (set_futex_timed_out False t))"
    using sched_ok_wf(1)[OF okq] get_modify_thread(2)[of "?k\<lparr>k_futex := q\<rparr>" "set_state TSleeping" tid] by (simp add: sleep_thread_def kernel_wf_def)
  from sleeper_stays[OF oks g] show "\<exists>t. get_thread k1 tid = Some t \<and> t_state t = TSleeping \<and> \<not> t_futex_timed_out t"
    by (simp add: q(2) set_futex_timed_out_def set_state_def)
  show "sched_ok plat k1" unfolding q(2) by (rule yield_now_ok[OF oks])
qed

lemma wake_each:
  assumes "kernel_wf k" "distinct tids"
  shows "get_thread (fold (\<lambda>tid. wake_thread tid \<circ> modify_thread tid (set_futex_timed_out b)) tids k) =
    (\<lambda>u. if u \<in> set tids then map_option (\<lambda>t. wake_transition (set_futex_timed_out b t)) (get_thread k u) else get_thread k u)"
    "kernel_wf (fold (\<lambda>tid. wake_thread tid \<circ> modify_thread tid (set_futex_timed_out b)) tids k)"
    "k_futex (fold (\<lambda>tid. wake_thread tid \<circ> modify_thread tid (set_futex_timed_out b)) tids k) = k_futex k"
proof -
  let ?f = "\<lambda>tid. wake_thread tid \<circ> modify_thread tid (set_futex_timed_out b)"
  have "get_thread (fold ?f tids k) =
      (\<lambda>u. if u \<in> set tids then map_option (\<lambda>t. wake_transition (set_futex_timed_out b t)) (get_thread k u) else get_thread k u)
    \<and> kernel_wf (fold ?f tids k) \<and> k_futex (fold ?f tids k) = k_futex k"
    using assms
  proof (induction tids arbitrary: k)
    case (Cons tid tids)
    let ?k = "modify_thread tid (set_futex_timed_out b) k"
    have wf: "kernel_wf ?k" using Cons.prems(1) by (simp add: modify_thread_wf)
    have w: "kernel_wf (wake_thread tid ?k)" using wf by (simp add: wake_thread_def modify_thread_wf)
    have g: "get_thread (wake_thread tid ?k) = (get_thread k)(tid := map_option (\<lambda>t. wake_transition (set_futex_timed_out b t)) (get_thread k tid))"
      using Cons.prems(1) by (simp add: get_wake_thread[OF wf] get_modify_thread kernel_wf_def option.map_comp comp_def)
    from Cons.IH[OF w] Cons.prems(2) g show ?case by (auto simp: fun_eq_iff)
  qed simp
  then show "get_thread (fold ?f tids k) =
      (\<lambda>u. if u \<in> set tids then map_option (\<lambda>t. wake_transition (set_futex_timed_out b t)) (get_thread k u) else get_thread k u)"
    "kernel_wf (fold ?f tids k)" "k_futex (fold ?f tids k) = k_futex k" by simp_all
qed

lemma futex_scan_wakes:
  assumes wf: "futex_queue_wf q" and e: "lookup fw_tid q tid = Some e" "fw_uaddr e = uaddr"
    and n: "length (filter (\<lambda>e. fw_uaddr e = uaddr) (live q)) \<le> n" and t: "take_futex_waiters n uaddr q [] = (q', woken)"
  shows "tid \<in> set woken" "distinct woken" "\<not> futex_waiter_exists q' tid a" "futex_queue_wf q'"
proof -
  let ?w = "filter (\<lambda>e. fw_uaddr e = uaddr) (live q)"
  have kd: "keys_distinct fw_tid q" using wf by (simp add: futex_queue_wf_def)
  have rest: "length q' = length q" "keys_distinct fw_tid q'" "set (live q') = {e \<in> set (live q). fw_tid e \<notin> set woken}"
    using take_futex_waiters_rest[OF _ kd, of n uaddr "[]" q' woken] t by auto
  have w: "woken = map fw_tid ?w" using take_futex_waiters_woken[OF t] n by simp
  have "e \<in> set (live q)" "fw_tid e = tid" using e(1) lookup_Some_iff[OF kd] lookup_key[OF e(1)] by auto
  then show m: "tid \<in> set woken" using w e(2) by force
  have "distinct (map fw_tid (live q))" using kd by (simp add: keys_distinct_def)
  then show "distinct woken" unfolding w by (rule distinct_map_filter)
  show "\<not> futex_waiter_exists q' tid a" using rest(3) m by (auto simp: futex_waiter_exists_def)
  show "futex_queue_wf q'" using rest(1,2) wf by (simp add: futex_queue_wf_def)
qed


lemma valid_readable:
  assumes "user_memory plat k pt" "validate_user_ptr plat k ptr (of_nat n)" "0 < n" "n < 2 ^ 64"
  shows "\<exists>bs. copy_from_user plat k ptr n = Inr bs"
proof -
  from assms(1) obtain po where po: "x86_laws (plat_x86 plat)" "vm_phys_offset (k_vm k) = Some po" "unat po + 2 ^ 53 \<le> 2 ^ 64"
    "current_user_page_table k = Some pt" by (auto simp: user_memory_def)
  have "ptr \<noteq> 0" "is_user_range_mapped_in_table (plat_x86 plat) (k_vm k) pt ptr (of_nat n)"
    using assms(2) po(4) by (auto simp: validate_user_ptr_def split: if_splits option.splits)
  then show ?thesis using copy_from_user_spec[OF po(1-3) _ assms(3,4), of ptr pt] po(4) assms(3) by (simp add: copy_from_user_def)
qed

text \<open>The first thread of the sample kernel waits on a word of its memory.\<close>

lemma sample_futex_waits:
  obtains val k1 where "futex_wait_start boot_platform 0x1010 val 0 sample_kernel = (Inr (1, NO_TIMEOUT_WAKE_TICK), k1)"
    "validate_user_ptr boot_platform k1 0x1010 4" "kernel_wf k1"
proof -
  have pt: "current_user_page_table sample_kernel = Some 0x1000"
    by (rule sample_page_table[where t = "set_state TRunning (boot_thread 1)"]) (simp_all add: two_threads_started)
  have valid: "validate_user_ptr boot_platform k 0x1010 4" if "k_vm k = one_page_vm" "current_user_page_table k = Some 0x1000" for k
    using may_write_valid[OF sample_user_memory(1) sample_may_write, of k "0x1010" 4] that one_page_maps one_page_protected by simp
  let ?k = "modify_thread 1 (set_futex_timed_out False) sample_kernel"
  have wfk: "kernel_wf ?k" using sample_kernel_ok(2) by (simp add: modify_thread_wf)
  have g: "get_thread ?k = [1 \<mapsto> set_futex_timed_out False (set_state TRunning (boot_thread 1)), 2 \<mapsto> boot_thread 2]"
    using get_modify_thread(2)[of sample_kernel "set_futex_timed_out False" 1] sample_kernel_ok(2)
    by (simp add: kernel_wf_def sample_threads fun_upd_twist)
  have ptk: "current_user_page_table ?k = Some 0x1000"
    by (rule sample_page_table[where t = "set_futex_timed_out False (set_state TRunning (boot_thread 1))"])
      (simp_all add: g set_futex_timed_out_def)
  obtain bs where "copy_from_user boot_platform ?k 0x1010 4 = Inr bs"
    using valid_readable[OF sample_user_memory(1), of ?k "0x1010" 4] valid[of ?k] ptk one_page_maps one_page_protected by auto
  then obtain w where w: "read_user_u32 boot_platform ?k 0x1010 = Inr w" by (simp add: read_user_u32_def)
  have fq: "k_futex sample_kernel = futex_queue_new"
  proof -
    have "k_futex (snd (add_thread t k)) = k_futex k" for t k by (simp add: add_thread_def split: prod.split)
    then have "k_futex two_threads = futex_queue_new"
      by (simp add: two_threads_def init_scheduler_def kernel_initial_def)
    then show ?thesis by (auto simp: sample_kernel_def sample_started switch_into_def set_current_thread_def split: option.split)
  qed
  let ?q = "futex_queue_new[0 := Some \<lparr>fw_tid = 1, fw_uaddr = 0x1010, fw_wake_tick = NO_TIMEOUT_WAKE_TICK\<rparr>]"
  let ?s = "sleep_thread 1 (?k\<lparr>k_futex := ?q\<rparr>)"
  have uc: "ucast (ucast w :: u64) = w" by (auto simp: bit_eq_iff bit_simps dest: bit_imp_le_length)
  have st: "futex_wait_start boot_platform 0x1010 (ucast w) 0 sample_kernel = (Inr (1, NO_TIMEOUT_WAKE_TICK), yield_now boot_platform ?s)"
    using w valid[OF _ pt] fq uc by (simp add: futex_wait_start_def current_thread_id_def register_in_new Let_def)
  have wq: "futex_queue_wf ?q" by (rule register_futex_waiter_correct(1)[OF futex_queue_new_wf register_in_new(2)])
  have okk: "sched_ok boot_platform ?k" by (rule modify_thread_ok[OF sample_kernel_ok(1)]) (simp add: quiet_def set_futex_timed_out_def)
  have oks: "sched_ok boot_platform ?s" unfolding sleep_thread_def by (rule modify_thread_ok[OF futex_ok[OF okk wq]]) simp
  have "get_thread (?k\<lparr>k_futex := ?q\<rparr>) = get_thread ?k" by (simp add: get_thread_def fun_eq_iff)
  then have gs: "get_thread ?s = [1 \<mapsto> set_state TSleeping (set_futex_timed_out False (set_state TRunning (boot_thread 1))), 2 \<mapsto> boot_thread 2]"
    using get_modify_thread(2)[of "?k\<lparr>k_futex := ?q\<rparr>" "set_state TSleeping" 1] sched_ok_wf(1)[OF futex_ok[OF okk wq]] g
    by (simp add: sleep_thread_def kernel_wf_def fun_upd_twist)
  have y: "k_vm (yield_now boot_platform ?s) = one_page_vm" "current_user_page_table (yield_now boot_platform ?s) = Some 0x1000"
    by (rule sample_gives_way[OF oks gs];
        simp add: sleep_thread_def modify_thread_def two_threads_started sample_cr3)+
  show ?thesis using that[OF st valid[OF y]] sched_ok_wf(1)[OF yield_now_ok[OF oks]] by blast
qed


section \<open>Listing processes\<close>


end
