(* ===== verification/Mappings.thy ===== *)
theory Mappings
  imports Process_Calls
begin

text \<open>
  Anonymous memory: what \<^emph>\<open>mmap\<close> without an address gives out, from the model of \<^verbatim>\<open>src/src/core/syscall/process.rs\<close>.
\<close>

section \<open>Anonymous memory\<close>

lemma page_align_up_Some:
  assumes "page_align_up a = Some b"
  shows "unat a \<le> unat b" "unat b < unat a + 4096" "unat b mod 4096 = 0"
proof -
  obtain c where c: "checked_add a 0xfff = Some c" "b = page_base c" using assms by (auto simp: page_align_up_def)
  have u: "unat c = unat a + 4095" using checked_add_Some(1)[OF c(1)] by simp
  show "unat a \<le> unat b" "unat b < unat a + 4096" using unat_page_base_le[of c] u c(2) by simp_all
  show "unat b mod 4096 = 0" using c(2) by simp
qed

lemma is_user_range_bytes:
  assumes "is_user_range a len" "len \<noteq> 0"
  shows "unat a + unat len \<le> 2 ^ 47"
proof -
  have "saturating_sub len 1 = len - 1" by (rule saturating_sub_pos[OF assms(2)])
  then obtain e where e: "checked_add a (len - 1) = Some e" "e \<le> USER_SPACE_END"
    using assms by (auto simp: is_user_range_def split: option.splits)
  have "unat e = unat a + (unat len - 1)" using checked_add_Some(1)[OF e(1)] unat_minus_one[OF assms(2)] by simp
  moreover have "0 < unat len" using assms(2) by (simp add: unat_gt_0)
  ultimately show ?thesis using e(2) by (simp add: word_le_nat_alt USER_SPACE_END_def)
qed

lemma errno_not_user: "e \<in> {EINVAL, ENOMEM, ENOSYS} \<Longrightarrow> \<not> e \<le> USER_SPACE_END"
  by (auto simp: errno_defs USER_SPACE_END_def)

lemma slot_modify_cong: "(\<And>v. P v \<Longrightarrow> f v = g v) \<Longrightarrow> slot_modify P f xs = slot_modify P g xs"
  by (induction P f xs rule: slot_modify.induct) auto

lemma modify_process_const:
  assumes "kernel_wf k" "get_process k pid = Some p" "p_id p' = p_id p"
  shows "get_process (modify_process pid (\<lambda>_. p') k) pid = Some p'" "kernel_wf (modify_process pid (\<lambda>_. p') k)"
proof -
  let ?f = "\<lambda>q. if p_id q = pid then p' else q"
  have i: "p_id p = pid" using assms(2) process_ids.get_key unfolding get_process_def by blast
  have e: "modify_process pid (\<lambda>_. p') k = modify_process pid ?f k"
    unfolding modify_process_def process_table_modify_def
    using slot_modify_cong[of "\<lambda>q. p_id q = pid" "\<lambda>_. p'" ?f "pt_processes (k_procs k)"] by simp
  have k: "p_id (?f q) = p_id q" for q using i assms(3) by simp
  from modify_process_spec[OF assms(1), of ?f pid] k assms(2) i
  show "get_process (modify_process pid (\<lambda>_. p') k) pid = Some p'" "kernel_wf (modify_process pid (\<lambda>_. p') k)"
    unfolding e by simp_all
qed

lemma start_heap_id [simp]: "p_id (start_heap b p) = p_id p" "p_heap_start p \<noteq> 0 \<Longrightarrow> start_heap b p = p"
  by (simp_all add: start_heap_def)

lemma mmap_process_result:
  assumes "mmap_process X 0 sz p v = Some (r, p', v')"
  shows "case r of Inl e \<Rightarrow> e \<in> {EINVAL, ENOMEM} | Inr a \<Rightarrow> page_align_up (p_heap_end p) = Some a \<and> is_user_range a sz \<and>
    (\<exists>h. checked_add a sz = Some h \<and> p' = p\<lparr>p_heap_end := h\<rparr>)"
  using assms unfolding mmap_process_def by (auto split: option.splits if_splits kres.splits prod.splits)

lemma mmap_process_success:
  assumes "mmap_process X 0 sz p v = Some (Inr a, p', v')" "sz \<noteq> 0"
  shows "unat (p_heap_end p) \<le> unat a" "unat a + unat sz \<le> 2 ^ 47" "unat a mod 4096 = 0" "unat (p_heap_end p') = unat a + unat sz"
    "p_id p' = p_id p" "p_heap_start p' = p_heap_start p"
proof -
  obtain h where r: "page_align_up (p_heap_end p) = Some a" "is_user_range a sz" "checked_add a sz = Some h" "p' = p\<lparr>p_heap_end := h\<rparr>"
    using mmap_process_result[OF assms(1)] by auto
  show "unat (p_heap_end p) \<le> unat a" "unat a mod 4096 = 0" using page_align_up_Some[OF r(1)] by simp_all
  show "unat a + unat sz \<le> 2 ^ 47" by (rule is_user_range_bytes[OF r(2) assms(2)])
  show "unat (p_heap_end p') = unat a + unat sz" using checked_add_Some(1)[OF r(3)] r(4) by simp
  show "p_id p' = p_id p" "p_heap_start p' = p_heap_start p" using r(4) by simp_all
qed

lemma mmap_success:
  assumes wf: "kernel_wf k" and m: "mmap plat 0 len flags k = Some (a, k1)" and a: "a \<le> USER_SPACE_END"
    and p: "current_pid k = Some pid" "get_process k pid = Some p"
  obtains p1 where "get_process k1 pid = Some p1" "unat a + unat len \<le> 2 ^ 47" "unat a mod 4096 = 0"
    "unat a + unat len \<le> unat (p_heap_end p1)" "p_heap_start p \<noteq> 0 \<Longrightarrow> unat (p_heap_end p) \<le> unat a" "p_heap_start p1 = p_heap_start (start_heap (randomized_heap_base plat k pid 0x50000000 0x10000) p)"
    "kernel_wf k1"
proof -
  let ?p = "start_heap (randomized_heap_base plat k pid 0x50000000 0x10000) p"
  obtain sz r p1 v where s: "page_align_up len = Some sz" "sz \<noteq> 0" "mmap_process (plat_x86 plat) 0 sz ?p (k_vm k) = Some (r, p1, v)"
    "a = (case r of Inl e \<Rightarrow> e | Inr a \<Rightarrow> a)" "k1 = modify_process pid (\<lambda>_. p1) (k\<lparr>k_vm := v\<rparr>)"
  proof -
    have "len \<noteq> 0" "flags AND MAP_ANONYMOUS \<noteq> 0" using m a errno_not_user by (auto simp: mmap_def split: if_splits)
    moreover obtain sz where "page_align_up len = Some sz" "sz \<noteq> 0"
      using m a p(1) errno_not_user calculation by (cases "page_align_up len") (auto simp: mmap_def split: if_splits)
    ultimately show ?thesis
      using m p by (auto simp: mmap_def with_process_memory_def split: option.splits intro: that)
  qed
  have "r = Inr a" using mmap_process_result[OF s(3)] s(4) a errno_not_user by (cases r) auto
  note ps = mmap_process_success[OF s(3)[unfolded this] s(2)]
  have l: "unat len \<le> unat sz" using page_align_up_Some[OF s(1)] by simp
  have "kernel_wf (k\<lparr>k_vm := v\<rparr>)" "get_process (k\<lparr>k_vm := v\<rparr>) pid = Some p" using wf p(2) by (simp_all add: kernel_wf_def get_process_def)
  from modify_process_const[OF this, of p1] have "get_process k1 pid = Some p1" "kernel_wf k1" using ps(5) s(5) by simp_all
  then show ?thesis using that[of p1] ps l start_heap_id(2)[of p] by force
qed


definition heap_platform :: platform where
  "heap_platform = boot_platform\<lparr>plat_x86 := stack_x86\<rparr>"

definition heap_process :: process where
  "heap_process = (sample_process 1)\<lparr>p_page_table := Some 0x100000, p_heap_start := 0x7FFFD000, p_heap_end := 0x7FFFD000\<rparr>"

definition heap_kernel :: kernel where
  "heap_kernel = modify_process 1 (\<lambda>_. heap_process) (sample_kernel\<lparr>k_vm := stack_vm\<rparr>)"

lemma mmap_one_page:
  assumes "kernel_wf k" "current_pid k = Some pid" "get_process k pid = Some p" "p_page_table p = Some 0x100000" "p_heap_start p \<noteq> 0"
    "p_heap_end p = a" "stack_tables n (i # free) (k_vm k)" "260 \<le> n" "n < 512" "i \<notin> set free" "(a, i) \<in> {(0x7FFFF000, 511), (0x7FFFD000, 509)}"
  shows "\<exists>v. mmap heap_platform 0 1 MAP_ANONYMOUS k = Some (a, modify_process pid (\<lambda>_. p\<lparr>p_heap_end := a + 4096\<rparr>) (k\<lparr>k_vm := v\<rparr>))
    \<and> stack_tables (n + 1) free v"
proof -
  obtain v where v: "map_and_copy_segment_to stack_x86 0x100000 a 0 4096 [] True False (k_vm k) = (Ok (), v)" "stack_tables (n + 1) free v"
    using stack_map[OF assms(7-11)] by blast
  have c: "page_align_up 1 = Some 4096" "page_align_up a = Some a" "is_user_range a 4096" "checked_add a 4096 = Some (a + 4096)"
    using assms(11) by (auto simp: page_align_up_def checked_add_def page_base_def is_user_range_def saturating_sub_def USER_SPACE_END_def)
  have "MAP_ANONYMOUS AND MAP_ANONYMOUS \<noteq> 0" by (simp add: MAP_ANONYMOUS_def)
  then show ?thesis
    using v assms(2-6) c by (intro exI[of _ v]) (simp add: mmap_def with_process_memory_def mmap_process_def heap_platform_def)
qed


end
