(* ===== verification/Initfs.thy ===== *)
theory Initfs
  imports Memory
begin

text \<open>
  The read-only file systems in memory, from \<^verbatim>\<open>src/src/core/init/fs.rs\<close>: an ext2 image that the boot loader leaves in memory is
  searched for files and directories. Sizes and offsets are \<^emph>\<open>usize\<close> values; they stay natural numbers where no sum of the code can leave the
  64-bit range, and the one sum that can is checked.

  The functions of the source return an \<^emph>\<open>Option\<close>. Where they could also panic or loop forever, the answer here has a third case.
\<close>

datatype 'a answer = Found 'a | Absent | Panics

fun answer_then :: "'a answer \<Rightarrow> ('a \<Rightarrow> 'b answer) \<Rightarrow> 'b answer" where
  "answer_then (Found x) f = f x"
| "answer_then Absent f = Absent"
| "answer_then Panics f = Panics"

lemma answer_then_Panics [simp]: "answer_then m f = Panics \<longleftrightarrow> m = Panics \<or> (\<exists>x. m = Found x \<and> f x = Panics)"
  by (cases m) auto

definition answer_of :: "'a option \<Rightarrow> 'a answer" where
  "answer_of r = (case r of Some x \<Rightarrow> Found x | None \<Rightarrow> Absent)"

section \<open>Slices of the image\<close>

text \<open>\<^emph>\<open>image.get(a..b)\<close>.\<close>

definition get_range :: "'a list \<Rightarrow> nat \<Rightarrow> nat \<Rightarrow> 'a list option" where
  "get_range xs a b = (if a \<le> b \<and> b \<le> length xs then Some (take (b - a) (drop a xs)) else None)"

definition read_u16 :: "bytes \<Rightarrow> nat \<Rightarrow> u16 option" where
  "read_u16 img off = map_option from_le_bytes (get_range img off (off + 2))"

definition read_u32 :: "bytes \<Rightarrow> nat \<Rightarrow> u32 option" where
  "read_u32 img off = map_option from_le_bytes (get_range img off (off + 4))"

section \<open>Superblock and inodes\<close>

record superblock =
  sb_block_size :: u32
  sb_inode_size :: u16
  sb_inodes_per_group :: u32

record fs_inode =
  i_mode :: u16
  i_size :: u32
  i_blocks :: "u32 list"

definition EXT2_MAGIC :: u16 where "EXT2_MAGIC = 0xEF53"

text \<open>\<^emph>\<open>checked_shl\<close> fails for a shift by the width or more; bits that are shifted out are lost.\<close>

definition checked_shl :: "u32 \<Rightarrow> u32 \<Rightarrow> u32 option" where
  "checked_shl x n = (if unat n < 32 then Some (push_bit (unat n) x) else None)"

definition superblock_of :: "bytes \<Rightarrow> superblock option" where
  "superblock_of img =
    (if length img < 2048 then None
     else do {
       magic \<leftarrow> read_u16 img (1024 + 56);
       if magic \<noteq> EXT2_MAGIC then None
       else do {
         log_block_size \<leftarrow> read_u32 img (1024 + 24);
         block_size \<leftarrow> checked_shl 1024 log_block_size;
         inode_size \<leftarrow> read_u16 img (1024 + 88);
         inodes_per_group \<leftarrow> read_u32 img (1024 + 40);
         Some \<lparr>sb_block_size = block_size, sb_inode_size = inode_size, sb_inodes_per_group = inodes_per_group\<rparr> }})"

definition group_desc :: "bytes \<Rightarrow> superblock \<Rightarrow> u32 \<Rightarrow> u32 option" where
  "group_desc img sb grp =
    (let gdt_off = (if sb_block_size sb = 1024 then unat (sb_block_size sb * 2) else unat (sb_block_size sb));
         desc_off = gdt_off + unat grp * 32
     in read_u32 img (desc_off + 8))"

fun read_blocks :: "bytes \<Rightarrow> nat \<Rightarrow> nat \<Rightarrow> u32 list option" where
  "read_blocks img off 0 = Some []"
| "read_blocks img off (Suc n) = do { b \<leftarrow> read_u32 img off; bs \<leftarrow> read_blocks img (off + 4) n; Some (b # bs) }"

text \<open>The position of an inode is the one sum that can leave the 64-bit range, which panics.\<close>

definition inode :: "bytes \<Rightarrow> superblock \<Rightarrow> u32 \<Rightarrow> fs_inode answer" where
  "inode img sb inode_num =
    (if inode_num = 0 then Absent
     else if sb_inodes_per_group sb = 0 then Absent
     else let grp = (inode_num - 1) div sb_inodes_per_group sb;
              index = (inode_num - 1) mod sb_inodes_per_group sb
          in case group_desc img sb grp of
               None \<Rightarrow> Absent
             | Some inode_table \<Rightarrow>
                 let inode_off = unat inode_table * unat (sb_block_size sb) + unat index * unat (sb_inode_size sb)
                 in if inode_off + 2 \<ge> 2 ^ 64 then Panics
                    else answer_of (do {
                      mode \<leftarrow> read_u16 img inode_off;
                      sz \<leftarrow> read_u32 img (inode_off + 4);
                      blocks \<leftarrow> read_blocks img (inode_off + 40) 15;
                      Some \<lparr>i_mode = mode, i_size = sz, i_blocks = blocks\<rparr> }))"

definition is_dir :: "u16 \<Rightarrow> bool" where
  "is_dir mode \<longleftrightarrow> mode AND 0x4000 \<noteq> 0"

section \<open>Blocks\<close>

definition block_slice :: "bytes \<Rightarrow> u32 \<Rightarrow> u32 \<Rightarrow> bytes option" where
  "block_slice img block_size block =
    (if block = 0 then None
     else let start = unat block * unat block_size in get_range img start (start + unat block_size))"

definition data_block_number :: "bytes \<Rightarrow> superblock \<Rightarrow> fs_inode \<Rightarrow> nat \<Rightarrow> u32 option" where
  "data_block_number img sb ino block_index =
    (if sb_block_size sb = 0 then None
     else let entries_per_block = unat (sb_block_size sb) div 4 in
       if block_index < 12 then Some (i_blocks ino ! block_index)
       else let idx = block_index - 12 in
         if idx < entries_per_block then
           (let indirect = i_blocks ino ! 12 in
            if indirect = 0 then None
            else do { block \<leftarrow> block_slice img (sb_block_size sb) indirect; read_u32 block (idx * 4) })
         else let idx2 = idx - entries_per_block in
           if idx2 < entries_per_block * entries_per_block then
             (let dindirect = i_blocks ino ! 13 in
              if dindirect = 0 then None
              else do {
                l1 \<leftarrow> block_slice img (sb_block_size sb) dindirect;
                l1_entry \<leftarrow> read_u32 l1 (idx2 div entries_per_block * 4);
                if l1_entry = 0 then None
                else do {
                  l2 \<leftarrow> block_slice img (sb_block_size sb) l1_entry;
                  read_u32 l2 (idx2 mod entries_per_block * 4) }})
           else None)"

text \<open>The loop over the blocks of a file: a hole is filled with zeros.\<close>

fun read_file_blocks :: "bytes \<Rightarrow> superblock \<Rightarrow> fs_inode \<Rightarrow> nat list \<Rightarrow> bytes \<Rightarrow> bytes option" where
  "read_file_blocks img sb ino [] buf = Some buf"
| "read_file_blocks img sb ino (block_idx # rest) buf =
    (case data_block_number img sb ino block_idx of
       None \<Rightarrow> None
     | Some block_num \<Rightarrow>
         (case (if block_num = 0 then Some (replicate (unat (sb_block_size sb)) 0)
                else block_slice img (sb_block_size sb) block_num) of
            None \<Rightarrow> None
          | Some block \<Rightarrow>
              let buf = buf @ take (min (length block) (unat (i_size ino) - length buf)) block
              in if length buf \<ge> unat (i_size ino) then Some buf
                 else read_file_blocks img sb ino rest buf))"

definition div_ceil :: "nat \<Rightarrow> nat \<Rightarrow> nat option" where
  "div_ceil a b = (if b = 0 then None else Some ((a + b - 1) div b))"

definition read_inode_data :: "bytes \<Rightarrow> superblock \<Rightarrow> u32 \<Rightarrow> bytes answer" where
  "read_inode_data img sb inode_num =
    answer_then (inode img sb inode_num) (\<lambda>ino.
      if is_dir (i_mode ino) then Found []
      else if i_size ino = 0 then Found []
      else case div_ceil (unat (i_size ino)) (unat (sb_block_size sb)) of
          None \<Rightarrow> Panics
        | Some blocks_needed \<Rightarrow> answer_of (read_file_blocks img sb ino [0..<blocks_needed] []))"

section \<open>Directories\<close>

text \<open>
  One turn of the loops over a directory: the entry at the offset in the block, the step to the next block, the end of what can be read
  (a missing block or an entry without a length) or a failed read.
\<close>

datatype dir_outcome = DirEnd | DirFail | DirNextBlock | DirEntry u32 nat nat bytes

definition dir_turn :: "bytes \<Rightarrow> superblock \<Rightarrow> fs_inode \<Rightarrow> nat \<Rightarrow> nat \<Rightarrow> dir_outcome" where
  "dir_turn img sb dir block_idx base =
    (case data_block_number img sb dir block_idx of
       None \<Rightarrow> DirFail
     | Some block \<Rightarrow>
         if block = 0 then DirEnd
         else case block_slice img (sb_block_size sb) block of
             None \<Rightarrow> DirFail
           | Some data \<Rightarrow>
               if base \<ge> length data then DirNextBlock
               else case (do {
                   inode_num \<leftarrow> read_u32 data base;
                   rec_len \<leftarrow> read_u16 data (base + 4);
                   name_len \<leftarrow> array_get data (base + 6);
                   Some (inode_num, unat rec_len, unat name_len) }) of
                   None \<Rightarrow> DirFail
                 | Some (inode_num, rec_len, name_len) \<Rightarrow> if rec_len = 0 then DirEnd else DirEntry inode_num rec_len name_len data)"

definition entry_name :: "bytes \<Rightarrow> nat \<Rightarrow> nat \<Rightarrow> bytes option" where
  "entry_name data base name_len =
    (case get_range data (base + 8) (base + 8 + name_len) of
       None \<Rightarrow> None
     | Some name \<Rightarrow> if utf8_valid name then Some name else None)"

text \<open>The loops over a directory: \<^term>\<open>None\<close> is a loop that does not end.\<close>

partial_function (option) find_in_dir :: "bytes \<Rightarrow> superblock \<Rightarrow> fs_inode \<Rightarrow> bytes \<Rightarrow> nat \<Rightarrow> nat \<Rightarrow> nat \<Rightarrow> u32 option option" where
  "find_in_dir img sb dir name block_idx offset remaining =
    (if remaining = 0 then Some None
     else case dir_turn img sb dir block_idx offset of
         DirEnd \<Rightarrow> Some None
       | DirFail \<Rightarrow> Some None
       | DirNextBlock \<Rightarrow> find_in_dir img sb dir name (block_idx + 1) 0 remaining
       | DirEntry inode_num rec_len name_len data \<Rightarrow>
           if inode_num = 0 then find_in_dir img sb dir name block_idx (offset + rec_len) (remaining - rec_len)
           else (case entry_name data offset name_len of
               None \<Rightarrow> Some None
             | Some entry \<Rightarrow>
                 if entry = name then Some (Some inode_num)
                 else find_in_dir img sb dir name block_idx (offset + rec_len) (remaining - rec_len)))"

definition find_inode_in_dir :: "bytes \<Rightarrow> superblock \<Rightarrow> fs_inode \<Rightarrow> bytes \<Rightarrow> u32 answer" where
  "find_inode_in_dir img sb dir name =
    (if \<not> is_dir (i_mode dir) then Absent
     else case find_in_dir img sb dir name 0 0 (unat (i_size dir)) of None \<Rightarrow> Panics | Some r \<Rightarrow> answer_of r)"

partial_function (option) list_dir :: "bytes \<Rightarrow> superblock \<Rightarrow> fs_inode \<Rightarrow> nat \<Rightarrow> nat \<Rightarrow> nat \<Rightarrow> bytes list \<Rightarrow> bytes list option option" where
  "list_dir img sb dir block_idx offset remaining names =
    (if remaining = 0 then Some (Some names)
     else case dir_turn img sb dir block_idx offset of
         DirEnd \<Rightarrow> Some (Some names)
       | DirFail \<Rightarrow> Some None
       | DirNextBlock \<Rightarrow> list_dir img sb dir (block_idx + 1) 0 remaining names
       | DirEntry inode_num rec_len name_len data \<Rightarrow>
           if inode_num = 0 then list_dir img sb dir block_idx (offset + rec_len) (remaining - rec_len) names
           else (case entry_name data offset name_len of
               None \<Rightarrow> Some None
             | Some entry \<Rightarrow> list_dir img sb dir block_idx (offset + rec_len) (remaining - rec_len)
                 (if entry \<noteq> str_bytes ''.'' \<and> entry \<noteq> str_bytes ''..'' then names @ [entry] else names)))"

text \<open>The iterator over the files of a directory: the next file with its contents, and the iterator behind it.\<close>

record fs_entries =
  fe_inode :: fs_inode
  fe_block_idx :: nat
  fe_offset :: nat
  fe_remaining :: nat

definition fs_entries_new :: "fs_inode \<Rightarrow> fs_entries" where
  "fs_entries_new ino = \<lparr>fe_inode = ino, fe_block_idx = 0, fe_offset = 0, fe_remaining = unat (i_size ino)\<rparr>"

partial_function (option) fs_entries_next :: "bytes \<Rightarrow> superblock \<Rightarrow> fs_entries \<Rightarrow> ((bytes \<times> bytes) answer \<times> fs_entries) option" where
  "fs_entries_next img sb it =
    (if fe_remaining it = 0 then Some (Absent, it)
     else case dir_turn img sb (fe_inode it) (fe_block_idx it) (fe_offset it) of
         DirEnd \<Rightarrow> Some (Absent, it)
       | DirFail \<Rightarrow> Some (Absent, it)
       | DirNextBlock \<Rightarrow> fs_entries_next img sb (it\<lparr>fe_block_idx := fe_block_idx it + 1, fe_offset := 0\<rparr>)
       | DirEntry inode_num rec_len name_len data \<Rightarrow>
           let it' = it\<lparr>fe_offset := fe_offset it + rec_len, fe_remaining := fe_remaining it - rec_len\<rparr>
           in if inode_num = 0 then fs_entries_next img sb it'
              else Some (case entry_name data (fe_offset it) name_len of
                  None \<Rightarrow> (Absent, it')
                | Some name \<Rightarrow> (case read_inode_data img sb inode_num of
                      Found contents \<Rightarrow> (Found (name, contents), it')
                    | Absent \<Rightarrow> (Found (name, []), it')
                    | Panics \<Rightarrow> (Panics, it'))))"

section \<open>Paths\<close>

text \<open>The pieces of a string between separators, \<^emph>\<open>split\<close>, and without separators at both ends, \<^emph>\<open>trim_matches\<close>.\<close>

fun split_on :: "'a \<Rightarrow> 'a list \<Rightarrow> 'a list list" where
  "split_on c [] = [[]]"
| "split_on c (x # xs) = (if x = c then [] # split_on c xs else (case split_on c xs of p # ps \<Rightarrow> (x # p) # ps | [] \<Rightarrow> [[x]]))"

definition SLASH :: u8 where "SLASH = 0x2F"

definition trim_slashes :: "bytes \<Rightarrow> bytes" where
  "trim_slashes s = rev (dropWhile (\<lambda>b. b = SLASH) (rev (dropWhile (\<lambda>b. b = SLASH) s)))"

definition path_parts :: "bytes \<Rightarrow> bytes list" where
  "path_parts path = filter (\<lambda>p. p \<noteq> []) (split_on SLASH path)"

definition is_dots :: "bytes \<Rightarrow> bool" where
  "is_dots p \<longleftrightarrow> p = str_bytes ''..'' \<or> p = str_bytes ''.''"

fun metadata_walk :: "bytes \<Rightarrow> superblock \<Rightarrow> fs_inode \<Rightarrow> bytes list \<Rightarrow> (u16 \<times> u64) answer" where
  "metadata_walk img sb current [] = Absent"
| "metadata_walk img sb current (part # parts) =
    (if is_dots part then metadata_walk img sb current parts
     else answer_then (find_inode_in_dir img sb current part) (\<lambda>inode_num. answer_then (inode img sb inode_num) (\<lambda>next_inode.
           if parts = [] then Found (i_mode next_inode, ucast (i_size next_inode)) else metadata_walk img sb next_inode parts)))"

definition file_metadata_in :: "bytes \<Rightarrow> bytes \<Rightarrow> (u16 \<times> u64) answer" where
  "file_metadata_in img path =
    (case superblock_of img of
       None \<Rightarrow> Absent
     | Some sb \<Rightarrow>
         let normalized = trim_slashes path
         in answer_then (inode img sb 2) (\<lambda>root.
              if normalized = [] \<or> normalized = str_bytes ''.'' then Found (i_mode root, 0)
              else metadata_walk img sb root (path_parts normalized)))"

fun resolve_walk :: "bytes \<Rightarrow> superblock \<Rightarrow> u32 \<Rightarrow> fs_inode \<Rightarrow> bytes list \<Rightarrow> u32 answer" where
  "resolve_walk img sb num current [] = (if is_dir (i_mode current) then Found num else Absent)"
| "resolve_walk img sb num current (part # parts) =
    (if is_dots part then resolve_walk img sb num current parts
     else if \<not> is_dir (i_mode current) then Absent
     else answer_then (find_inode_in_dir img sb current part) (\<lambda>next_num. answer_then (inode img sb next_num) (\<lambda>next_inode. resolve_walk img sb next_num next_inode parts)))"

definition resolve_dir_inode_in :: "bytes \<Rightarrow> bytes \<Rightarrow> u32 answer" where
  "resolve_dir_inode_in img path =
    (case superblock_of img of
       None \<Rightarrow> Absent
     | Some sb \<Rightarrow>
         let normalized = trim_slashes path
         in answer_then (inode img sb 2) (\<lambda>root.
              if normalized = [] \<or> normalized = str_bytes ''.'' then (if is_dir (i_mode root) then Found 2 else Absent)
              else resolve_walk img sb 2 root (path_parts normalized)))"

definition readdir_path_in :: "bytes \<Rightarrow> bytes \<Rightarrow> bytes list answer" where
  "readdir_path_in img path =
    (case superblock_of img of
       None \<Rightarrow> Absent
     | Some sb \<Rightarrow> answer_then (resolve_dir_inode_in img path) (\<lambda>num.
         answer_then (inode img sb num) (\<lambda>dir. case list_dir img sb dir 0 0 (unat (i_size dir)) [] of None \<Rightarrow> Panics | Some r \<Rightarrow> answer_of r)))"

fun read_walk :: "bytes \<Rightarrow> superblock \<Rightarrow> fs_inode \<Rightarrow> bytes list \<Rightarrow> bytes answer" where
  "read_walk img sb current [] = Absent"
| "read_walk img sb current (part # parts) =
    (if is_dots part then Absent
     else answer_then (find_inode_in_dir img sb current part) (\<lambda>inode_num. answer_then (inode img sb inode_num) (\<lambda>next_inode.
           if parts = [] then (if is_dir (i_mode next_inode) then Absent else read_inode_data img sb inode_num)
           else if \<not> is_dir (i_mode next_inode) then Absent
           else read_walk img sb next_inode parts)))"

definition read_path_in :: "bytes \<Rightarrow> bytes \<Rightarrow> bytes answer" where
  "read_path_in img path =
    (case superblock_of img of
       None \<Rightarrow> Absent
     | Some sb \<Rightarrow> answer_then (inode img sb 2) (\<lambda>root. read_walk img sb root (path_parts path)))"

section \<open>The two images\<close>

record images =
  im_initfs :: bytes
  im_rootfs :: bytes

definition set_image :: "phys_mem \<Rightarrow> u64 \<Rightarrow> nat \<Rightarrow> images \<Rightarrow> images" where
  "set_image m addr sz im = (if addr \<noteq> 0 \<and> sz \<noteq> 0 then im\<lparr>im_initfs := mem_read m addr sz\<rparr> else im)"

definition set_rootfs :: "phys_mem \<Rightarrow> u64 \<Rightarrow> nat \<Rightarrow> images \<Rightarrow> images" where
  "set_rootfs m addr sz im = (if addr \<noteq> 0 \<and> sz \<noteq> 0 then im\<lparr>im_rootfs := mem_read m addr sz\<rparr> else im)"

text \<open>The root file system first, then the initial one.\<close>

definition in_images :: "images \<Rightarrow> (bytes \<Rightarrow> 'a answer) \<Rightarrow> 'a answer" where
  "in_images im f =
    (if im_rootfs im \<noteq> [] then (case f (im_rootfs im) of Found x \<Rightarrow> Found x | Absent \<Rightarrow> f (im_initfs im) | Panics \<Rightarrow> Panics)
     else f (im_initfs im))"

definition initfs_read :: "images \<Rightarrow> bytes \<Rightarrow> bytes answer" where
  "initfs_read im name = in_images im (\<lambda>img. read_path_in img name)"

definition file_metadata :: "images \<Rightarrow> bytes \<Rightarrow> (u16 \<times> u64) answer" where
  "file_metadata im path = in_images im (\<lambda>img. file_metadata_in img path)"

definition is_directory :: "images \<Rightarrow> bytes \<Rightarrow> bool answer" where
  "is_directory im path =
    (case in_images im (\<lambda>img. resolve_dir_inode_in img path) of Found _ \<Rightarrow> Found True | Absent \<Rightarrow> Found False | Panics \<Rightarrow> Panics)"

definition readdir_path :: "images \<Rightarrow> bytes \<Rightarrow> bytes list answer" where
  "readdir_path im path = in_images im (\<lambda>img. readdir_path_in img path)"

definition entries :: "images \<Rightarrow> (superblock \<times> fs_entries) answer" where
  "entries im =
    (let sb = (case superblock_of (im_initfs im) of
           Some sb \<Rightarrow> sb | None \<Rightarrow> \<lparr>sb_block_size = 1024, sb_inode_size = 128, sb_inodes_per_group = 0\<rparr>)
     in case inode (im_initfs im) sb 2 of
          Found root \<Rightarrow> Found (sb, fs_entries_new root)
        | Absent \<Rightarrow> Found (sb, fs_entries_new \<lparr>i_mode = 0, i_size = 0, i_blocks = replicate 15 0\<rparr>)
        | Panics \<Rightarrow> Panics)"


section \<open>The loops end\<close>

text \<open>
  An entry takes at least a byte of what remains, and the step to the next block goes back to offset zero, which a block that is
  not empty never makes again.
\<close>

lemma get_range_length: "get_range xs a b = Some ys \<Longrightarrow> length ys = b - a"
  by (auto simp: get_range_def split: if_splits)

lemma block_slice_length: "block_slice img bs b = Some data \<Longrightarrow> length data = unat bs"
  by (auto simp: block_slice_def Let_def dest: get_range_length split: if_splits)

lemma data_block_number_size: "data_block_number img sb ino i = Some b \<Longrightarrow> sb_block_size sb \<noteq> 0"
  by (auto simp: data_block_number_def)

lemma dir_turn_next:
  assumes "dir_turn img sb dir i base = DirNextBlock"
  shows "0 < base"
proof -
  obtain b data where "data_block_number img sb dir i = Some b" "block_slice img (sb_block_size sb) b = Some data" "length data \<le> base"
    using assms by (auto simp: dir_turn_def split: option.splits if_splits)
  note d = this
  have "0 < length data" using data_block_number_size[OF d(1)] block_slice_length[OF d(2)] by (simp add: unat_gt_0)
  then show ?thesis using d(3) by linarith
qed

lemma dir_turn_entry: "dir_turn img sb dir i base = DirEntry n r l data \<Longrightarrow> 0 < r"
  by (auto simp: dir_turn_def split: option.splits if_splits)

lemma dir_loop_induct:
  assumes step: "\<And>b off r. (\<And>b' off' r'. r' < r \<or> r' = r \<and> off' < off \<Longrightarrow> P b' off' r') \<Longrightarrow> P b off r"
  shows "P b (off :: nat) (r :: nat)"
proof (induction r arbitrary: b off rule: less_induct)
  case (less r)
  note outer = this
  show ?case
  proof (induction off arbitrary: b rule: less_induct)
    case (less off)
    show ?case by (rule step) (use outer less in blast)
  qed
qed

text \<open>An entry is followed by less, and the step to the next block by the same at offset zero.\<close>

lemma dir_turn_less:
  assumes "r \<noteq> 0"
  shows "dir_turn img sb dir b off = DirNextBlock \<Longrightarrow> r < r \<or> r = r \<and> 0 < off"
    "dir_turn img sb dir b off = DirEntry n rec_len l data \<Longrightarrow> r - rec_len < r \<or> r - rec_len = r \<and> off + rec_len < off"
  using assms dir_turn_next dir_turn_entry by (auto simp: diff_less)

lemma find_in_dir_returns: "\<exists>res. find_in_dir img sb dir name b off r = Some res"
proof (induction b off r rule: dir_loop_induct)
  case (1 b off r)
  show ?case
    by (subst find_in_dir.simps)
       (use 1 dir_turn_less[of r] in \<open>auto split: dir_outcome.split option.split\<close>)
qed

lemma list_dir_returns: "\<exists>res. list_dir img sb dir b off r names = Some res"
proof (induction b off r arbitrary: names rule: dir_loop_induct)
  case (1 b off r)
  show ?case
    by (subst list_dir.simps)
       (use 1 dir_turn_less[of r] in \<open>auto split: dir_outcome.split option.split\<close>)
qed

lemma fs_entries_next_returns: "\<exists>res. fs_entries_next img sb it = Some res"
proof (induction "fe_block_idx it" "fe_offset it" "fe_remaining it" arbitrary: it rule: dir_loop_induct)
  case 1
  show ?case
    by (subst fs_entries_next.simps)
       (use 1 dir_turn_less[of "fe_remaining it"] in \<open>auto simp: Let_def split: dir_outcome.split option.split\<close>)
qed

text \<open>
  C22. The loops over a directory end for every image, however its entries are corrupted: looking up a name, listing the names and taking the
  next file all return.
\<close>

theorem directory_walks_end:
  "(\<exists>r. find_in_dir img sb dir name 0 0 (unat (i_size dir)) = Some r)
    \<and> (\<exists>r. list_dir img sb dir 0 0 (unat (i_size dir)) [] = Some r) \<and> (\<exists>r. fs_entries_next img sb it = Some r)"
  using find_in_dir_returns list_dir_returns fs_entries_next_returns by blast

section \<open>No image makes the kernel panic\<close>

lemma superblock_block_size:
  assumes "superblock_of img = Some sb"
  shows "unat (sb_block_size sb) \<le> 2 ^ 31"
proof -
  obtain n where "checked_shl 1024 n = Some (sb_block_size sb)"
    using assms by (auto simp: superblock_of_def split: if_splits Option.bind_splits)
  then have n: "unat n < 32" and b: "sb_block_size sb = push_bit (unat n) 1024" by (auto simp: checked_shl_def split: if_splits)
  have "sb_block_size sb = of_nat (2 ^ (10 + unat n))" by (simp add: b push_bit_eq_mult power_add)
  then have u: "unat (sb_block_size sb) = 2 ^ (10 + unat n) mod 2 ^ 32" by (simp only: unat_of_nat) simp
  show ?thesis
  proof (cases "unat n \<le> 21")
    case True
    then have "(2 :: nat) ^ (10 + unat n) \<le> 2 ^ 31" by (intro power_increasing) auto
    then show ?thesis using u by simp
  next
    case False
    then have "(2 :: nat) ^ 32 dvd 2 ^ (10 + unat n)" by (intro le_imp_power_dvd) simp
    then show ?thesis using u by simp
  qed
qed


lemma inode_no_panic:
  assumes "superblock_of img = Some sb"
  shows "inode img sb n \<noteq> Panics"
proof -
  have "unat t * unat (sb_block_size sb) + unat i * unat (sb_inode_size sb) + 2 < 2 ^ 64" for t i :: u32
  proof -
    have lt: "unat t < 2 ^ 32" "unat i < 2 ^ 32" "unat (sb_inode_size sb) < 2 ^ 16"
      using unsigned_less[of t] unsigned_less[of i] unsigned_less[of "sb_inode_size sb"] by simp_all
    have "unat t * unat (sb_block_size sb) \<le> 2 ^ 32 * 2 ^ 31"
      using superblock_block_size[OF assms] lt(1) by (intro mult_mono) auto
    moreover have "unat i * unat (sb_inode_size sb) \<le> 2 ^ 32 * 2 ^ 16" using lt(2,3) by (intro mult_mono) auto
    ultimately show ?thesis by simp
  qed
  then show ?thesis by (auto simp: inode_def Let_def answer_of_def not_le[symmetric] split: option.split)
qed

lemma find_no_panic: "find_inode_in_dir img sb dir name \<noteq> Panics"
  using find_in_dir_returns[of img sb dir name 0 0 "unat (i_size dir)"]
  by (auto simp: find_inode_in_dir_def answer_of_def split: option.split)

text \<open>A directory in which something was found has blocks that are not empty, so the division by the block size is safe.\<close>

lemma find_block_size:
  assumes "find_inode_in_dir img sb dir name = Found n"
  shows "sb_block_size sb \<noteq> 0"
proof
  assume z: "sb_block_size sb = 0"
  then have "dir_turn img sb dir 0 0 = DirFail" by (simp add: dir_turn_def data_block_number_def)
  then have "find_in_dir img sb dir name 0 0 r = Some None" for r by (subst find_in_dir.simps) simp
  then show False using assms by (auto simp: find_inode_in_dir_def answer_of_def split: if_splits)
qed

lemma read_inode_data_no_panic:
  "\<lbrakk>superblock_of img = Some sb; sb_block_size sb \<noteq> 0\<rbrakk> \<Longrightarrow> read_inode_data img sb n \<noteq> Panics"
  using inode_no_panic[of img sb n]
  by (cases "inode img sb n") (auto simp: read_inode_data_def div_ceil_def answer_of_def unat_eq_zero split: option.split)

lemma read_walk_no_panic: "superblock_of img = Some sb \<Longrightarrow> read_walk img sb dir parts \<noteq> Panics"
  by (induction parts arbitrary: dir)
     (auto simp: find_no_panic inode_no_panic read_inode_data_no_panic dest: find_block_size)

lemma metadata_walk_no_panic: "superblock_of img = Some sb \<Longrightarrow> metadata_walk img sb dir parts \<noteq> Panics"
  by (induction parts arbitrary: dir) (auto simp: find_no_panic inode_no_panic)

lemma resolve_walk_no_panic: "superblock_of img = Some sb \<Longrightarrow> resolve_walk img sb num dir parts \<noteq> Panics"
  by (induction parts arbitrary: num dir) (auto simp: find_no_panic inode_no_panic)

lemma paths_no_panic:
  "read_path_in img path \<noteq> Panics" "file_metadata_in img path \<noteq> Panics" "resolve_dir_inode_in img path \<noteq> Panics" "readdir_path_in img path \<noteq> Panics"
proof -
  show "read_path_in img path \<noteq> Panics"
    by (auto simp: read_path_in_def read_walk_no_panic inode_no_panic split: option.split)
  show "file_metadata_in img path \<noteq> Panics"
    by (auto simp: file_metadata_in_def metadata_walk_no_panic inode_no_panic Let_def split: option.split)
  show r: "resolve_dir_inode_in img path \<noteq> Panics"
    by (auto simp: resolve_dir_inode_in_def resolve_walk_no_panic inode_no_panic Let_def split: option.split)
  have "(case list_dir img sb dir 0 0 (unat (i_size dir)) [] of None \<Rightarrow> Panics | Some r \<Rightarrow> answer_of r) \<noteq> Panics" for sb dir
    using list_dir_returns[of img sb dir 0 0 "unat (i_size dir)" "[]"] by (auto simp: answer_of_def split: option.split)
  then show "readdir_path_in img path \<noteq> Panics"
    using r by (auto simp: readdir_path_in_def inode_no_panic split: option.split)
qed


section \<open>The contents of a file\<close>

text \<open>The reference: every byte of a file alone, from the block it is in.\<close>

definition file_byte :: "bytes \<Rightarrow> superblock \<Rightarrow> fs_inode \<Rightarrow> nat \<Rightarrow> u8 option" where
  "file_byte img sb ino i =
    (let bs = unat (sb_block_size sb) in
     case data_block_number img sb ino (i div bs) of
       None \<Rightarrow> None
     | Some b \<Rightarrow> if b = 0 then Some 0 else map_option (\<lambda>data. data ! (i mod bs)) (block_slice img (sb_block_size sb) b))"

lemma those_nth: "those (map (\<lambda>i. map_option (\<lambda>d. d ! f i) x) [a..<b]) = (if a < b then map_option (\<lambda>d. map (\<lambda>i. d ! f i) [a..<b]) x else Some [])"
  by (cases x) (auto simp: those_map_Some those_None)

text \<open>The bytes of one block, up to the end of the file.\<close>

lemma block_of_file_bytes:
  assumes "bs = unat (sb_block_size sb)" "0 < bs" "e \<le> bs"
  shows "those (map (file_byte img sb ino) [j * bs..<j * bs + e]) =
    (if e = 0 then Some [] else
     case data_block_number img sb ino j of
       None \<Rightarrow> None
     | Some b \<Rightarrow> map_option (take e) (if b = 0 then Some (replicate bs 0) else block_slice img (sb_block_size sb) b))"
proof (cases "e = 0")
  case False
  have dm: "i div bs = j" "i mod bs = i - j * bs" if "i \<in> set [j * bs..<j * bs + e]" for i
  proof -
    have "i = (i - j * bs) + j * bs" "i - j * bs < bs" using that assms(3) by auto
    then show "i div bs = j" "i mod bs = i - j * bs"
      by (metis div_mult_self3 add.commute assms(2) div_less add_0 less_numeral_extra(3) mult.commute)
         (metis \<open>i = (i - j * bs) + j * bs\<close> \<open>i - j * bs < bs\<close> mod_less mod_mult_self1)
  qed
  have fb: "map (file_byte img sb ino) [j * bs..<j * bs + e] = map (\<lambda>i. case data_block_number img sb ino j of None \<Rightarrow> None
      | Some b \<Rightarrow> if b = 0 then Some 0 else map_option (\<lambda>d. d ! (i - j * bs)) (block_slice img (sb_block_size sb) b)) [j * bs..<j * bs + e]"
    using dm assms(1) by (intro map_cong refl) (simp add: file_byte_def Let_def split: option.split)
  have tk: "map (\<lambda>i. d ! (i - j * bs)) [j * bs..<j * bs + e] = take e d" if "length d = bs" for d :: bytes
    using that assms(3) by (intro nth_equalityI) auto
  have const: "those (map (\<lambda>i. x) [j * bs..<j * bs + e]) = map_option (replicate e) x" for x :: "u8 option"
  proof (cases x)
    case (Some y)
    have "map (\<lambda>i. y) [j * bs..<j * bs + e] = replicate e y" by (intro nth_equalityI) auto
    then show ?thesis using those_map_Some[of "\<lambda>_. y" "[j * bs..<j * bs + e]"] Some by simp
  qed (use False in \<open>auto simp: those_None image_constant_conv\<close>)
  show ?thesis
  proof (cases "data_block_number img sb ino j")
    case None
    then show ?thesis unfolding fb using False const[of None] by simp
  next
    case (Some b)
    show ?thesis
    proof (cases "b = 0")
      case True
      then show ?thesis unfolding fb using False Some const[of "Some 0"] assms(3) by (simp add: min_def)
    next
      case nz: False
      let ?x = "block_slice img (sb_block_size sb) b"
      have "those (map (\<lambda>i. map_option (\<lambda>d. d ! (i - j * bs)) ?x) [j * bs..<j * bs + e]) = map_option (take e) ?x"
      proof (cases ?x)
        case (Some d)
        then have "take e d = map (\<lambda>i. d ! (i - j * bs)) [j * bs..<j * bs + e]"
          using tk[of d] block_slice_length[of img "sb_block_size sb" b d] assms(1) by simp
        then show ?thesis using Some False by (subst those_nth) simp
      qed (subst those_nth, use False in simp)
      then show ?thesis unfolding fb using False Some nz by simp
    qed
  qed
qed simp

lemma read_file_blocks_bytes:
  assumes bs: "bs = unat (sb_block_size sb)" "0 < bs" and n: "n = (sz + bs - 1) div bs" "sz = unat (i_size ino)"
    and j: "j < n" "length buf = j * bs"
  shows "read_file_blocks img sb ino [j..<n] buf = map_option (\<lambda>rest. buf @ rest) (those (map (file_byte img sb ino) [j * bs..<sz]))"
  using j
proof (induction "n - j" arbitrary: j buf)
  case (Suc d)
  define e where "e = min bs (sz - j * bs)"
  have lt: "j * bs < sz" 
  proof (rule ccontr)
    assume "\<not> j * bs < sz"
    then have "sz + bs - 1 < (j + 1) * bs" using bs(2) by (simp add: algebra_simps)
    then have "n < j + 1" unfolding n(1) by (simp add: less_mult_imp_div_less)
    then show False using Suc.prems(1) by simp
  qed
  have e: "e \<le> bs" "e \<noteq> 0" using lt bs(2) by (auto simp: e_def)
  have up: "[j..<n] = j # [Suc j..<n]" using Suc.prems(1) by (simp add: upt_conv_Cons)
  have split: "[j * bs..<sz] = [j * bs..<j * bs + e] @ [j * bs + e..<sz]"
    using lt upt_add_eq_append[of "j * bs" "j * bs + e" "sz - (j * bs + e)"] by (auto simp: e_def min_def)
  let ?blk = "\<lambda>b. if b = 0 then Some (replicate bs 0) else block_slice img (sb_block_size sb) b"
  show ?case
  proof (cases "data_block_number img sb ino j")
    case None
    then show ?thesis using e block_of_file_bytes[OF bs e(1), of img ino j] by (simp add: up split those_append)
  next
    case (Some b)
    show ?thesis
    proof (cases "?blk b")
      case None
      then have "those (map (file_byte img sb ino) [j * bs..<j * bs + e]) = None"
        using Some e block_of_file_bytes[OF bs e(1), of img ino j] by simp
      then have "those (map (file_byte img sb ino) [j * bs..<sz]) = None" by (simp add: split those_append)
      then show ?thesis using Some None bs(1) by (simp add: up split: if_splits)
    next
      case (Some data)
      note dat = this
      have len: "length data = bs" using Some block_slice_length[of img "sb_block_size sb" b data] bs(1) by (auto split: if_splits)
      have tk: "take (min (length data) (sz - length buf)) data = take e data" using len Suc.prems(2) by (simp add: e_def min.commute)
      have front: "those (map (file_byte img sb ino) [j * bs..<j * bs + e]) = Some (take e data)"
        using block_of_file_bytes[OF bs e(1), of img ino j] e \<open>data_block_number img sb ino j = Some b\<close> dat by simp
      have whole: "those (map (file_byte img sb ino) [j * bs..<sz])
          = map_option (\<lambda>rest. take e data @ rest) (those (map (file_byte img sb ino) [j * bs + e..<sz]))"
        using front by (simp add: split those_append)
      have len': "length (buf @ take e data) = j * bs + e" using len e Suc.prems(2) by simp
      have step: "read_file_blocks img sb ino [j..<n] buf =
          (if sz \<le> j * bs + e then Some (buf @ take e data) else read_file_blocks img sb ino [Suc j..<n] (buf @ take e data))"
        using \<open>data_block_number img sb ino j = Some b\<close> dat[unfolded bs(1)] tk[unfolded n(2)] len'
        by (simp add: up Let_def n(2) del: length_append)
      show ?thesis
      proof (cases "sz \<le> j * bs + e")
        case True
        then show ?thesis using step whole by simp
      next
        case False
        then have e': "e = bs" "j * bs + e = Suc j * bs" by (auto simp: e_def)
        have "Suc j * bs \<le> sz - 1" using False e' by simp
        then have "Suc j \<le> (sz - 1) div bs" using bs(2) by (simp add: less_eq_div_iff_mult_less_eq)
        moreover have "n = (sz - 1) div bs + 1"
        proof -
          have m: "sz + bs - 1 = (sz - 1) + bs" using lt by simp
          show ?thesis unfolding n(1) m using div_add_self2[of bs "sz - 1"] bs(2) by linarith
        qed
        ultimately have "Suc j < n" by simp
        then have rest: "read_file_blocks img sb ino [Suc j..<n] (buf @ take e data)
            = map_option (\<lambda>rest. (buf @ take e data) @ rest) (those (map (file_byte img sb ino) [Suc j * bs..<sz]))"
          using Suc.hyps(2) len' e' by (intro Suc.hyps(1)) auto
        have "read_file_blocks img sb ino [j..<n] buf = read_file_blocks img sb ino [Suc j..<n] (buf @ take e data)"
          unfolding step using False by (rule if_not_P)
        then show ?thesis unfolding rest whole e'(2) by (cases "those (map (file_byte img sb ino) [Suc j * bs..<sz])") simp_all
      qed
    qed
  qed
qed simp

text \<open>
  C24. Reading a file gives exactly its bytes: as many as its size says, each the byte of the block that the inode and its indirect blocks name for
  that position, and zero in a hole; the file is absent when one of its blocks is not in the image.
\<close>

theorem read_inode_data_bytes:
  assumes "inode img sb n = Found ino" "\<not> is_dir (i_mode ino)" "sb_block_size sb \<noteq> 0"
  shows "read_inode_data img sb n = answer_of (those (map (file_byte img sb ino) [0..<unat (i_size ino)]))"
proof (cases "i_size ino = 0")
  case True
  then show ?thesis using assms by (simp add: read_inode_data_def answer_of_def)
next
  case False
  let ?bs = "unat (sb_block_size sb)" let ?sz = "unat (i_size ino)"
  have pos: "0 < ?bs" "0 < ?sz" using assms(3) False by (simp_all add: unat_gt_0)
  have "0 < (?sz + ?bs - 1) div ?bs" using pos by (simp add: div_greater_zero_iff)
  from read_file_blocks_bytes[OF refl pos(1) refl refl this, of "[]" img] show ?thesis
    using assms False pos by (simp add: read_inode_data_def div_ceil_def option.map_ident)
qed

section \<open>Listing and looking up\<close>

lemma list_dir_find:
  assumes "list_dir img sb dir b off r names = Some (Some res)" "\<not> is_dots name"
  shows "name \<in> set res \<longleftrightarrow> name \<in> set names \<or> (\<exists>n. find_in_dir img sb dir name b off r = Some (Some n))"
  using assms(1)
proof (induction b off r arbitrary: names rule: dir_loop_induct)
  case (1 b off r)
  note IH = this(1) and l = this(2)
  show ?case
  proof (cases "r = 0")
    case True
    then show ?thesis using l by (simp add: list_dir.simps find_in_dir.simps)
  next
    case False
    note less = dir_turn_less[OF False]
    show ?thesis
    proof (cases "dir_turn img sb dir b off")
      case DirNextBlock
      then show ?thesis
        using l False IH[OF less(1)[OF DirNextBlock], of "b + 1" names] by (simp add: list_dir.simps[of _ _ _ b] find_in_dir.simps[of _ _ _ _ b])
    next
      case (DirEntry n rec_len l' data)
      note nx = IH[OF less(2)[OF DirEntry], of b]
      show ?thesis
      proof (cases "n = 0")
        case True
        then show ?thesis
          using l False DirEntry nx[of names] by (simp add: list_dir.simps[of _ _ _ _ off] find_in_dir.simps[of _ _ _ _ _ off])
      next
        case nz: False
        obtain entry where e: "entry_name data off l' = Some entry"
          using l False DirEntry nz by (cases "entry_name data off l'") (auto simp: list_dir.simps[of _ _ _ _ off])
        have "list_dir img sb dir b (off + rec_len) (r - rec_len) (if is_dots entry then names else names @ [entry]) = Some (Some res)"
          using l False DirEntry nz e by (auto simp: list_dir.simps[of _ _ _ _ off] is_dots_def split: if_splits)
        from nx[OF this] show ?thesis
          using False DirEntry nz e assms(2) by (auto simp: find_in_dir.simps[of _ _ _ _ _ off] split: if_splits)
      qed
    qed (use l False in \<open>auto simp: list_dir.simps[of _ _ _ b] find_in_dir.simps[of _ _ _ _ b]\<close>)
  qed
qed

lemma answer_then_Found: "answer_then m f = Found y \<longleftrightarrow> (\<exists>x. m = Found x \<and> f x = Found y)"
  by (cases m) auto

lemma resolve_walk_dir:
  "\<lbrakk>resolve_walk img sb num current parts = Found n; inode img sb num = Found current\<rbrakk> \<Longrightarrow> \<exists>dir. inode img sb n = Found dir \<and> is_dir (i_mode dir)"
  by (induction parts arbitrary: num current) (auto simp: answer_then_Found split: if_splits)

lemma resolve_dir:
  assumes "resolve_dir_inode_in img path = Found n" "superblock_of img = Some sb"
  shows "\<exists>dir. inode img sb n = Found dir \<and> is_dir (i_mode dir)"
  using assms resolve_walk_dir[of img sb 2] by (auto simp: resolve_dir_inode_in_def Let_def answer_then_Found split: if_splits)

text \<open>
  C25. Listing a directory and looking a name up in it agree: when a directory can be listed, the names of the list are exactly the names that are found in it,
  apart from the two entries for the directory itself and its parent.
\<close>

theorem listing_agrees_with_lookup:
  assumes "readdir_path_in img path = Found names"
  shows "\<exists>sb num dir. superblock_of img = Some sb \<and> resolve_dir_inode_in img path = Found num \<and> inode img sb num = Found dir
    \<and> is_dir (i_mode dir) \<and> (\<forall>name. is_dots name \<or> (name \<in> set names \<longleftrightarrow> (\<exists>n. find_inode_in_dir img sb dir name = Found n)))"
proof -
  obtain sb num dir where d: "superblock_of img = Some sb" "resolve_dir_inode_in img path = Found num" "inode img sb num = Found dir"
    "list_dir img sb dir 0 0 (unat (i_size dir)) [] = Some (Some names)"
    using assms by (auto simp: readdir_path_in_def answer_then_Found answer_of_def split: option.splits)
  have dir: "is_dir (i_mode dir)" using resolve_dir[OF d(2,1)] d(3) by auto
  have "name \<in> set names \<longleftrightarrow> (\<exists>n. find_inode_in_dir img sb dir name = Found n)" if "\<not> is_dots name" for name
    using list_dir_find[OF d(4) that] dir find_in_dir_returns[of img sb dir name 0 0 "unat (i_size dir)"]
    by (auto simp: find_inode_in_dir_def answer_of_def split: option.split)
  then show ?thesis using d(1-3) dir by blast
qed

end
