(* ===== verification/Small_Image.thy ===== *)
theory Small_Image
  imports Initfs
begin

text \<open>A concrete ext2 image on which the theorems about \<^theory_text>\<open>Initfs\<close> are applied.\<close>

section \<open>A small image\<close>

text \<open>
  Six blocks of a kilobyte: the superblock, one group, a root directory with the file \<^verbatim>\<open>a\<close> and its five bytes. The image is kept as a function, so that
  looking at a byte does not unfold the list.
\<close>

definition seg :: "(nat \<Rightarrow> u8) \<Rightarrow> nat \<Rightarrow> nat \<Rightarrow> bytes" where
  "seg f a b = map f [a..<b]"

definition small_byte :: "nat \<Rightarrow> u8" where
  "small_byte i = (case map_of [(1064, 16), (1080, 0x53), (1081, 0xEF), (1112, 128), (2056, 3), (3200, 0xED), (3201, 0x41), (3205, 4), (3240, 4),
     (3328, 0xA4), (3329, 0x81), (3332, 5), (3368, 5), (4096, 3), (4101, 4), (4102, 1), (4104, 97),
     (5120, 104), (5121, 101), (5122, 108), (5123, 108), (5124, 111)] i of Some b \<Rightarrow> b | None \<Rightarrow> 0)"

definition small_image :: bytes where "small_image = seg small_byte 0 6144"

definition small_sb :: superblock where
  "small_sb = \<lparr>sb_block_size = 1024, sb_inode_size = 128, sb_inodes_per_group = 16\<rparr>"

definition small_dir :: fs_inode where "small_dir = \<lparr>i_mode = 0x41ED, i_size = 1024, i_blocks = [4, 0, 0, 0, 0, 0, 0, 0, 0, 0, 0, 0, 0, 0, 0]\<rparr>"
definition small_file :: fs_inode where "small_file = \<lparr>i_mode = 0x81A4, i_size = 5, i_blocks = [5, 0, 0, 0, 0, 0, 0, 0, 0, 0, 0, 0, 0, 0, 0]\<rparr>"

lemma length_seg [simp]: "length (seg f a b) = b - a" by (simp add: seg_def)

lemma get_range_seg: "get_range (seg f c d) a b = (if a \<le> b \<and> b \<le> d - c then Some (seg f (c + a) (c + b)) else None)"
  by (auto simp: get_range_def seg_def add.assoc intro!: nth_equalityI)

lemma seg_nth: "i < d - c \<Longrightarrow> seg f c d ! i = f (c + i)"
  by (simp add: seg_def)

lemma seg_pair: "seg f a (Suc (Suc a)) = [f a, f (Suc a)]" "seg f a (a + 4) = [f a, f (a + 1), f (a + 2), f (a + 3)]"
  by (simp_all add: seg_def upt_conv_Cons numeral_eq_Suc)

lemma read_u16_seg: "read_u16 (seg f c d) off = (if off + 2 \<le> d - c then Some (from_le_bytes [f (c + off), f (c + off + 1)]) else None)"
  by (simp add: read_u16_def get_range_seg add.assoc[symmetric] seg_pair del: from_le_bytes.simps)

lemma read_u32_seg:
  "read_u32 (seg f c d) off = (if off + 4 \<le> d - c then Some (from_le_bytes [f (c + off), f (c + off + 1), f (c + off + 2), f (c + off + 3)]) else None)"
  by (simp add: read_u32_def get_range_seg add.assoc[symmetric] seg_pair del: from_le_bytes.simps)

lemmas seg_reads = read_u16_seg read_u32_seg get_range_seg block_slice_def small_image_def

lemma small_superblock: "superblock_of small_image = Some small_sb"
  by (simp add: superblock_of_def seg_reads EXT2_MAGIC_def small_byte_def checked_shl_def small_sb_def)

lemma small_group: "group_desc small_image small_sb 0 = Some 3"
  by (simp add: group_desc_def seg_reads small_sb_def small_byte_def)

lemma read_blocks_Suc: "read_blocks img off (numeral n) = do { b \<leftarrow> read_u32 img off; bs \<leftarrow> read_blocks img (off + 4) (pred_numeral n); Some (b # bs) }"
  by (simp add: numeral_eq_Suc)

lemma small_inodes: "inode small_image small_sb 2 = Found small_dir" "inode small_image small_sb 3 = Found small_file"
proof -
  have sb: "sb_inodes_per_group small_sb = 16" "sb_block_size small_sb = 1024" "sb_inode_size small_sb = 128" by (simp_all add: small_sb_def)
  show "inode small_image small_sb 2 = Found small_dir"
    by (simp add: inode_def small_group sb, simp add: seg_reads read_blocks_Suc answer_of_def del: from_le_bytes.simps)
       (simp add: small_byte_def small_dir_def)
  show "inode small_image small_sb 3 = Found small_file"
    by (simp add: inode_def small_group sb, simp add: seg_reads read_blocks_Suc answer_of_def del: from_le_bytes.simps)
       (simp add: small_byte_def small_file_def)
qed

lemma small_blocks:
  "data_block_number small_image small_sb small_dir 0 = Some 4" "data_block_number small_image small_sb small_file 0 = Some 5"
  by (simp_all add: data_block_number_def small_sb_def small_dir_def small_file_def Let_def)

lemma small_dir_turns:
  "dir_turn small_image small_sb small_dir 0 0 = DirEntry 3 1024 1 (seg small_byte 4096 5120)"
  by (simp add: dir_turn_def small_blocks)
     (simp add: small_sb_def seg_reads array_get_def seg_nth, simp add: small_byte_def)

lemma small_entry: "entry_name (seg small_byte 4096 5120) 0 1 = Some (str_bytes ''a'')"
proof -
  have "seg small_byte 4104 4105 = [97]" by (simp add: seg_def small_byte_def)
  then show ?thesis by (simp add: entry_name_def get_range_seg str_bytes_def)
qed

text \<open>The theorems at work on the image.\<close>

theorem read_inode_data_bytes_witness:
  "inode small_image small_sb 3 = Found small_file \<and> read_inode_data small_image small_sb 3 = Found (str_bytes ''hello'')"
proof -
  have f: "\<not> is_dir (i_mode small_file)" "sb_block_size small_sb \<noteq> 0" "unat (i_size small_file) = 5"
    by (simp_all add: is_dir_def small_file_def small_sb_def)
  have b: "block_slice small_image 1024 5 = Some (seg small_byte 5120 6144)" by (simp add: seg_reads)
  have "file_byte small_image small_sb small_file i = Some (small_byte (5120 + i))" if "i < 1024" for i
  proof -
    have sb: "sb_block_size small_sb = 1024" by (simp add: small_sb_def)
    show ?thesis unfolding file_byte_def sb using that b by (simp add: small_blocks seg_nth)
  qed
  then have "map (file_byte small_image small_sb small_file) [0..<5] = map (\<lambda>i. Some (small_byte (5120 + i))) [0..<5]"
    by (intro map_cong) auto
  moreover have "map (\<lambda>i. small_byte (5120 + i)) [0..<5] = str_bytes ''hello''"
    by (simp add: upt_conv_Cons, simp add: small_byte_def str_bytes_def)
  ultimately have "those (map (file_byte small_image small_sb small_file) [0..<5]) = Some (str_bytes ''hello'')"
    by (simp only: those_map_Some)
  then show ?thesis using read_inode_data_bytes[OF small_inodes(2) f(1,2)] small_inodes(2) f(3) by (simp add: answer_of_def)
qed

theorem listing_agrees_with_lookup_witness:
  "readdir_path_in small_image (str_bytes ''/'') = Found [str_bytes ''a'']
    \<and> (\<exists>sb dir n. superblock_of small_image = Some sb \<and> find_inode_in_dir small_image sb dir (str_bytes ''a'') = Found n)"
proof -
  have t: "trim_slashes (str_bytes ''/'') = []" by (simp add: trim_slashes_def str_bytes_def SLASH_def)
  have d: "is_dir (i_mode small_dir)" "unat (i_size small_dir) = 1024" by (simp_all add: small_dir_def is_dir_def)
  have "list_dir small_image small_sb small_dir 0 0 1024 [] = Some (Some [str_bytes ''a''])"
    by (subst list_dir.simps) (simp add: small_dir_turns small_entry[simplified] list_dir.simps, simp add: str_bytes_def)
  then have r: "readdir_path_in small_image (str_bytes ''/'') = Found [str_bytes ''a'']"
    by (simp add: readdir_path_in_def resolve_dir_inode_in_def small_superblock t small_inodes d answer_of_def)
  have "\<not> is_dots (str_bytes ''a'')" by (simp add: is_dots_def str_bytes_def)
  then obtain sb dir n where "superblock_of small_image = Some sb" "find_inode_in_dir small_image sb dir (str_bytes ''a'') = Found n"
    using listing_agrees_with_lookup[OF r] by fastforce
  then show ?thesis using r by blast
qed

end
