(* ===== verification/Elf.thy ===== *)
theory Elf
  imports Page_Tables Initfs
begin

text \<open>
  ELF images. \<^verbatim>\<open>src/src/core/elf/loader.rs\<close> parses headers field by field, \<^verbatim>\<open>src/src/core/task/elf.rs\<close> reads whole structures and loads an image
  into a page table, with its relocations. A file is a list of bytes. File offsets are \<^emph>\<open>usize\<close> values; the plain sums on them that leave the 64-bit
  range are \<^term>\<open>Stuck\<close> (or \<^term>\<open>Panics\<close>): they panic in a build with overflow checks and read outside the file in one without.
\<close>

section \<open>Headers\<close>

record elf_header =
  e_ident :: bytes
  e_type :: u16
  e_machine :: u16
  e_version :: u32
  e_entry :: u64
  e_phoff :: u64
  e_shoff :: u64
  e_flags :: u32
  e_ehsize :: u16
  e_phentsize :: u16
  e_phnum :: u16
  e_shentsize :: u16
  e_shnum :: u16
  e_shstrndx :: u16

record elf_phdr =
  ph_type :: u32
  ph_flags :: u32
  ph_offset :: u64
  ph_vaddr :: u64
  ph_paddr :: u64
  ph_filesz :: u64
  ph_memsz :: u64
  ph_align :: u64

definition field :: "bytes \<Rightarrow> nat \<Rightarrow> nat \<Rightarrow> 'a::len word" where
  "field data off n = from_le_bytes (take n (drop off data))"

text \<open>The structures as they lie in the file.\<close>

definition header_at :: "bytes \<Rightarrow> elf_header" where
  "header_at data =
    \<lparr>e_ident = take 16 data, e_type = field data 16 2, e_machine = field data 18 2, e_version = field data 20 4, e_entry = field data 24 8,
     e_phoff = field data 32 8, e_shoff = field data 40 8, e_flags = field data 48 4, e_ehsize = field data 52 2, e_phentsize = field data 54 2,
     e_phnum = field data 56 2, e_shentsize = field data 58 2, e_shnum = field data 60 2, e_shstrndx = field data 62 2\<rparr>"

definition phdr_at :: "bytes \<Rightarrow> nat \<Rightarrow> elf_phdr" where
  "phdr_at data off =
    \<lparr>ph_type = field data off 4, ph_flags = field data (off + 4) 4, ph_offset = field data (off + 8) 8, ph_vaddr = field data (off + 16) 8,
     ph_paddr = field data (off + 24) 8, ph_filesz = field data (off + 32) 8, ph_memsz = field data (off + 40) 8, ph_align = field data (off + 48) 8\<rparr>"

definition ELF_MAGIC :: bytes where "ELF_MAGIC = [0x7F, 0x45, 0x4C, 0x46]"
definition EM_X86_64 :: u16 where "EM_X86_64 = 0x3E"
definition PT_LOAD :: u32 where "PT_LOAD = 1"
definition PT_DYNAMIC :: u32 where "PT_DYNAMIC = 2"

section \<open>The parser of the loader\<close>

definition parse_elf_header :: "bytes \<Rightarrow> elf_header option" where
  "parse_elf_header data =
    (if length data < 64 then None
     else if take 4 data \<noteq> ELF_MAGIC then None
     else if field data 18 2 \<noteq> EM_X86_64 then None
     else Some (header_at data))"

definition parse_phdr :: "bytes \<Rightarrow> nat \<Rightarrow> elf_phdr answer" where
  "parse_phdr data off =
    (if off + 56 \<ge> 2 ^ 64 then Panics
     else if length data < off + 56 then Absent
     else Found (phdr_at data off))"

type_synonym loadable_segment = "u64 \<times> u64 \<times> u64 \<times> u64 \<times> u32"

fun loadable_from :: "bytes \<Rightarrow> nat \<Rightarrow> nat \<Rightarrow> nat list \<Rightarrow> loadable_segment list answer" where
  "loadable_from data phoff phentsize [] = Found []"
| "loadable_from data phoff phentsize (i # is) =
    (if phoff + i * phentsize \<ge> 2 ^ 64 then Panics
     else answer_then (parse_phdr data (phoff + i * phentsize)) (\<lambda>ph.
       answer_then (loadable_from data phoff phentsize is) (\<lambda>rest.
         Found (if ph_type ph = PT_LOAD then (ph_vaddr ph, ph_memsz ph, ph_filesz ph, ph_offset ph, ph_flags ph) # rest else rest))))"

definition list_loadable_segments :: "bytes \<Rightarrow> loadable_segment list answer" where
  "list_loadable_segments data =
    (case parse_elf_header data of
       None \<Rightarrow> Absent
     | Some eh \<Rightarrow> loadable_from data (unat (e_phoff eh)) (unat (e_phentsize eh)) [0..<unat (e_phnum eh)])"

definition entry_point :: "bytes \<Rightarrow> u64 option" where
  "entry_point data = map_option e_entry (parse_elf_header data)"

section \<open>Reading whole structures\<close>

definition parse_header :: "bytes \<Rightarrow> elf_header kres" where
  "parse_header data = (if length data < 64 then Err InvalidParam else Ok (header_at data))"

definition validate_header :: "elf_header \<Rightarrow> unit kres" where
  "validate_header h =
    (if take 4 (e_ident h) \<noteq> ELF_MAGIC then Err InvalidParam
     else if e_ident h ! 4 \<noteq> 2 \<or> e_ident h ! 5 \<noteq> 1 then Err InvalidParam
     else if e_machine h \<noteq> EM_X86_64 then Err InvalidParam
     else if e_phentsize h \<noteq> 56 then Err InvalidParam
     else Ok ())"

definition read_struct :: "nat \<Rightarrow> (bytes \<Rightarrow> nat \<Rightarrow> 'a) \<Rightarrow> bytes \<Rightarrow> nat \<Rightarrow> 'a kres" where
  "read_struct sz at data off =
    (if off + sz \<ge> 2 ^ 64 then Stuck
     else if off + sz > length data then Err InvalidParam
     else Ok (at data off))"

definition read_phdr :: "bytes \<Rightarrow> nat \<Rightarrow> elf_phdr kres" where
  "read_phdr data off = read_struct 56 phdr_at data off"

definition read_dyn :: "bytes \<Rightarrow> nat \<Rightarrow> (u64 \<times> u64) kres" where
  "read_dyn data off = read_struct 16 (\<lambda>d o'. (field d o' 8, field d (o' + 8) 8)) data off"

definition read_rela :: "bytes \<Rightarrow> nat \<Rightarrow> (u64 \<times> u64 \<times> u64) kres" where
  "read_rela data off = read_struct 24 (\<lambda>d o'. (field d o' 8, field d (o' + 8) 8, field d (o' + 16) 8)) data off"

text \<open>The position of a program header, with the checked operations of the source.\<close>

definition phdr_offset :: "elf_header \<Rightarrow> nat \<Rightarrow> nat option" where
  "phdr_offset h i =
    (let x = i * unat (e_phentsize h); off = unat (e_phoff h) + x in if x < 2 ^ 64 \<and> off < 2 ^ 64 then Some off else None)"

text \<open>The loops over the program headers start by reading the header.\<close>

definition phdr_number :: "bytes \<Rightarrow> elf_header \<Rightarrow> nat \<Rightarrow> elf_phdr kres" where
  "phdr_number data h i = (case phdr_offset h i of None \<Rightarrow> Err InvalidParam | Some off \<Rightarrow> read_phdr data off)"

section \<open>Loading\<close>

definition load_segment :: "x86 \<Rightarrow> u64 \<Rightarrow> bytes \<Rightarrow> u64 \<Rightarrow> elf_phdr \<Rightarrow> vm \<Rightarrow> unit kres \<times> vm" where
  "load_segment X table_phys data load_bias ph v =
    (if ph_type ph \<noteq> PT_LOAD then (Ok (), v)
     else if ph_memsz ph = 0 then (Ok (), v)
     else if ph_filesz ph > ph_memsz ph then (Err (KMemory InvalidAddress), v)
     else case checked_add (ph_offset ph) (ph_filesz ph) of
         None \<Rightarrow> (Err (KMemory InvalidAddress), v)
       | Some file_end \<Rightarrow>
           if unat file_end > length data then (Err (KMemory InvalidAddress), v)
           else let vaddr = ph_vaddr ph + load_bias;
                    seg_src = take (unat (ph_filesz ph)) (drop (unat (ph_offset ph)) data);
                    writable = (ph_flags ph AND 2 \<noteq> 0); executable = (ph_flags ph AND 1 \<noteq> 0)
                in if writable \<and> executable then (Err (KMemory PermissionDenied), v)
                   else map_and_copy_segment_to X table_phys vaddr (ph_filesz ph) (ph_memsz ph) seg_src writable executable v)"

definition load_segments :: "x86 \<Rightarrow> u64 \<Rightarrow> bytes \<Rightarrow> elf_header \<Rightarrow> u64 \<Rightarrow> vm \<Rightarrow> unit kres \<times> vm" where
  "load_segments X table_phys data h load_bias =
    kfor [0..<unat (e_phnum h)] (\<lambda>i. kbind (klift (phdr_number data h i)) (load_segment X table_phys data load_bias))"

section \<open>Relocations\<close>

text \<open>A loop over the program headers that only reads, with what it has collected.\<close>

fun phdr_fold :: "bytes \<Rightarrow> elf_header \<Rightarrow> (elf_phdr \<Rightarrow> 'a \<Rightarrow> 'a kres) \<Rightarrow> nat list \<Rightarrow> 'a \<Rightarrow> 'a kres" where
  "phdr_fold data h f [] acc = Ok acc"
| "phdr_fold data h f (i # is) acc =
    (case phdr_number data h i of
       Ok ph \<Rightarrow> (case f ph acc of Ok acc \<Rightarrow> phdr_fold data h f is acc | Err e \<Rightarrow> Err e | Stuck \<Rightarrow> Stuck)
     | Err e \<Rightarrow> Err e
     | Stuck \<Rightarrow> Stuck)"

definition load_ranges :: "bytes \<Rightarrow> elf_header \<Rightarrow> u64 \<Rightarrow> (u64 \<times> u64) list kres" where
  "load_ranges data h load_bias =
    phdr_fold data h (\<lambda>ph ranges.
      if ph_type ph \<noteq> PT_LOAD \<or> ph_memsz ph = 0 then Ok ranges
      else let start = ph_vaddr ph + load_bias
           in case checked_add start (ph_memsz ph) of None \<Rightarrow> Err InvalidParam | Some e \<Rightarrow> Ok (ranges @ [(start, e)])) [0..<unat (e_phnum h)] []"

fun dynamic_from :: "bytes \<Rightarrow> elf_header \<Rightarrow> nat list \<Rightarrow> (nat \<times> nat) option kres" where
  "dynamic_from data h [] = Ok None"
| "dynamic_from data h (i # is) =
    (case phdr_number data h i of
       Ok ph \<Rightarrow> if ph_type ph = PT_DYNAMIC then Ok (Some (unat (ph_offset ph), unat (ph_filesz ph))) else dynamic_from data h is
     | Err e \<Rightarrow> Err e
     | Stuck \<Rightarrow> Stuck)"

definition dynamic_file_range :: "bytes \<Rightarrow> elf_header \<Rightarrow> (nat \<times> nat) option kres" where
  "dynamic_file_range data h = dynamic_from data h [0..<unat (e_phnum h)]"

fun offset_from :: "bytes \<Rightarrow> elf_header \<Rightarrow> u64 \<Rightarrow> nat list \<Rightarrow> nat kres" where
  "offset_from data h vaddr [] = Err InvalidParam"
| "offset_from data h vaddr (i # is) =
    (case phdr_number data h i of
       Ok ph \<Rightarrow>
         if ph_type ph \<noteq> PT_LOAD then offset_from data h vaddr is
         else (case checked_add (ph_vaddr ph) (ph_memsz ph) of
             None \<Rightarrow> Err InvalidParam
           | Some e \<Rightarrow>
               if vaddr \<ge> ph_vaddr ph \<and> vaddr < e then
                 (case checked_add (ph_offset ph) (vaddr - ph_vaddr ph) of
                    None \<Rightarrow> Stuck
                  | Some file_off \<Rightarrow> if unat file_off \<ge> length data then Err InvalidParam else Ok (unat file_off))
               else offset_from data h vaddr is)
     | Err e \<Rightarrow> Err e
     | Stuck \<Rightarrow> Stuck)"

definition vaddr_to_offset :: "bytes \<Rightarrow> elf_header \<Rightarrow> u64 \<Rightarrow> nat kres" where
  "vaddr_to_offset data h vaddr = offset_from data h vaddr [0..<unat (e_phnum h)]"

text \<open>The dynamic section: the last address, size and entry size of the relocation table before the end mark.\<close>

fun scan_dynamic :: "bytes \<Rightarrow> nat \<Rightarrow> nat list \<Rightarrow> u64 option \<times> u64 option \<times> u64 option \<Rightarrow> (u64 option \<times> u64 option \<times> u64 option) kres" where
  "scan_dynamic data dyn_off [] found = Ok found"
| "scan_dynamic data dyn_off (i # is) (addr, sz, ent) =
    (if dyn_off + i * 16 \<ge> 2 ^ 64 then Stuck
     else case read_dyn data (dyn_off + i * 16) of
         Ok (tag, val) \<Rightarrow>
           if tag = 0 then Ok (addr, sz, ent)
           else scan_dynamic data dyn_off is
             (if tag = 7 then (Some val, sz, ent) else if tag = 8 then (addr, Some val, ent) else if tag = 9 then (addr, sz, Some val) else (addr, sz, ent))
       | Err e \<Rightarrow> Err e
       | Stuck \<Rightarrow> Stuck)"

definition write_user_u64_in_table :: "x86 \<Rightarrow> u64 \<Rightarrow> u64 \<Rightarrow> u64 \<Rightarrow> vm \<Rightarrow> unit kres \<times> vm" where
  "write_user_u64_in_table X table_phys user_addr val = copy_to_user_in_table X table_phys user_addr (to_le_bytes val)"

definition apply_relocation :: "x86 \<Rightarrow> u64 \<Rightarrow> (u64 \<times> u64) list \<Rightarrow> u64 \<Rightarrow> u64 \<times> u64 \<times> u64 \<Rightarrow> vm \<Rightarrow> unit kres \<times> vm" where
  "apply_relocation X table_phys ranges load_bias rela v =
    (case rela of (r_offset, r_info, r_addend) \<Rightarrow>
       if ucast (r_info AND 0xffffffff) \<noteq> (8 :: u32) then (Ok (), v)
       else let reloc_vaddr = load_bias + r_offset
            in case checked_add reloc_vaddr 8 of
                 None \<Rightarrow> (Err InvalidParam, v)
               | Some reloc_end \<Rightarrow>
                   if \<not> list_ex (\<lambda>(s, e). reloc_vaddr \<ge> s \<and> reloc_end \<le> e) ranges then (Err InvalidParam, v)
                   else write_user_u64_in_table X table_phys reloc_vaddr (load_bias + r_addend) v)"

definition relocate_number :: "x86 \<Rightarrow> u64 \<Rightarrow> bytes \<Rightarrow> (u64 \<times> u64) list \<Rightarrow> u64 \<Rightarrow> nat \<Rightarrow> nat \<Rightarrow> nat \<Rightarrow> vm \<Rightarrow> unit kres \<times> vm" where
  "relocate_number X table_phys data ranges load_bias rela_off rela_ent i =
    (if rela_off + i * rela_ent \<ge> 2 ^ 64 then klift Stuck
     else kbind (klift (read_rela data (rela_off + i * rela_ent))) (apply_relocation X table_phys ranges load_bias))"

definition apply_relocations_to :: "x86 \<Rightarrow> u64 \<Rightarrow> bytes \<Rightarrow> elf_header \<Rightarrow> u64 \<Rightarrow> vm \<Rightarrow> unit kres \<times> vm" where
  "apply_relocations_to X table_phys data h load_bias =
    kbind (klift (load_ranges data h load_bias)) (\<lambda>ranges.
    kbind (klift (dynamic_file_range data h)) (\<lambda>dyn.
    kbind (klift (case dyn of
        None \<Rightarrow> Ok (None, None, None)
      | Some (dyn_off, dyn_size) \<Rightarrow> scan_dynamic data dyn_off [0..<dyn_size div 16] (None, None, None))) (\<lambda>found.
      case found of
        (Some rela_addr, Some rela_size, ent) \<Rightarrow>
          (let rela_ent = (case ent of Some e \<Rightarrow> unat e | None \<Rightarrow> 24)
           in if rela_ent < 24 \<or> unat rela_size mod rela_ent \<noteq> 0 then klift (Err InvalidParam)
              else kbind (klift (vaddr_to_offset data h rela_addr)) (\<lambda>rela_off.
                kfor [0..<unat rela_size div rela_ent] (relocate_number X table_phys data ranges load_bias rela_off rela_ent)))
      | _ \<Rightarrow> klift (Ok ()))))"

section \<open>Loading an image\<close>

record loaded_elf =
  le_entry :: u64
  le_load_bias :: u64
  le_stack_top :: u64
  le_stack_bottom :: u64

definition elf_aslr_mix64 :: "u64 \<Rightarrow> u64" where
  "elf_aslr_mix64 x =
    (let x = x XOR drop_bit 30 x; x = x * 0xbf58476d1ce4e5b9;
         x = x XOR drop_bit 27 x; x = x * 0x94d049bb133111eb
     in x XOR drop_bit 31 x)"

text \<open>
  What the processor and the clock add to the choice of addresses: the entropy gathered at boot, the random number of the processor when it has one,
  and the ticks.
\<close>

record entropy =
  en_boot :: u64
  en_hw :: "u64 option"
  en_ticks :: u64

definition PIE_LOAD_BIAS :: u64 where "PIE_LOAD_BIAS = 0x20000000"
definition PIE_ASLR_WINDOW_PAGES :: u64 where "PIE_ASLR_WINDOW_PAGES = 0x4000"

definition next_pie_load_bias :: "entropy \<Rightarrow> u64 \<Rightarrow> u64 \<times> u64" where
  "next_pie_load_bias en counter =
    (let counter = (if counter = 0 then let i = en_boot en XOR 0xa726f38dc9415e2b in if i = 0 then 1 else i else counter);
         hw = (case en_hw en of Some r \<Rightarrow> r | None \<Rightarrow> 0);
         offset_pages = elf_aslr_mix64 (counter XOR word_rotl 13 (en_ticks en) XOR word_rotl 11 hw XOR en_boot en) mod PIE_ASLR_WINDOW_PAGES
     in (PIE_LOAD_BIAS + offset_pages * 4096, counter + 0x9e3779b97f4a7c15))"

text \<open>The static counter beside the tables: an operation on the tables leaves it alone.\<close>

definition on_vm :: "(vm \<Rightarrow> 'a kres \<times> vm) \<Rightarrow> u64 \<times> vm \<Rightarrow> 'a kres \<times> u64 \<times> vm" where
  "on_vm f cv = (case f (snd cv) of (r, v) \<Rightarrow> (r, fst cv, v))"

definition choose_load_bias :: "entropy \<Rightarrow> elf_header \<Rightarrow> u64 \<times> vm \<Rightarrow> u64 kres \<times> u64 \<times> vm" where
  "choose_load_bias en h cv =
    (if e_type h = 3 then case next_pie_load_bias en (fst cv) of (bias, counter) \<Rightarrow> (Ok bias, counter, snd cv) else (Ok 0, cv))"

definition load_elf_into :: "x86 \<Rightarrow> entropy \<Rightarrow> u64 \<Rightarrow> bytes \<Rightarrow> u64 \<times> vm \<Rightarrow> loaded_elf kres \<times> u64 \<times> vm" where
  "load_elf_into X en table_phys data =
    kbind (klift (parse_header data)) (\<lambda>h.
    kbind (klift (validate_header h)) (\<lambda>_.
    kbind (choose_load_bias en h) (\<lambda>load_bias.
    kbind (on_vm (load_segments X table_phys data h load_bias)) (\<lambda>_.
    kbind (if load_bias \<noteq> 0 then on_vm (apply_relocations_to X table_phys data h load_bias) else kreturn ()) (\<lambda>_.
    kbind (on_vm (alloc_user_stack_in_table X table_phys 8)) (\<lambda>stack.
      kreturn \<lparr>le_entry = e_entry h + load_bias, le_load_bias = load_bias, le_stack_top = us_top stack, le_stack_bottom = us_bottom stack\<rparr>))))))"

section \<open>Lemmas\<close>

lemma parse_header_validated:
  "parse_header data = Ok h \<and> validate_header h = Ok () \<longleftrightarrow>
    parse_elf_header data = Some h \<and> e_ident h ! 4 = 2 \<and> e_ident h ! 5 = 1 \<and> e_phentsize h = 56"
  by (auto simp: parse_header_def parse_elf_header_def validate_header_def header_at_def split: if_splits)

lemma kfor_Ok: "kfor xs body s = (Ok (), s') \<Longrightarrow> x \<in> set xs \<Longrightarrow> \<exists>s1 s2. body x s1 = (Ok (), s2)"
  by (induction xs arbitrary: s) (auto simp: kbind.simps split: prod.splits kres.splits)

lemma klift_Ok: "klift r s = (Ok a, s') \<longleftrightarrow> r = Ok a \<and> s' = s"
  by (auto simp: klift_def)

text \<open>A segment that was loaded is one the loader accepts.\<close>

definition segment_accepted :: "bytes \<Rightarrow> elf_phdr \<Rightarrow> bool" where
  "segment_accepted data ph \<longleftrightarrow> ph_filesz ph \<le> ph_memsz ph \<and> unat (ph_offset ph) + unat (ph_filesz ph) \<le> length data
    \<and> \<not> (ph_flags ph AND 2 \<noteq> 0 \<and> ph_flags ph AND 1 \<noteq> 0)"

lemma load_segment_accepted:
  assumes "load_segment X t data bias ph v = (Ok (), v')" "ph_type ph = PT_LOAD" "ph_memsz ph \<noteq> 0"
  shows "segment_accepted data ph"
  using assms
  by (auto simp: load_segment_def segment_accepted_def Let_def not_less dest!: checked_add_Some(1) split: if_splits option.splits)

section \<open>Where relocations write\<close>

definition writes_within :: "x86 \<Rightarrow> u64 \<Rightarrow> u64 set \<Rightarrow> (vm \<Rightarrow> 'a kres \<times> vm) \<Rightarrow> bool" where
  "writes_within X t A f \<longleftrightarrow> (\<forall>v r v' phys_off. vm_phys_offset v = Some phys_off \<longrightarrow> unat phys_off + 2 ^ 53 \<le> 2 ^ 64 \<longrightarrow>
    tables_protected X v t \<longrightarrow> f v = (r, v') \<longrightarrow>
    (\<exists>m. v' = v\<lparr>vm_mem := m\<rparr> \<and> (\<forall>x. m x \<noteq> vm_mem v x \<longrightarrow> (\<exists>a\<in>A. \<exists>off. translate_user_addr_in_table X v t a True = Some (x, off)))))"

lemma writes_withinD:
  assumes "writes_within X t A f" "vm_phys_offset v = Some phys_off" "unat phys_off + 2 ^ 53 \<le> 2 ^ 64" "tables_protected X v t" "f v = (r, v')"
  obtains m where "v' = v\<lparr>vm_mem := m\<rparr>" "\<And>x. m x \<noteq> vm_mem v x \<Longrightarrow> \<exists>a\<in>A. \<exists>off. translate_user_addr_in_table X v t a True = Some (x, off)"
  using assms unfolding writes_within_def by blast

lemma writes_within_same: "(\<And>v. snd (f v) = v) \<Longrightarrow> writes_within X t A f"
  unfolding writes_within_def by (metis snd_conv vm.surjective vm.update_convs(1))

lemma writes_within_klift [intro]: "writes_within X t A (klift r)"
  by (rule writes_within_same) (simp add: klift_def)

lemma writes_within_kbind:
  assumes f: "writes_within X t A f" and g: "\<And>a. writes_within X t A (g a)"
  shows "writes_within X t A (kbind f g)"
  unfolding writes_within_def
proof (intro allI impI)
  fix v r v' po
  assume po: "vm_phys_offset v = Some po" "unat po + 2 ^ 53 \<le> 2 ^ 64" and prot: "tables_protected X v t" and e: "kbind f g v = (r, v')"
  obtain r1 v1 where v1: "f v = (r1, v1)" by fastforce
  obtain m where m: "v1 = v\<lparr>vm_mem := m\<rparr>" "\<And>x. m x \<noteq> vm_mem v x \<Longrightarrow> \<exists>a\<in>A. \<exists>off. translate_user_addr_in_table X v t a True = Some (x, off)"
    using writes_withinD[OF f po prot v1] by blast
  show "\<exists>m. v' = v\<lparr>vm_mem := m\<rparr> \<and> (\<forall>x. m x \<noteq> vm_mem v x \<longrightarrow> (\<exists>a\<in>A. \<exists>off. translate_user_addr_in_table X v t a True = Some (x, off)))"
  proof (cases "\<exists>a. r1 = Ok a")
    case False
    then have "v' = v1" using e v1 by (cases r1) (auto simp: kbind.simps)
    then show ?thesis using m by blast
  next
    case True
    then obtain a where e': "g a v1 = (r, v')" using e v1 by (auto simp: kbind.simps)
    have w: "\<forall>x. m x \<noteq> vm_mem v x \<longrightarrow> x \<in> writable_bytes X v t" using m(2) unfolding writable_bytes_def by blast
    have po1: "vm_phys_offset v1 = Some po" using po(1) m(1) by simp
    have prot1: "tables_protected X v1 t" using tables_protected_write(1)[OF prot w] m(1) by simp
    have tr: "translate_user_addr_in_table X v1 t b True = translate_user_addr_in_table X v t b True" for b
      using tables_protected_write(2)[OF prot w] m(1) by simp
    obtain m' where m': "v' = v1\<lparr>vm_mem := m'\<rparr>"
        "\<And>x. m' x \<noteq> vm_mem v1 x \<Longrightarrow> \<exists>a\<in>A. \<exists>off. translate_user_addr_in_table X v1 t a True = Some (x, off)"
      using writes_withinD[OF g po1 po(2) prot1 e'] by blast
    have "v' = v\<lparr>vm_mem := m'\<rparr>" using m'(1) m(1) by simp
    moreover have "\<exists>a\<in>A. \<exists>off. translate_user_addr_in_table X v t a True = Some (x, off)" if "m' x \<noteq> vm_mem v x" for x
      using m(2)[of x] m'(2)[of x] that m(1) tr by fastforce
    ultimately show ?thesis by blast
  qed
qed

lemma writes_within_klift_bind:
  assumes "\<And>a. r = Ok a \<Longrightarrow> writes_within X t A (g a)"
  shows "writes_within X t A (kbind (klift r) g)"
proof (cases r)
  case (Ok a)
  then have "kbind (klift r) g = g a" by (simp add: fun_eq_iff kbind.simps klift_def)
  then show ?thesis using assms Ok by simp
qed (auto intro: writes_within_same simp: kbind.simps klift_def)

lemma writes_within_kfor: "(\<And>x. writes_within X t A (body x)) \<Longrightarrow> writes_within X t A (kfor xs body)"
proof (induction xs)
  case (Cons x xs)
  have "kfor (x # xs) body = kbind (body x) (\<lambda>_. kfor xs body)" by (simp add: fun_eq_iff)
  then show ?case using writes_within_kbind Cons by metis
qed (auto intro: writes_within_same)

lemma writes_within_copy:
  assumes "x86_laws X" "length src < 2 ^ 64" "\<And>i. i < length src \<Longrightarrow> dst + of_nat i \<in> A"
  shows "writes_within X t A (copy_to_user_in_table X t dst src)"
  unfolding writes_within_def
proof (intro allI impI)
  fix v r v' po
  assume "vm_phys_offset v = Some po" "unat po + 2 ^ 53 \<le> 2 ^ 64" "tables_protected X v t" "copy_to_user_in_table X t dst src v = (r, v')"
  then show "\<exists>m. v' = v\<lparr>vm_mem := m\<rparr> \<and> (\<forall>x. m x \<noteq> vm_mem v x \<longrightarrow> (\<exists>a\<in>A. \<exists>off. translate_user_addr_in_table X v t a True = Some (x, off)))"
    using copy_to_user_changes[OF assms(1) _ _ assms(2)] assms(3) by meson
qed

text \<open>The addresses of the bytes of the loaded segments.\<close>

definition range_bytes :: "(u64 \<times> u64) list \<Rightarrow> u64 set" where
  "range_bytes ranges = {a. \<exists>(s, e)\<in>set ranges. s \<le> a \<and> a < e}"

lemma apply_relocation_within:
  assumes "x86_laws X"
  shows "writes_within X t (range_bytes ranges) (apply_relocation X t ranges bias rela)"
proof -
  obtain ro ri ra where rela: "rela = (ro, ri, ra)" by (cases rela)
  let ?a = "bias + ro"
  have same: "writes_within X t (range_bytes ranges) (\<lambda>v. (q, v))" for q :: "unit kres" by (rule writes_within_same) simp
  have w: "writes_within X t (range_bytes ranges) (write_user_u64_in_table X t ?a x)"
    if c: "checked_add ?a 8 = Some e" and r: "(s, f) \<in> set ranges" "s \<le> ?a" "e \<le> f" for e s f x
    unfolding write_user_u64_in_table_def
  proof (rule writes_within_copy[OF assms])
    fix i assume "i < length (to_le_bytes x)"
    then have i: "i < 8" by simp
    have e: "unat e = unat ?a + 8" using checked_add_Some(1)[OF c] by simp
    then have "unat (?a + of_nat i) = unat ?a + i" using i unat_u64_lt[of e] by (simp add: unat_word_ariths(1) unat_of_nat)
    then have "s \<le> ?a + of_nat i" "?a + of_nat i < f" using r e i unfolding word_le_nat_alt word_less_nat_alt by linarith+
    then show "?a + of_nat i \<in> range_bytes ranges" using r(1) by (auto simp: range_bytes_def)
  qed simp
  show ?thesis
  proof (cases "ucast (ri AND 0xffffffff) \<noteq> (8 :: u32)")
    case False
    show ?thesis
    proof (cases "checked_add ?a 8")
      case None
      then show ?thesis using False same by (simp add: apply_relocation_def[abs_def] rela)
    next
      case (Some e)
      show ?thesis
      proof (cases "list_ex (\<lambda>(s, f). ?a \<ge> s \<and> e \<le> f) ranges")
        case True
        then obtain s f where "(s, f) \<in> set ranges" "s \<le> ?a" "e \<le> f" by (auto simp: list_ex_iff)
        then show ?thesis using w[OF Some] False Some True by (simp add: apply_relocation_def[abs_def] rela)
      qed (use False Some same in \<open>simp add: apply_relocation_def[abs_def] rela\<close>)
    qed
  qed (use same in \<open>simp add: apply_relocation_def[abs_def] rela\<close>)
qed

lemma phdr_fold_keeps:
  assumes "phdr_fold data h f is acc = Ok acc'" "P acc"
    "\<And>i ph a a'. \<lbrakk>i \<in> set is; phdr_number data h i = Ok ph; f ph a = Ok a'; P a\<rbrakk> \<Longrightarrow> P a'"
  shows "P acc'"
  using assms
proof (induction "is" arbitrary: acc)
  case (Cons i "is")
  then obtain ph a where "phdr_number data h i = Ok ph" "f ph acc = Ok a" "phdr_fold data h f is a = Ok acc'"
    by (auto split: kres.splits)
  then show ?case using Cons by (metis list.set_intros)
qed simp

text \<open>Each range is the memory of a loadable segment.\<close>

definition segment_range :: "bytes \<Rightarrow> elf_header \<Rightarrow> u64 \<Rightarrow> u64 \<times> u64 \<Rightarrow> bool" where
  "segment_range data h bias se \<longleftrightarrow> (\<exists>i < unat (e_phnum h). \<exists>ph. phdr_number data h i = Ok ph \<and> ph_type ph = PT_LOAD
    \<and> fst se = ph_vaddr ph + bias \<and> unat (snd se) = unat (fst se) + unat (ph_memsz ph))"

lemma load_ranges_segments: "load_ranges data h bias = Ok ranges \<Longrightarrow> \<forall>se\<in>set ranges. segment_range data h bias se"
  unfolding load_ranges_def
proof (erule phdr_fold_keeps)
  fix i ph a a'
  assume "i \<in> set [0..<unat (e_phnum h)]" "phdr_number data h i = Ok ph" "\<forall>se\<in>set a. segment_range data h bias se"
    "(if ph_type ph \<noteq> PT_LOAD \<or> ph_memsz ph = 0 then Ok a
      else let start = ph_vaddr ph + bias in case checked_add start (ph_memsz ph) of None \<Rightarrow> Err InvalidParam | Some e \<Rightarrow> Ok (a @ [(start, e)])) = Ok a'"
  moreover have "segment_range data h bias (ph_vaddr ph + bias, e)" if "checked_add (ph_vaddr ph + bias) (ph_memsz ph) = Some e" "ph_type ph = PT_LOAD" for e
    using calculation(1,2) that checked_add_Some(1)[OF that(1)] by (auto simp: segment_range_def)
  ultimately show "\<forall>se\<in>set a'. segment_range data h bias se"
    by (auto simp: Let_def split: if_splits option.splits)
qed simp

definition segment_bytes :: "bytes \<Rightarrow> elf_header \<Rightarrow> u64 \<Rightarrow> u64 set" where
  "segment_bytes data h bias = {a. \<exists>s e. segment_range data h bias (s, e) \<and> s \<le> a \<and> a < e}"

lemma apply_relocations_within:
  assumes X: "x86_laws X"
  shows "writes_within X t (segment_bytes data h bias) (apply_relocations_to X t data h bias)"
    (is "writes_within X t ?A _")
proof -
  have mono: "writes_within X t ?A f" if "writes_within X t (range_bytes ranges) f" "load_ranges data h bias = Ok ranges"
    for ranges and f :: "vm \<Rightarrow> unit kres \<times> vm"
  proof -
    have "range_bytes ranges \<subseteq> ?A" using load_ranges_segments[OF that(2)] by (force simp: range_bytes_def segment_bytes_def)
    then show ?thesis using that(1) unfolding writes_within_def by (meson subsetD)
  qed
  have one: "writes_within X t ?A (relocate_number X t data ranges bias ro re i)" if "load_ranges data h bias = Ok ranges" for ranges ro re i
    unfolding relocate_number_def
    using mono[OF apply_relocation_within[OF X] that] by (auto intro!: writes_within_klift_bind)
  show ?thesis
    unfolding apply_relocations_to_def
    by (intro writes_within_klift_bind)
      (auto intro!: writes_within_klift_bind writes_within_kfor one simp: Let_def split: prod.split option.split)
qed

lemma kreturn_Ok: "kreturn a s = (Ok b, s') \<longleftrightarrow> a = b \<and> s' = s"
  by (auto simp: kreturn_def)

section \<open>The address of a position-independent image\<close>

lemma pie_bias_unat:
  "\<exists>k < 0x4000. unat (fst (next_pie_load_bias en counter)) = 0x20000000 + k * 4096"
proof -
  have "unat (PIE_LOAD_BIAS + x mod PIE_ASLR_WINDOW_PAGES * 4096) = 0x20000000 + unat (x mod PIE_ASLR_WINDOW_PAGES) * 4096
      \<and> unat (x mod PIE_ASLR_WINDOW_PAGES) < 0x4000" for x :: u64
  proof -
    have "unat (x mod PIE_ASLR_WINDOW_PAGES) < 0x4000" by (simp add: PIE_ASLR_WINDOW_PAGES_def unat_mod)
    then show ?thesis by (simp add: PIE_LOAD_BIAS_def unat_word_ariths)
  qed
  then show ?thesis unfolding next_pie_load_bias_def Let_def fst_conv by blast
qed

lemma on_vm_Ok: "on_vm f (c, v) = (Ok a, c', v') \<longleftrightarrow> f v = (Ok a, v') \<and> c' = c"
  by (auto simp: on_vm_def split: prod.splits)

lemma load_elf_into_Ok:
  assumes "load_elf_into X en t data (counter, v) = (Ok l, counter', v')"
  obtains h c1 v1 v2 s where "parse_header data = Ok h" "validate_header h = Ok ()"
    "choose_load_bias en h (counter, v) = (Ok (le_load_bias l), c1, v)" "load_segments X t data h (le_load_bias l) v = (Ok (), v1)"
    "alloc_user_stack_in_table X t 8 v2 = (Ok s, v')"
    "le_entry l = e_entry h + le_load_bias l" "le_stack_top l = us_top s" "le_stack_bottom l = us_bottom s"
proof -
  from assms obtain h bias c1 u1 c2 v1 c3 v2 s c4 where e: "parse_header data = Ok h" "validate_header h = Ok ()"
    "choose_load_bias en h (counter, v) = (Ok bias, c1, u1)" "on_vm (load_segments X t data h bias) (c1, u1) = (Ok (), c2, v1)"
    "on_vm (alloc_user_stack_in_table X t 8) (c3, v2) = (Ok s, c4, v')"
    "l = \<lparr>le_entry = e_entry h + bias, le_load_bias = bias, le_stack_top = us_top s, le_stack_bottom = us_bottom s\<rparr>"
    unfolding load_elf_into_def by (simp only: kbind_Ok klift_Ok kreturn_Ok) force
  moreover have "u1 = v" using e(3) by (auto simp: choose_load_bias_def split: if_splits prod.splits)
  ultimately show ?thesis using that[of h c1 v1 v2 s] by (simp add: on_vm_Ok)
qed

section \<open>Properties\<close>

text \<open>
  C20. Relocations are confined to the image: whatever an image says in its dynamic section and its relocation table, applying them
  changes no byte of memory but those that some loadable segment of the image covers and that the page tables let the user write.
  The tables themselves stay as they are, also when the call ends with an error.
\<close>

theorem relocations_confined:
  assumes "x86_laws X" "vm_phys_offset v = Some phys_off" "unat phys_off + 2 ^ 53 \<le> 2 ^ 64" "tables_protected X v t"
    "apply_relocations_to X t data h bias v = (r, v')"
  shows "\<exists>m. v' = v\<lparr>vm_mem := m\<rparr> \<and> (\<forall>x. m x \<noteq> vm_mem v x \<longrightarrow> (\<exists>a. user_may_write X v t a x \<and>
    (\<exists>i < unat (e_phnum h). \<exists>ph. phdr_number data h i = Ok ph \<and> ph_type ph = PT_LOAD
      \<and> unat (ph_vaddr ph + bias) \<le> unat a \<and> unat a < unat (ph_vaddr ph + bias) + unat (ph_memsz ph))))"
proof -
  obtain m where m: "v' = v\<lparr>vm_mem := m\<rparr>"
      "\<And>x. m x \<noteq> vm_mem v x \<Longrightarrow> \<exists>a\<in>segment_bytes data h bias. \<exists>off. translate_user_addr_in_table X v t a True = Some (x, off)"
    using writes_withinD[OF apply_relocations_within[OF assms(1)] assms(2-5)] by blast
  have "\<exists>a. user_may_write X v t a x \<and> (\<exists>i < unat (e_phnum h). \<exists>ph. phdr_number data h i = Ok ph \<and> ph_type ph = PT_LOAD
      \<and> unat (ph_vaddr ph + bias) \<le> unat a \<and> unat a < unat (ph_vaddr ph + bias) + unat (ph_memsz ph))"
    if x: "m x \<noteq> vm_mem v x" for x
  proof -
    obtain a off where a: "a \<in> segment_bytes data h bias" "translate_user_addr_in_table X v t a True = Some (x, off)"
      using m(2)[OF x] by blast
    from a(1) obtain s e i ph where "s \<le> a" "a < e" "i < unat (e_phnum h)" "phdr_number data h i = Ok ph" "ph_type ph = PT_LOAD"
      "s = ph_vaddr ph + bias" "unat e = unat s + unat (ph_memsz ph)"
      by (auto simp: segment_bytes_def segment_range_def)
    then show ?thesis using translate_user_may_write[OF a(2)] unfolding word_le_nat_alt word_less_nat_alt by metis
  qed
  then show ?thesis using m(1) by blast
qed

text \<open>
  C21. An image that the kernel loads is well formed: it has the header that the parser of the loader accepts, every program header
  can be read, every segment that occupies memory lies inside the file, is no longer there than in memory and is not both writable
  and executable. The entry point moves with the image, an image that is not position independent stays where it was linked,
  one that is goes to a page of a fixed window of 64 MiB, and the stack has eight pages.
\<close>

theorem loaded_image_well_formed:
  assumes "load_elf_into X en t data (counter, v) = (Ok l, counter', v')" "x86_ops_laws X"
  shows "\<exists>h. parse_elf_header data = Some h
    \<and> (\<forall>i < unat (e_phnum h). \<exists>ph. phdr_number data h i = Ok ph \<and>
        (ph_type ph = PT_LOAD \<and> ph_memsz ph \<noteq> 0 \<longrightarrow>
          ph_filesz ph \<le> ph_memsz ph \<and> unat (ph_offset ph) + unat (ph_filesz ph) \<le> length data
          \<and> (ph_flags ph AND 2 = 0 \<or> ph_flags ph AND 1 = 0)))
    \<and> le_entry l = e_entry h + le_load_bias l
    \<and> (if e_type h = 3 then \<exists>k < 0x4000. unat (le_load_bias l) = 0x20000000 + k * 4096 else le_load_bias l = 0)
    \<and> unat (le_stack_top l) = unat (le_stack_bottom l) + 8 * 4096"
proof -
  obtain h c1 v1 v2 s where h: "parse_header data = Ok h" "validate_header h = Ok ()"
    and b: "choose_load_bias en h (counter, v) = (Ok (le_load_bias l), c1, v)"
    and seg: "load_segments X t data h (le_load_bias l) v = (Ok (), v1)"
    and st: "alloc_user_stack_in_table X t 8 v2 = (Ok s, v')"
    and l: "le_entry l = e_entry h + le_load_bias l" "le_stack_top l = us_top s" "le_stack_bottom l = us_bottom s"
    using load_elf_into_Ok[OF assms(1)] by blast
  have "\<exists>ph. phdr_number data h i = Ok ph \<and> (ph_type ph = PT_LOAD \<and> ph_memsz ph \<noteq> 0 \<longrightarrow> segment_accepted data ph)"
    if i: "i < unat (e_phnum h)" for i
    using kfor_Ok[OF seg[unfolded load_segments_def], of i] i load_segment_accepted by (fastforce simp: kbind_Ok klift_Ok)
  then have "\<forall>i < unat (e_phnum h). \<exists>ph. phdr_number data h i = Ok ph \<and> (ph_type ph = PT_LOAD \<and> ph_memsz ph \<noteq> 0 \<longrightarrow>
      ph_filesz ph \<le> ph_memsz ph \<and> unat (ph_offset ph) + unat (ph_filesz ph) \<le> length data \<and> (ph_flags ph AND 2 = 0 \<or> ph_flags ph AND 1 = 0))"
    unfolding segment_accepted_def by meson
  moreover have "if e_type h = 3 then \<exists>k < 0x4000. unat (le_load_bias l) = 0x20000000 + k * 4096 else le_load_bias l = 0"
    using b pie_bias_unat[of en counter] by (auto simp: choose_load_bias_def split: prod.splits if_splits)
  moreover have "unat (us_top s) = unat (us_bottom s) + 8 * 4096"
  proof -
    have le: "us_bottom s \<le> us_top s" and d: "us_top s - us_bottom s = 8 * 4096" using alloc_user_stack_step[OF st assms(2)] by simp_all
    have "unat (us_top s) - unat (us_bottom s) = 8 * 4096" using unat_sub[OF le] unfolding d by simp
    then show ?thesis by linarith
  qed
  ultimately show ?thesis using h l parse_header_validated[of data h] by auto
qed

end
