(* ===== verification/Small_Program.thy ===== *)
theory Small_Program
  imports Elf
begin

text \<open>
  Small programs: an executable file of one segment that is loaded into a table with frames to spare, and a relocation table that is
  applied to a page that is mapped. They show that the hypotheses of the properties on loading hold of real images.
\<close>

section \<open>Several pages\<close>

lemma stack_pages:
  assumes "stack_tables n (map (index_of 12) pages @ free) v" "260 \<le> n" "n + length pages \<le> 512" "distinct (map (index_of 12) pages @ free)"
    "\<forall>a\<in>set pages. index_of 39 a = 0 \<and> index_of 30 a = 1 \<and> index_of 21 a = 511"
  shows "\<exists>v'. kfor pages (map_segment_page stack_x86 0x100000 b b [] 0x8000000000000007) v = (Ok (), v') \<and> stack_tables (n + length pages) free v'"
  using assms
proof (induction pages arbitrary: n v)
  case (Cons a pages)
  have "stack_tables n (index_of 12 a # map (index_of 12) pages @ free) v" using Cons.prems(1) by simp
  then obtain v1 where v1: "map_segment_page stack_x86 0x100000 b b [] 0x8000000000000007 a v = (Ok (), v1)"
      "stack_tables (n + 1) (map (index_of 12) pages @ free) v1"
    using stack_page[of n "index_of 12 a" "map (index_of 12) pages @ free" v a b] Cons.prems by auto
  then show ?case using Cons.IH[OF v1(2)] Cons.prems by (simp add: kbind.simps)
qed simp

lemma stack_segment:
  assumes "stack_tables n (map (index_of 12) pages @ free) v" "260 \<le> n" "n + length pages \<le> 512" "distinct (map (index_of 12) pages @ free)"
    and a: "(a, sz, pages) \<in> {(0x7FFE0000, 4096, [0x7FFE0000]),
      (0x7FFF8000, 0x8000, [0x7FFF8000, 0x7FFF9000, 0x7FFFA000, 0x7FFFB000, 0x7FFFC000, 0x7FFFD000, 0x7FFFE000, 0x7FFFF000])}"
  shows "\<exists>v'. map_and_copy_segment_to stack_x86 0x100000 a 0 sz [] True False v = (Ok (), v') \<and> stack_tables (n + length pages) free v'"
proof -
  have ix: "index_of 39 a = 0" "index_of 30 a = 1" "index_of 21 a = 511"
    "index_of 39 (a + sz - 1) = 0" "index_of 30 (a + sz - 1) = 1" "index_of 21 (a + sz - 1) = 511"
    "\<forall>a\<in>set pages. index_of 39 a = 0 \<and> index_of 30 a = 1 \<and> index_of 21 a = 511"
    using a by (auto simp: index_of_unat)
  obtain v1 where v1: "ensure_user_page_table_hierarchy stack_x86 0x100000 a v = (Ok (), v1)" "stack_tables n (map (index_of 12) pages @ free) v1"
    using stack_ensure[OF assms(1) ix(1-3)] by blast
  obtain v2 where v2: "ensure_user_page_table_hierarchy stack_x86 0x100000 (a + sz - 1) v1 = (Ok (), v2)" "stack_tables n (map (index_of 12) pages @ free) v2"
    using stack_ensure[OF v1(2) ix(4-6)] by blast
  obtain v3 where v3: "kfor pages (map_segment_page stack_x86 0x100000 a a [] 0x8000000000000007) v2 = (Ok (), v3)" "stack_tables (n + length pages) free v3"
    using stack_pages[OF v2(2) assms(2-4) ix(7)] by blast
  have sf: "segment_flags stack_x86 True False = 0x8000000000000007" by (simp add: segment_flags_def)
  have u: "[0..<8] = [0, 1, 2, 3, 4, 5, 6, 7 :: nat]" "[0..<Suc 0] = [0]" by code_simp+
  have r: "page_range (page_base a) (a + sz) = pages" "page_align_up (a + sz) = Some (a + sz)"
    using a by (auto simp: page_range_def page_base_def page_align_up_def checked_add_def u)
  have c: "checked_add a 0 = Some a" "checked_add a sz = Some (a + sz)" "sz \<noteq> 0" using a by (auto simp: checked_add_def)
  have "map_and_copy_segment_to stack_x86 0x100000 a 0 sz [] True False v = (Ok (), v3)"
    using assms(1) v1(1) v2(1) v3(1) by (simp add: map_and_copy_segment_to_def stack_tables_def c r sf kbind.simps)
  then show ?thesis using v3(2) by blast
qed

section \<open>A program\<close>

text \<open>The file: a header and one program header, of a writable segment of a page without bytes in the file.\<close>

definition small_program :: bytes where
  "small_program =
    [0x7F, 0x45, 0x4C, 0x46, 2, 1, 1, 0, 0, 0, 0, 0, 0, 0, 0, 0, 2, 0, 0x3E, 0, 1, 0, 0, 0, 0, 0, 0xFE, 0x7F, 0, 0, 0, 0,
     64, 0, 0, 0, 0, 0, 0, 0, 0, 0, 0, 0, 0, 0, 0, 0, 0, 0, 0, 0, 64, 0, 56, 0, 1, 0, 0, 0, 0, 0, 0, 0,
     1, 0, 0, 0, 6, 0, 0, 0, 0, 0, 0, 0, 0, 0, 0, 0, 0, 0, 0xFE, 0x7F, 0, 0, 0, 0, 0, 0, 0, 0, 0, 0, 0, 0,
     0, 0, 0, 0, 0, 0, 0, 0, 0, 0x10, 0, 0, 0, 0, 0, 0, 0, 0x10, 0, 0, 0, 0, 0, 0]"

lemma small_program_header:
  "parse_header small_program = Ok (header_at small_program)" "validate_header (header_at small_program) = Ok ()"
  "e_type (header_at small_program) = 2" "e_phnum (header_at small_program) = 1"
  by (simp_all add: parse_header_def validate_header_def header_at_def small_program_def field_def from_le_bytes.simps ELF_MAGIC_def EM_X86_64_def)

lemma small_program_phdr:
  "phdr_number small_program (header_at small_program) 0 =
    Ok \<lparr>ph_type = 1, ph_flags = 6, ph_offset = 0, ph_vaddr = 0x7FFE0000, ph_paddr = 0, ph_filesz = 0, ph_memsz = 0x1000, ph_align = 0x1000\<rparr>"
  by (simp add: phdr_number_def phdr_offset_def read_phdr_def read_struct_def phdr_at_def header_at_def small_program_def field_def from_le_bytes.simps)

lemma small_program_tables: "stack_tables 260 (480 # [504, 505, 506, 507, 508, 509, 510, 511]) stack_vm"
  by (simp add: stack_tables_def stack_vm_def entry_at_def entry_cell_def mem_read_u64_write_other aligned8_def)
     (simp add: mem_read_u64_def mem_read_def numeral_eq_Suc)

lemma small_program_loads:
  "\<exists>l v'. load_elf_into stack_x86 en 0x100000 small_program (counter, stack_vm) = (Ok l, counter, v')"
proof -
  have ix: "index_of 12 0x7FFE0000 = 480" "map (index_of 12) [0x7FFF8000, 0x7FFF9000, 0x7FFFA000, 0x7FFFB000, 0x7FFFC000, 0x7FFFD000, 0x7FFFE000, 0x7FFFF000]
      = [504, 505, 506, 507, 508, 509, 510, 511]" by (simp_all add: index_of_unat)
  obtain v1 where v1: "map_and_copy_segment_to stack_x86 0x100000 0x7FFE0000 0 4096 [] True False stack_vm = (Ok (), v1)"
      "stack_tables 261 [504, 505, 506, 507, 508, 509, 510, 511] v1"
    using stack_segment[of 260 "[0x7FFE0000]" "[504, 505, 506, 507, 508, 509, 510, 511]" stack_vm "0x7FFE0000" 4096] small_program_tables ix(1) by auto
  obtain v2 where v2: "map_and_copy_segment_to stack_x86 0x100000 0x7FFF8000 0 0x8000 [] True False v1 = (Ok (), v2)"
    using stack_segment[of 261 "[0x7FFF8000, 0x7FFF9000, 0x7FFFA000, 0x7FFFB000, 0x7FFFC000, 0x7FFFD000, 0x7FFFE000, 0x7FFFF000]" "[]" v1 "0x7FFF8000" "0x8000"]
      v1(2) ix(2) by auto
  have top: "vm_next_stack_top v1 = 0x80000000"
    using keeps_top_segment[OF stack_x86_ops] v1(1) unfolding keeps_top_def by (metis snd_conv stack_vm_def vm.select_convs(7))
  have "load_segments stack_x86 0x100000 small_program (header_at small_program) 0 stack_vm = (Ok (), v1)"
    using v1(1) by (simp add: load_segments_def small_program_header small_program_phdr kbind.simps klift_def load_segment_def PT_LOAD_def checked_add_def)
  moreover have "map_user_range_in_table stack_x86 0x100000 0x7FFF8000 0x8000 0x8000000000000007 v1 = (Ok (), v2)"
    using v2 by (simp add: map_user_range_in_table_def has_flag_def checked_add_def USER_SPACE_END_def page_base_def page_align_up_def)
  then have "\<exists>s v'. alloc_user_stack_in_table stack_x86 0x100000 8 v1 = (Ok s, v')"
    using top by (simp add: alloc_user_stack_in_table_def PAGE_SIZE_def USER_STACK_GUARD_PAGES_def kbind.simps checked_sub_def)
  ultimately show ?thesis
    by (auto simp: load_elf_into_def kbind.simps klift_def kreturn_def on_vm_def choose_load_bias_def small_program_header)
qed

theorem loaded_image_well_formed_witness:
  "\<exists>l c' v' h. load_elf_into stack_x86 \<lparr>en_boot = 1, en_hw = None, en_ticks = 0\<rparr> 0x100000 small_program (0, stack_vm) = (Ok l, c', v')
    \<and> parse_elf_header small_program = Some h \<and> le_entry l = e_entry h + le_load_bias l \<and> unat (le_stack_top l) = unat (le_stack_bottom l) + 8 * 4096"
  using small_program_loads loaded_image_well_formed[OF _ stack_x86_ops] by meson

section \<open>A relocation\<close>

text \<open>Two program headers, the dynamic section and one relocation, of the word at offset 16 of the image.\<close>

definition small_relocation :: bytes where
  "small_relocation =
    [1, 0, 0, 0, 6, 0, 0, 0, 0, 0, 0, 0, 0, 0, 0, 0, 0, 0, 0, 0, 0, 0, 0, 0, 0, 0, 0, 0, 0, 0, 0, 0,
     0, 0, 0, 0, 0, 0, 0, 0, 0, 2, 0, 0, 0, 0, 0, 0, 0, 0, 0, 0, 0, 0, 0, 0,
     2, 0, 0, 0, 6, 0, 0, 0, 112, 0, 0, 0, 0, 0, 0, 0, 0, 0, 0, 0, 0, 0, 0, 0, 0, 0, 0, 0, 0, 0, 0, 0,
     48, 0, 0, 0, 0, 0, 0, 0, 48, 0, 0, 0, 0, 0, 0, 0, 0, 0, 0, 0, 0, 0, 0, 0,
     7, 0, 0, 0, 0, 0, 0, 0, 160, 0, 0, 0, 0, 0, 0, 0, 8, 0, 0, 0, 0, 0, 0, 0, 24, 0, 0, 0, 0, 0, 0, 0,
     0, 0, 0, 0, 0, 0, 0, 0, 0, 0, 0, 0, 0, 0, 0, 0,
     16, 0, 0, 0, 0, 0, 0, 0, 8, 0, 0, 0, 0, 0, 0, 0, 5, 0, 0, 0, 0, 0, 0, 0]"

definition relocation_header :: elf_header where
  "relocation_header = (header_at small_program)\<lparr>e_phoff := 0, e_phnum := 2\<rparr>"

lemma relocation_phdrs:
  "phdr_number small_relocation relocation_header 0 =
    Ok \<lparr>ph_type = 1, ph_flags = 6, ph_offset = 0, ph_vaddr = 0, ph_paddr = 0, ph_filesz = 0, ph_memsz = 0x200, ph_align = 0\<rparr>"
  "phdr_number small_relocation relocation_header (Suc 0) =
    Ok \<lparr>ph_type = 2, ph_flags = 6, ph_offset = 112, ph_vaddr = 0, ph_paddr = 0, ph_filesz = 48, ph_memsz = 48, ph_align = 0\<rparr>"
  by (simp_all add: phdr_number_def phdr_offset_def read_phdr_def read_struct_def phdr_at_def relocation_header_def header_at_def small_program_def
      small_relocation_def field_def from_le_bytes.simps)

lemma relocation_upt: "[0..<unat (e_phnum relocation_header)] = [0, Suc 0]"
proof -
  have "unat (e_phnum relocation_header) = Suc (Suc 0)" by (simp add: relocation_header_def)
  then show ?thesis by simp
qed

lemma relocation_tables:
  "load_ranges small_relocation relocation_header 0x1000 = Ok [(0x1000, 0x1200)]"
  "dynamic_file_range small_relocation relocation_header = Ok (Some (112, 48))"
  "vaddr_to_offset small_relocation relocation_header 160 = Ok 160"
  unfolding load_ranges_def dynamic_file_range_def vaddr_to_offset_def relocation_upt
  by (simp_all add: relocation_phdrs PT_LOAD_def PT_DYNAMIC_def checked_add_def) (simp add: small_relocation_def)

lemma relocation_dynamic: "scan_dynamic small_relocation 112 [0, Suc 0, Suc (Suc 0)] (None, None, None) = Ok (Some 160, Some 24, None)"
  by (simp add: read_dyn_def read_struct_def small_relocation_def field_def from_le_bytes.simps)

lemma relocation_rela: "read_rela small_relocation 160 = Ok (16, 8, 5)"
  by (simp add: read_rela_def read_struct_def small_relocation_def field_def from_le_bytes.simps)

lemma relocation_applies:
  "apply_relocations_to X t small_relocation relocation_header 0x1000 v = kbind (write_user_u64_in_table X t 0x1010 0x1005) (\<lambda>_. kreturn ()) v"
proof -
  have u: "[0..<48 div 16] = [0, Suc 0, Suc (Suc 0)]" by code_simp
  have s: "scan_dynamic small_relocation 112 [0..<48 div 16] (None, None, None) = Ok (Some 160, Some 24, None)"
    using relocation_dynamic unfolding u by simp
  have r: "relocate_number X t small_relocation [(0x1000, 0x1200)] 0x1000 160 24 0 = write_user_u64_in_table X t 0x1010 0x1005"
    by (simp add: fun_eq_iff relocate_number_def relocation_rela kbind.simps klift_def apply_relocation_def checked_add_def)
  show ?thesis
    unfolding apply_relocations_to_def relocation_tables
    by (simp add: kbind.simps klift_def s[simplified] relocation_tables r kreturn_def del: scan_dynamic.simps split: prod.split kres.split)
qed

theorem relocations_confined_witness:
  "\<exists>v'. apply_relocations_to flat_x86 0x1000 small_relocation relocation_header 0x1000 one_page_vm = (Ok (), v')
    \<and> (\<forall>x. vm_mem v' x \<noteq> vm_mem one_page_vm x \<longrightarrow> (\<exists>a. user_may_write flat_x86 one_page_vm 0x1000 a x \<and> 0x1000 \<le> unat a))"
proof -
  have "\<forall>i < length (to_le_bytes (0x1005 :: u64)). translate_user_addr_in_table flat_x86 one_page_vm 0x1000 (0x1010 + of_nat i) True \<noteq> None"
    by (auto simp: one_page_user[OF one_page_maps] unat_word_ariths unat_of_nat)
  then obtain v' where "write_user_u64_in_table flat_x86 0x1000 0x1010 0x1005 one_page_vm = (Ok (), v')"
    using copy_to_user_ok[OF flat_x86_laws one_page_offset _ one_page_protected, of "to_le_bytes (0x1005 :: u64)" "0x1010"]
    unfolding write_user_u64_in_table_def by auto
  then have r: "apply_relocations_to flat_x86 0x1000 small_relocation relocation_header 0x1000 one_page_vm = (Ok (), v')"
    by (simp add: relocation_applies kbind.simps kreturn_def)
  have seg: "unat (ph_vaddr ph + 0x1000) = 0x1000" if "i < unat (e_phnum relocation_header)" "phdr_number small_relocation relocation_header i = Ok ph" for i ph
  proof -
    have "i \<in> set [0..<unat (e_phnum relocation_header)]" using that(1) by simp
    then have "i = 0 \<or> i = Suc 0" unfolding relocation_upt by simp
    then show ?thesis using that(2) by (auto simp: relocation_phdrs)
  qed
  show ?thesis using r seg relocations_confined[OF flat_x86_laws one_page_offset one_page_protected r] by fastforce
qed

end
