(* ===== verification/Exec_Stack.thy ===== *)
theory Exec_Stack
  imports Process_Calls
begin

text \<open>
  The first stack of a program, from \<^verbatim>\<open>build_initial_user_stack\<close> of \<^verbatim>\<open>src/src/core/syscall/exec.rs\<close>: one page with the number of
  arguments, the pointers to the arguments and to the environment, the auxiliary vector and the strings, as the x86-64 ABI lays them
  out. Strings are lists of bytes.
\<close>

section \<open>Operations\<close>

definition STACK_TOP_BASE :: u64 where "STACK_TOP_BASE = 0x00007FFFFFF00000"
definition STACK_ASLR_MAX_PAGES :: u64 where "STACK_ASLR_MAX_PAGES = 4096"
definition USER_STACK_SIZE_PAGES :: nat where "USER_STACK_SIZE_PAGES = 32"

definition aslr_offset_pages :: "u64 \<Rightarrow> u64 \<Rightarrow> u64" where
  "aslr_offset_pages seed max_pages = (if max_pages = 0 then 0 else aslr_mix64 seed mod max_pages)"

record initial_user_stack =
  ius_base :: u64
  ius_end :: u64
  ius_rsp :: u64
  ius_page :: bytes

text \<open>The strings one after the other, each with its final zero, and where each starts.\<close>

definition string_area :: "bytes list \<Rightarrow> bytes" where
  "string_area strings = concat (map (\<lambda>s. s @ [0]) strings)"

fun string_offsets :: "nat \<Rightarrow> bytes list \<Rightarrow> nat list" where
  "string_offsets start [] = []"
| "string_offsets start (s # strings) = start # string_offsets (start + length s + 1) strings"

fun stack_random :: "nat \<Rightarrow> u64 \<Rightarrow> bytes" where
  "stack_random 0 rng = []"
| "stack_random (Suc n) rng = (let rng = rng * 6364136223846793005 + 1442695040888963407 in ucast (drop_bit 33 rng) # stack_random n rng)"

definition pointer_bytes :: "u64 list \<Rightarrow> bytes" where
  "pointer_bytes ptrs = concat (map to_le_bytes ptrs)"

definition resolve_auxv :: "u64 \<Rightarrow> u64 \<Rightarrow> u64 \<times> u64 \<Rightarrow> u64" where
  "resolve_auxv random_addr execfn_addr kv = (if fst kv = 25 then random_addr else if fst kv = 31 then execfn_addr else snd kv)"

definition stack_end_of :: "u64 \<Rightarrow> u64" where
  "stack_end_of aslr_seed = saturating_sub STACK_TOP_BASE (aslr_offset_pages (aslr_seed XOR 0x53a91e2d) STACK_ASLR_MAX_PAGES * 4096)"

definition build_initial_user_stack :: "u64 \<Rightarrow> bytes list \<Rightarrow> bytes list \<Rightarrow> bytes \<Rightarrow> (u64 \<times> u64) list \<Rightarrow> initial_user_stack sysres" where
  "build_initial_user_stack aslr_seed argv envp execfn auxv =
    (let stack_end = stack_end_of aslr_seed;
         stack_base = stack_end - of_nat USER_STACK_SIZE_PAGES * 4096;
         argv_offsets = string_offsets 0 argv;
         envp_offsets = string_offsets (length (string_area argv)) envp;
         random_offset = length (string_area argv @ string_area envp);
         random = stack_random 16 (aslr_seed * 6364136223846793005 + 1442695040888963407);
         execfn_offset = random_offset + 16;
         strings = string_area argv @ string_area envp @ random @ execfn @ [0];
         pointers_bytes = 8 + length argv * 8 + 8 + length envp * 8 + 8 + length auxv * 16;
         total_data_needed = length strings + pointers_bytes;
         padding_len = (16 - total_data_needed mod 16) mod 16;
         total_size = total_data_needed + padding_len
     in if total_size > 4096 then Inl EINVAL
        else let area_base = stack_end - of_nat (length strings);
                 random_addr = area_base + of_nat random_offset;
                 execfn_addr = area_base + of_nat execfn_offset;
                 page_offset = total_size mod 4096;
                 unused_space = (if page_offset = 0 then 0 else 4096 - page_offset);
                 page = replicate unused_space 0
                   @ to_le_bytes (of_nat (length argv) :: u64)
                   @ pointer_bytes (map (\<lambda>off. area_base + of_nat off) argv_offsets) @ to_le_bytes (0 :: u64)
                   @ pointer_bytes (map (\<lambda>off. area_base + of_nat off) envp_offsets) @ to_le_bytes (0 :: u64)
                   @ concat (map (\<lambda>kv. to_le_bytes (fst kv) @ to_le_bytes (resolve_auxv random_addr execfn_addr kv)) auxv)
                   @ replicate padding_len 0 @ strings
             in if length page \<noteq> 4096 then Inl EINVAL
                else Inr \<lparr>ius_base = stack_base, ius_end = stack_end, ius_rsp = stack_end - of_nat total_size, ius_page = page\<rparr>)"

section \<open>What a program reads\<close>

text \<open>The word and the string at an address of the page, which is the last one below the end of the stack.\<close>

definition page_index :: "initial_user_stack \<Rightarrow> u64 \<Rightarrow> nat" where
  "page_index st a = unat (a - (ius_end st - 4096))"

definition stack_word :: "initial_user_stack \<Rightarrow> u64 \<Rightarrow> u64" where
  "stack_word st a = from_le_bytes (take 8 (drop (page_index st a) (ius_page st)))"

definition stack_string :: "initial_user_stack \<Rightarrow> u64 \<Rightarrow> bytes" where
  "stack_string st a = takeWhile (\<lambda>b. b \<noteq> 0) (drop (page_index st a) (ius_page st))"

section \<open>Lemmas\<close>

lemma length_stack_random [simp]: "length (stack_random n rng) = n"
  by (induction n arbitrary: rng) (simp_all add: Let_def)

lemma length_pointer_bytes [simp]: "length (pointer_bytes ptrs) = 8 * length ptrs"
  by (induction ptrs) (simp_all add: pointer_bytes_def)

lemma length_string_offsets [simp]: "length (string_offsets n ss) = length ss"
  by (induction n ss rule: string_offsets.induct) simp_all

lemma length_auxv_bytes: "length (concat (map (\<lambda>kv. to_le_bytes (fst kv) @ to_le_bytes (g kv :: u64)) auxv)) = 16 * length (auxv :: (u64 \<times> 'a) list)"
  by (induction auxv) simp_all

lemma pointer_bytes_append: "pointer_bytes (xs @ ys) = pointer_bytes xs @ pointer_bytes ys"
  by (simp add: pointer_bytes_def)

text \<open>The whole table of words is one list of pointers.\<close>

lemma auxv_as_pointers:
  "concat (map (\<lambda>kv. to_le_bytes (fst kv) @ to_le_bytes (g kv :: u64)) auxv) = pointer_bytes (concat (map (\<lambda>kv. [fst kv, g kv]) auxv))"
  by (induction auxv) (simp_all add: pointer_bytes_def)

lemma word_in_pointers:
  assumes "i < length ptrs"
  shows "from_le_bytes (take 8 (drop (8 * i) (pointer_bytes ptrs @ rest))) = (ptrs ! i :: u64)"
  using assms
proof (induction ptrs arbitrary: i)
  case (Cons p ptrs)
  have b: "pointer_bytes (p # ptrs) = to_le_bytes p @ pointer_bytes ptrs" by (simp add: pointer_bytes_def)
  show ?case
  proof (cases i)
    case 0
    then show ?thesis by (simp add: b)
  next
    case (Suc j)
    then have "drop (8 * i) (pointer_bytes (p # ptrs) @ rest) = drop (8 * j) (pointer_bytes ptrs @ rest)" by (simp add: b)
    then show ?thesis using Cons Suc by simp
  qed
qed simp

lemma string_at_offset:
  assumes "i < length ss" "\<forall>s\<in>set ss. 0 \<notin> set s"
  shows "takeWhile (\<lambda>b. b \<noteq> 0) (drop (string_offsets n ss ! i - n) (string_area ss @ rest)) = ss ! i"
    "n \<le> string_offsets n ss ! i" "string_offsets n ss ! i < n + length (string_area ss)"
  using assms
proof (induction n ss arbitrary: i rule: string_offsets.induct)
  case (2 n s ss)
  have a: "string_area (s # ss) = s @ 0 # string_area ss" by (simp add: string_area_def)
  { case 1
    show ?case
    proof (cases i)
      case 0
      have "takeWhile (\<lambda>b. b \<noteq> 0) (s @ 0 # xs) = s" for xs
        using 1(2) by (subst takeWhile_append2) auto
      then show ?thesis using 0 by (simp add: a)
    next
      case (Suc j)
      let ?o = "string_offsets (n + length s + 1) ss ! j"
      have "n + length s + 1 \<le> ?o" using "2.IH"(2) 1 Suc by simp
      then have "drop (?o - n) (s @ 0 # string_area ss @ rest) = drop (?o - (n + length s + 1)) (string_area ss @ rest)"
        by (simp add: Suc_diff_le drop_Cons' split: nat_diff_split)
      then show ?thesis using "2.IH"(1)[of j] 1 Suc by (simp add: a)
    qed
  next
    case 2
    then show ?case using "2.IH"(2) by (cases i) force+
  next
    case 3
    then show ?case using "2.IH"(3) by (cases i) (force simp: a)+
  }
qed simp_all

lemma stack_end_bounds:
  "unat (stack_end_of seed) mod 4096 = 0" "0x7FFFFEF00000 < unat (stack_end_of seed)" "unat (stack_end_of seed) \<le> 0x7FFFFFF00000"
proof -
  define x where "x = aslr_mix64 (seed XOR 0x53a91e2d) mod (4096 :: u64)"
  have x: "unat x < 4096" by (simp add: x_def unat_mod)
  have m: "unat (x * 4096) = unat x * 4096" using x by (simp add: unat_word_ariths)
  then have le: "x * 4096 \<le> STACK_TOP_BASE" using x by (simp add: word_le_nat_alt STACK_TOP_BASE_def)
  have e: "stack_end_of seed = STACK_TOP_BASE - x * 4096"
    using le by (simp add: stack_end_of_def aslr_offset_pages_def STACK_ASLR_MAX_PAGES_def x_def saturating_sub_def)
  have u: "unat (stack_end_of seed) = 0x7FFFFFF00000 - unat x * 4096"
    unfolding e unat_sub[OF le] m by (simp add: STACK_TOP_BASE_def)
  have "0x7FFFFFF00000 - unat x * 4096 = (0x7FFFFFF00 - unat x) * 4096" by simp
  then show "unat (stack_end_of seed) mod 4096 = 0" unfolding u by simp
  show "0x7FFFFEF00000 < unat (stack_end_of seed)" "unat (stack_end_of seed) \<le> 0x7FFFFFF00000" using u x by simp_all
qed

text \<open>The parts of the page: unused space, a table of words, padding and the strings.\<close>

definition stack_parts :: "initial_user_stack \<Rightarrow> u64 list \<Rightarrow> nat \<Rightarrow> bytes \<Rightarrow> bool" where
  "stack_parts st ws pad strings \<longleftrightarrow>
    (let total = length strings + 8 * length ws + pad
     in total \<le> 4096 \<and> 16 dvd total \<and> 0 < length ws \<and> ius_rsp st = ius_end st - of_nat total
       \<and> ius_page st = replicate (4096 - total) 0 @ pointer_bytes ws @ replicate pad 0 @ strings)"

lemma page_index_of_nat:
  assumes "n \<le> 4096" "j \<le> n"
  shows "page_index st (ius_end st - of_nat n + of_nat j) = 4096 - n + j"
proof -
  have "ius_end st - of_nat n + of_nat j - (ius_end st - 4096) = (of_nat (4096 - n + j) :: u64)"
    using assms by (simp add: of_nat_diff)
  then show ?thesis using assms unfolding page_index_def by (simp only: unat_of_nat) simp
qed

lemma stack_parts_word:
  assumes "stack_parts st ws pad strings" "i < length ws"
  shows "stack_word st (ius_rsp st + 8 * of_nat i) = ws ! i"
proof -
  let ?total = "length strings + 8 * length ws + pad"
  have p: "?total \<le> 4096" "ius_rsp st = ius_end st - of_nat ?total"
    "ius_page st = replicate (4096 - ?total) 0 @ pointer_bytes ws @ replicate pad 0 @ strings"
    using assms(1) by (simp_all add: stack_parts_def Let_def)
  have "page_index st (ius_end st - of_nat ?total + of_nat (8 * i)) = 4096 - ?total + 8 * i"
    using p(1) assms(2) by (intro page_index_of_nat) simp_all
  then have "page_index st (ius_rsp st + 8 * of_nat i) = 4096 - ?total + 8 * i" unfolding p(2) by simp
  moreover have "drop (m + 8 * i) (replicate m 0 @ ys) = drop (8 * i) ys" for m and ys :: bytes by simp
  ultimately show ?thesis using word_in_pointers[OF assms(2)] by (simp only: stack_word_def p(3))
qed

lemma stack_parts_string:
  assumes "stack_parts st ws pad strings" "off \<le> length strings"
  shows "stack_string st (ius_end st - of_nat (length strings) + of_nat off) = takeWhile (\<lambda>b. b \<noteq> 0) (drop off strings)"
    "page_index st (ius_end st - of_nat (length strings) + of_nat off) = 4096 - length strings + off"
proof -
  let ?total = "length strings + 8 * length ws + pad"
  have p: "?total \<le> 4096" "ius_page st = (replicate (4096 - ?total) 0 @ pointer_bytes ws @ replicate pad 0) @ strings"
    using assms(1) by (simp_all add: stack_parts_def Let_def)
  show i: "page_index st (ius_end st - of_nat (length strings) + of_nat off) = 4096 - length strings + off"
    using p(1) assms(2) by (intro page_index_of_nat) simp_all
  have "length (replicate (4096 - ?total) 0 @ pointer_bytes ws @ replicate pad (0 :: u8)) = 4096 - length strings" using p(1) by simp
  then show "stack_string st (ius_end st - of_nat (length strings) + of_nat off) = takeWhile (\<lambda>b. b \<noteq> 0) (drop off strings)"
    unfolding stack_string_def i p(2) drop_append by simp
qed

lemma padding_dvd: "16 dvd n + (16 - n mod 16) mod 16" for n :: nat
proof -
  have "(n + (16 - n mod 16) mod 16) mod 16 = (n mod 16 + (16 - n mod 16)) mod 16" by (simp only: mod_add_left_eq mod_add_right_eq)
  moreover have "n mod 16 + (16 - n mod 16) = 16" using mod_less_divisor[of 16 n] by linarith
  ultimately show ?thesis by (simp only: dvd_eq_mod_eq_0 mod_self)
qed

lemma unused_space: "\<lbrakk>n \<le> 4096; 0 < n\<rbrakk> \<Longrightarrow> (if n mod 4096 = 0 then 0 else 4096 - n mod 4096) = 4096 - n" for n :: nat
  by (cases "n = 4096") simp_all

lemma Inr_of_checks: "(if a then Inl e else if b then Inl f else Inr x) = Inr y \<Longrightarrow> \<not> a \<and> \<not> b \<and> y = x"
  by (simp split: if_splits)

lemma build_parts:
  assumes "build_initial_user_stack seed argv envp execfn auxv = Inr st"
  defines "strings \<equiv> string_area argv @ string_area envp @ stack_random 16 (seed * 6364136223846793005 + 1442695040888963407) @ execfn @ [0]"
  defines "at \<equiv> \<lambda>off. ius_end st - of_nat (length strings) + of_nat off"
  defines "random \<equiv> length (string_area argv @ string_area envp)"
  shows "\<exists>pad. stack_parts st (of_nat (length argv) # map at (string_offsets 0 argv) @ [0]
      @ map at (string_offsets (length (string_area argv)) envp) @ [0]
      @ concat (map (\<lambda>kv. [fst kv, resolve_auxv (at random) (at (random + 16)) kv]) auxv)) pad strings"
    "ius_end st = stack_end_of seed" "length (ius_page st) = 4096" "ius_base st = ius_end st - 0x20000"
proof -
  let ?ws = "of_nat (length argv) # map at (string_offsets 0 argv) @ [0] @ map at (string_offsets (length (string_area argv)) envp) @ [0]
      @ concat (map (\<lambda>kv. [fst kv, resolve_auxv (at random) (at (random + 16)) kv]) auxv)"
  let ?need = "length strings + (8 + length argv * 8 + 8 + length envp * 8 + 8 + length auxv * 16)"
  let ?pad = "(16 - ?need mod 16) mod 16"
  note f = Inr_of_checks[OF assms(1)[unfolded build_initial_user_stack_def Let_def, folded strings_def random_def]]
  note st = conjunct2[OF conjunct2[OF f]]
  have le: "?need + ?pad \<le> 4096" using conjunct1[OF f] by (simp only: not_less)
  have len: "length (ius_page st) = 4096" using conjunct1[OF conjunct2[OF f]] by (simp only: st initial_user_stack.select_convs not_not)
  have e: "ius_end st = stack_end_of seed" "ius_rsp st = stack_end_of seed - of_nat (?need + ?pad)"
    by (simp_all only: st initial_user_stack.select_convs)
  have b: "ius_base st = ius_end st - of_nat USER_STACK_SIZE_PAGES * 4096" by (simp only: st initial_user_stack.select_convs)
  have page: "ius_page st = replicate (if (?need + ?pad) mod 4096 = 0 then 0 else 4096 - (?need + ?pad) mod 4096) 0
      @ to_le_bytes (of_nat (length argv) :: u64) @ pointer_bytes (map at (string_offsets 0 argv)) @ to_le_bytes (0 :: u64)
      @ pointer_bytes (map at (string_offsets (length (string_area argv)) envp)) @ to_le_bytes (0 :: u64)
      @ concat (map (\<lambda>kv. to_le_bytes (fst kv) @ to_le_bytes (resolve_auxv (at random) (at (random + 16)) kv)) auxv)
      @ replicate ?pad 0 @ strings"
    unfolding at_def e(1) by (simp only: st initial_user_stack.select_convs)
  have u: "(if (?need + ?pad) mod 4096 = 0 then 0 else 4096 - (?need + ?pad) mod 4096) = 4096 - (?need + ?pad)"
    by (rule unused_space[OF le]) simp
  have words: "8 * length ?ws = 8 + length argv * 8 + 8 + length envp * 8 + 8 + length auxv * 16"
    by (simp add: length_concat comp_def sum_list_triv)
  have "stack_parts st ?ws ?pad strings"
    unfolding stack_parts_def Let_def words
  proof (intro conjI)
    show "16 dvd ?need + ?pad" by (rule padding_dvd)
    show "ius_page st = replicate (4096 - (?need + ?pad)) 0 @ pointer_bytes ?ws @ replicate ?pad 0 @ strings"
      unfolding page u auxv_as_pointers by (simp add: pointer_bytes_def)
  qed (use le e in simp_all)
  then show "\<exists>pad. stack_parts st ?ws pad strings" by blast
  show "ius_end st = stack_end_of seed" "length (ius_page st) = 4096" "ius_base st = ius_end st - 0x20000"
    using e len b by (simp_all add: USER_STACK_SIZE_PAGES_def)
qed

lemma nth_concat_pairs:
  "i < length xs \<Longrightarrow> concat (map (\<lambda>x. [f x, g x]) xs) ! (2 * i) = f (xs ! i)"
  "i < length xs \<Longrightarrow> concat (map (\<lambda>x. [f x, g x]) xs) ! Suc (2 * i) = g (xs ! i)"
proof (induction xs arbitrary: i)
  case (Cons x xs)
  { case 1 then show ?case using Cons.IH by (cases i) auto }
  { case 2 then show ?case using Cons.IH by (cases i) auto }
qed simp_all

lemma length_concat_pairs: "length (concat (map (\<lambda>x. [f x, g x]) xs)) = 2 * length xs"
  by (induction xs) simp_all

text \<open>The entries of the table of words.\<close>

lemma stack_words_nth:
  fixes n :: u64 and a e :: "u64 list" and x :: "(u64 \<times> u64) list" and g :: "u64 \<times> u64 \<Rightarrow> u64"
  defines "ws \<equiv> n # a @ [0] @ e @ [0] @ concat (map (\<lambda>kv. [fst kv, g kv]) x)"
  shows "ws ! 0 = n" "\<And>i. i < length a \<Longrightarrow> ws ! (1 + i) = a ! i" "ws ! (1 + length a) = 0"
    "\<And>i. i < length e \<Longrightarrow> ws ! (2 + length a + i) = e ! i" "ws ! (2 + length a + length e) = 0"
    "\<And>i. i < length x \<Longrightarrow> ws ! (3 + length a + length e + 2 * i) = fst (x ! i)"
    "\<And>i. i < length x \<Longrightarrow> ws ! (4 + length a + length e + 2 * i) = g (x ! i)"
    "length ws = 3 + length a + length e + 2 * length x"
proof -
  let ?c = "concat (map (\<lambda>kv. [fst kv, g kv]) x)"
  have ws: "ws = (n # a @ 0 # e @ [0]) @ ?c" by (simp add: ws_def)
  have l: "length (n # a @ 0 # e @ [0]) = 3 + length a + length e" by simp
  have c: "ws ! (3 + length a + length e + j) = ?c ! j" for j unfolding ws nth_append l by simp
  show "ws ! (3 + length a + length e + 2 * i) = fst (x ! i)" if "i < length x" for i
    using c nth_concat_pairs(1)[OF that, of fst g] by simp
  show "ws ! (4 + length a + length e + 2 * i) = g (x ! i)" if "i < length x" for i
    using c[of "Suc (2 * i)"] nth_concat_pairs(2)[OF that, of fst g] by (simp add: numeral_eq_Suc)
  show "ws ! 0 = n" "ws ! (1 + length a) = 0" "ws ! (2 + length a + length e) = 0"
    "length ws = 3 + length a + length e + 2 * length x"
    by (simp_all add: ws_def nth_append length_concat_pairs)
  show "ws ! (1 + i) = a ! i" if "i < length a" for i using that by (simp add: ws_def nth_append)
  show "ws ! (2 + length a + i) = e ! i" if "i < length e" for i using that by (simp add: ws_def nth_append)
qed

lemma stack_pointer_aligned:
  assumes "stack_parts st ws pad strings" "unat (ius_end st) mod 4096 = 0" "4096 \<le> unat (ius_end st)"
  shows "unat (ius_rsp st) mod 16 = 0" "ius_end st - 4096 \<le> ius_rsp st" "ius_rsp st < ius_end st"
proof -
  let ?n = "length strings + 8 * length ws + pad"
  have p: "?n \<le> 4096" "16 dvd ?n" "0 < ?n" "ius_rsp st = ius_end st - of_nat ?n"
    using assms(1) unfolding stack_parts_def Let_def by (simp_all only: add_pos_nonneg) linarith+
  have u: "unat (of_nat ?n :: u64) = ?n" using p(1) by (simp only: unat_of_nat) simp
  have le: "(of_nat ?n :: u64) \<le> ius_end st" unfolding word_le_nat_alt u using p(1) assms(3) by linarith
  have r: "unat (ius_rsp st) = unat (ius_end st) - ?n" unfolding p(4) unat_sub[OF le] u ..
  have e: "unat (ius_end st - 4096) = unat (ius_end st) - 4096" using assms(3) by (subst unat_sub) (simp_all add: word_le_nat_alt)
  have "(16 :: nat) dvd 4096" "4096 dvd unat (ius_end st)" using assms(2) by (simp_all add: dvd_eq_mod_eq_0)
  then have "16 dvd unat (ius_end st)" by (rule dvd_trans)
  then show "unat (ius_rsp st) mod 16 = 0" unfolding r using p(2) by (simp add: mod_eq_0_iff_dvd dvd_diff_nat)
  show "ius_end st - 4096 \<le> ius_rsp st" unfolding word_le_nat_alt e r using p(1) by linarith
  show "ius_rsp st < ius_end st" unfolding word_less_nat_alt r using p(3) assms(3) by linarith
qed

section \<open>Properties\<close>

text \<open>
  C18. A program finds its arguments: on the stack that the kernel builds, the stack pointer is aligned to sixteen bytes inside the
  last page, the word there is the number of arguments, the words after it point to the arguments in order, then comes zero, then
  pointers to the environment, zero, and the auxiliary vector in order, whose entry 31 points to the path of the program, whose entry 25
  points to sixteen bytes of the page and whose other entries have the values given. Every string read through these pointers up to the
  first zero is the string passed in.
\<close>

theorem initial_stack_layout:
  assumes "build_initial_user_stack seed argv envp execfn auxv = Inr st" "\<forall>s\<in>set (argv @ envp @ [execfn]). 0 \<notin> set s"
  shows "unat (ius_rsp st) mod 16 = 0 \<and> ius_end st - 4096 \<le> ius_rsp st \<and> ius_rsp st < ius_end st \<and> length (ius_page st) = 4096
    \<and> (let word = (\<lambda>n. stack_word st (ius_rsp st + 8 * of_nat n))
       in word 0 = of_nat (length argv)
        \<and> (\<forall>i < length argv. stack_string st (word (1 + i)) = argv ! i) \<and> word (1 + length argv) = 0
        \<and> (\<forall>i < length envp. stack_string st (word (2 + length argv + i)) = envp ! i) \<and> word (2 + length argv + length envp) = 0
        \<and> (\<forall>i < length auxv. word (3 + length argv + length envp + 2 * i) = fst (auxv ! i)
            \<and> (let value = word (4 + length argv + length envp + 2 * i)
               in if fst (auxv ! i) = 25 then page_index st value + 16 \<le> 4096
                  else if fst (auxv ! i) = 31 then stack_string st value = execfn else value = snd (auxv ! i))))"
proof -
  define random where "random = stack_random 16 (seed * 6364136223846793005 + 1442695040888963407)"
  define strings where "strings = string_area argv @ string_area envp @ random @ execfn @ [0]"
  define at where "at = (\<lambda>off. ius_end st - of_nat (length strings) + of_nat off :: u64)"
  define n where "n = length (string_area argv @ string_area envp)"
  define a where "a = map at (string_offsets 0 argv)"
  define e where "e = map at (string_offsets (length (string_area argv)) envp)"
  define g where "g = resolve_auxv (at n) (at (n + 16))"
  define ws where "ws = (of_nat (length argv) :: u64) # a @ [0] @ e @ [0] @ concat (map (\<lambda>kv. [fst kv, g kv]) auxv)"
  have len: "length a = length argv" "length e = length envp" by (simp_all add: a_def e_def)
  obtain pad where parts: "stack_parts st ws pad strings"
    using build_parts(1)[OF assms(1)] unfolding ws_def a_def e_def g_def at_def n_def strings_def random_def by blast
  note top = build_parts(2,3)[OF assms(1)]
  note nth = stack_words_nth[where n = "of_nat (length argv)" and a = a and e = e and g = g and x = auxv, folded ws_def, unfolded len]
  have word: "stack_word st (ius_rsp st + 8 * of_nat i) = ws ! i" if "i < 3 + length argv + length envp + 2 * length auxv" for i
    using stack_parts_word[OF parts] that nth(8) by simp
  have str: "stack_string st (at off) = takeWhile (\<lambda>b. b \<noteq> 0) (drop off strings)" "page_index st (at off) = 4096 - length strings + off"
    if "off \<le> length strings" for off
    using stack_parts_string[OF parts that] unfolding at_def by simp_all
  have arg: "stack_string st (a ! i) = argv ! i" if i: "i < length argv" for i
  proof -
    have o: "string_offsets 0 argv ! i < length (string_area argv)" using string_at_offset(3)[OF i, of 0] assms(2) by simp
    have "stack_string st (at (string_offsets 0 argv ! i)) = argv ! i"
      using str(1) string_at_offset(1)[OF i, of 0 "string_area envp @ random @ execfn @ [0]"] assms(2) o by (simp add: strings_def)
    then show ?thesis using i by (simp add: a_def)
  qed
  have env: "stack_string st (e ! i) = envp ! i" if i: "i < length envp" for i
  proof -
    let ?n = "length (string_area argv)" let ?o = "string_offsets ?n envp ! i"
    have o: "?n \<le> ?o" "?o < ?n + length (string_area envp)" using string_at_offset(2,3)[OF i, of ?n] assms(2) by simp_all
    have "takeWhile (\<lambda>b. b \<noteq> 0) (drop (?o - ?n) (string_area envp @ random @ execfn @ [0])) = envp ! i"
      by (rule string_at_offset(1)[OF i]) (use assms(2) in auto)
    moreover have "drop ?o strings = drop (?o - ?n) (string_area envp @ random @ execfn @ [0])"
      using o(1) unfolding strings_def drop_append[of _ "string_area argv"] by simp
    moreover have "?o \<le> length strings" using o(2) by (simp add: strings_def)
    ultimately have "stack_string st (at ?o) = envp ! i" using str(1)[of ?o] by (simp only:)
    then show ?thesis using i by (simp add: e_def)
  qed
  have fn: "stack_string st (at (n + 16)) = execfn"
  proof -
    have "drop (n + 16) strings = execfn @ [0]" "n + 16 \<le> length strings" by (simp_all add: strings_def n_def random_def)
    moreover have "takeWhile (\<lambda>b. b \<noteq> 0) (execfn @ [0]) = execfn" using assms(2) by (subst takeWhile_append2) auto
    ultimately show ?thesis using str(1) by simp
  qed
  have rnd: "page_index st (at n) + 16 \<le> 4096"
  proof -
    have "n + 16 \<le> length strings" "length strings \<le> 4096"
      using parts by (simp_all add: strings_def n_def random_def stack_parts_def Let_def)
    then show ?thesis using str(2)[of n] by simp
  qed
  have aux: "(if fst kv = 25 then page_index st (g kv) + 16 \<le> 4096 else if fst kv = 31 then stack_string st (g kv) = execfn else g kv = snd kv)" for kv
    using fn rnd by (simp add: g_def resolve_auxv_def)
  have al: "unat (ius_end st) mod 4096 = 0" "4096 \<le> unat (ius_end st)" using stack_end_bounds[of seed] top(1) by simp_all
  define W where "W = (\<lambda>n. stack_word st (ius_rsp st + 8 * of_nat n))"
  have W: "W k = ws ! k" if "k < 3 + length argv + length envp + 2 * length auxv" for k using word[OF that] by (simp only: W_def)
  have "W 0 = of_nat (length argv)" "W (1 + length argv) = 0" "W (2 + length argv + length envp) = 0"
    using nth(1,3,5) by (subst W; simp)+
  moreover have "stack_string st (W (1 + i)) = argv ! i" if "i < length argv" for i
    using nth(2)[OF that] arg[OF that] that by (subst W) simp_all
  moreover have "stack_string st (W (2 + length argv + i)) = envp ! i" if "i < length envp" for i
    using nth(4)[OF that] env[OF that] that by (subst W) simp_all
  moreover have "W (3 + length argv + length envp + 2 * i) = fst (auxv ! i)" "W (4 + length argv + length envp + 2 * i) = g (auxv ! i)"
    if "i < length auxv" for i
    using nth(6,7)[OF that] that by (subst W; simp)+
  ultimately show ?thesis
    using stack_pointer_aligned[OF parts al] top(2) aux unfolding Let_def fun_cong[OF W_def, symmetric] by simp
qed

theorem initial_stack_layout_witness:
  "\<exists>st. build_initial_user_stack 0 [[0x61]] [[0x62]] [0x63] [(31, 0), (0, 0)] = Inr st
    \<and> stack_word st (ius_rsp st) = 1 \<and> stack_string st (stack_word st (ius_rsp st + 8)) = [0x61]"
proof -
  obtain st where st: "build_initial_user_stack 0 [[0x61]] [[0x62]] [0x63] [(31, 0), (0, 0)] = Inr st"
    by (simp add: build_initial_user_stack_def Let_def string_area_def)
  then show ?thesis using initial_stack_layout[OF st] by (simp add: Let_def)
qed

end
