(* ===== verification/Exec.thy ===== *)
theory Exec
  imports Exec_Stack Elf
begin

text \<open>
  Starting programs, from \<^verbatim>\<open>src/src/core/syscall/exec.rs\<close>, with \<^verbatim>\<open>read_all\<close> of \<^verbatim>\<open>src/src/core/kmod/fs.rs\<close>. The statics of the file are
  kept beside the kernel state. A result \<^term>\<open>None\<close> is a panic or a wait for a lock that is never given back. What the processor
  and the loaded file system module contribute are parameters: a random number and the read operation of the module. The
  supervisor-mode access guard and the log are not part of the state.
\<close>

section \<open>State\<close>

record exec_state =
  xs_kernel :: kernel
  xs_aslr_counter :: u64
  xs_manager_pid :: u64

type_synonym fs_read = "bytes \<Rightarrow> u64 \<Rightarrow> int \<times> nat \<times> bytes"

record exec_env =
  env_images :: images
  env_fs_ops :: "fs_read option"
  env_random :: "u64 option"

definition on_kernel :: "(kernel \<Rightarrow> kernel) \<Rightarrow> exec_state \<Rightarrow> exec_state" where
  "on_kernel f s = s\<lparr>xs_kernel := f (xs_kernel s)\<rparr>"

definition register_service_manager_pid :: "u64 \<Rightarrow> exec_state \<Rightarrow> exec_state" where
  "register_service_manager_pid pid s = s\<lparr>xs_manager_pid := pid\<rparr>"

section \<open>Reading a file through the module\<close>

definition MODULE_MAX_READ_BYTES :: nat where "MODULE_MAX_READ_BYTES = 64 * 1024 * 1024"

text \<open>One call of the module's read gives a code, a number of bytes and what it wrote to the front of the buffer.\<close>

function read_all_loop :: "fs_read \<Rightarrow> images \<Rightarrow> bytes \<Rightarrow> u64 \<Rightarrow> bytes \<Rightarrow> bytes \<Rightarrow> bytes answer" where
  "read_all_loop rd im path offset chunk out =
    (case rd path offset of (rc, nread, written) \<Rightarrow>
      let chunk = overwrite_front chunk (take (length chunk) written)
      in if rc \<noteq> 0 then (if rc = -2 then Absent else if out = [] then initfs_read im path else Found out)
         else if nread = 0 then Found out
         else if nread > length chunk then Absent
         else let out = out @ take nread chunk
              in if length out > MODULE_MAX_READ_BYTES then Absent
                 else read_all_loop rd im path (saturating_add offset (of_nat nread)) chunk out)"
  by pat_completeness auto
termination
  by (relation "measure (\<lambda>(rd, im, path, offset, chunk, out). MODULE_MAX_READ_BYTES - length out)") auto

definition read_all :: "exec_env \<Rightarrow> bytes \<Rightarrow> bytes answer" where
  "read_all env path =
    (case env_fs_ops env of
       None \<Rightarrow> initfs_read (env_images env) path
     | Some rd \<Rightarrow> read_all_loop rd (env_images env) path 0 (replicate 4096 0) [])"

section \<open>Random addresses\<close>

definition TLS_BASE_MIN :: u64 where "TLS_BASE_MIN = 0x30000000"
definition TLS_ASLR_MAX_PAGES :: u64 where "TLS_ASLR_MAX_PAGES = 0x4000"
definition INITIAL_TLS_SIZE :: u64 where "INITIAL_TLS_SIZE = 4096"
definition HEAP_BASE_MIN :: u64 where "HEAP_BASE_MIN = 0x40000000"
definition HEAP_ASLR_MAX_PAGES :: u64 where "HEAP_ASLR_MAX_PAGES = 0x8000"
definition EXEC_KERNEL_STACK_SIZE :: u64 where "EXEC_KERNEL_STACK_SIZE = 4096 * 32"

definition next_aslr_seed :: "platform \<Rightarrow> exec_env \<Rightarrow> bytes \<Rightarrow> exec_state \<Rightarrow> u64 \<times> exec_state" where
  "next_aslr_seed plat env tag s =
    (let hash = foldl (\<lambda>h b. (h XOR ucast b) * 0x100000001b3) 0xcbf29ce484222325 tag;
         boot = plat_boot_entropy plat;
         ctr = (if xs_aslr_counter s = 0 then (let i = boot XOR 0x7c4a7f73d3e19b1d in if i = 0 then 1 else i) else xs_aslr_counter s);
         k = xs_kernel s;
         tid = (case current_thread_id k of Some t \<Rightarrow> t | None \<Rightarrow> 0);
         hw = (case env_random env of Some r \<Rightarrow> r | None \<Rightarrow> 0)
     in (aslr_mix64 (hash XOR ctr XOR word_rotl 17 (k_ticks k) XOR word_rotl 7 tid XOR word_rotl 29 hw XOR boot),
         s\<lparr>xs_aslr_counter := ctr + 0x9e3779b97f4a7c15\<rparr>))"

section \<open>Rights\<close>

definition caller_can_launch_service :: "exec_state \<Rightarrow> bool" where
  "caller_can_launch_service s =
    (let k = xs_kernel s
     in case current_pid k of
          None \<Rightarrow> True
        | Some caller_pid \<Rightarrow>
            if (case get_process k caller_pid of Some p \<Rightarrow> p_privilege p = PrivCore | None \<Rightarrow> False) then True
            else if xs_manager_pid s = 0 \<or> caller_pid \<noteq> xs_manager_pid s then False
            else case get_process k (xs_manager_pid s) of
                None \<Rightarrow> False
              | Some p \<Rightarrow> p_state p \<noteq> PZombie \<and> p_state p \<noteq> PTerminated \<and> (p_privilege p = PrivService \<or> p_privilege p = PrivCore))"

definition caller_is_service_or_core :: "exec_state \<Rightarrow> bool" where
  "caller_is_service_or_core s =
    (case Option.bind (current_pid (xs_kernel s)) (get_process (xs_kernel s)) of
       None \<Rightarrow> False
     | Some p \<Rightarrow> p_privilege p = PrivCore \<or> p_privilege p = PrivService)"

definition desktop_paths :: "bytes list" where
  "desktop_paths = map str_bytes
    [''/applications/Kagami.app/entry.elf'', ''/applications/ViewKit.app/entry.elf'', ''/applications/Binder.app/entry.elf'',
     ''/applications/Dock.app/entry.elf'', ''applications/Kagami.app/entry.elf'', ''applications/ViewKit.app/entry.elf'',
     ''applications/Binder.app/entry.elf'', ''applications/Dock.app/entry.elf'']"

definition DOT_SERVICE :: bytes where "DOT_SERVICE = str_bytes ''.service''"

definition resolve_exec_privilege :: "exec_state \<Rightarrow> bytes \<Rightarrow> bytes \<Rightarrow> privilege_level" where
  "resolve_exec_privilege s proc_name exec_path =
    (let is_driver_path = starts_with exec_path (str_bytes ''bin/drivers/'') \<or> starts_with exec_path (str_bytes ''/bin/drivers/'')
     in if ends_with proc_name DOT_SERVICE \<or> exec_path \<in> set desktop_paths \<or> (is_driver_path \<and> caller_is_service_or_core s)
        then PrivService else PrivUser)"

section \<open>Arguments\<close>

text \<open>The bytes up to the first two zeros in a row, those two included; all bytes when there are none.\<close>

fun upto_double_zero :: "bytes \<Rightarrow> bytes" where
  "upto_double_zero (a # b # xs) = (if a = 0 \<and> b = 0 then [a, b] else a # upto_double_zero (b # xs))"
| "upto_double_zero xs = xs"

fun nul_args :: "nat \<Rightarrow> bytes list \<Rightarrow> bytes list \<Rightarrow> bytes list sysres" where
  "nul_args max_args [] out = Inr out"
| "nul_args max_args (s # ss) out =
    (if s = [] then nul_args max_args ss out
     else if \<not> utf8_valid s then Inl EINVAL
     else let out = out @ [s] in if length out \<ge> max_args then Inr out else nul_args max_args ss out)"

definition read_nul_args_from_user :: "platform \<Rightarrow> kernel \<Rightarrow> u64 \<Rightarrow> nat \<Rightarrow> nat \<Rightarrow> bytes list sysres" where
  "read_nul_args_from_user plat k args_ptr max_total_bytes max_args =
    (if args_ptr = 0 then Inr []
     else case copy_from_user plat k args_ptr max_total_bytes of
         Inl e \<Rightarrow> Inl e
       | Inr storage \<Rightarrow> nul_args max_args (split_on 0 (upto_double_zero storage)) [])"

fun ptr_array_loop :: "platform \<Rightarrow> kernel \<Rightarrow> u64 \<Rightarrow> nat \<Rightarrow> nat list \<Rightarrow> bytes list \<Rightarrow> bytes list" where
  "ptr_array_loop plat k array_ptr max_entries [] result = result"
| "ptr_array_loop plat k array_ptr max_entries (i # is) result =
    (case checked_add array_ptr (of_nat i * 8) of
       None \<Rightarrow> result
     | Some ptr_addr \<Rightarrow>
         if \<not> validate_user_ptr plat k ptr_addr 8 then result
         else case read_user_u64 plat k ptr_addr of
             Inl _ \<Rightarrow> result
           | Inr entry_ptr \<Rightarrow>
               if entry_ptr = 0 then result
               else case read_user_cstring plat k entry_ptr 4096 of
                   Inl _ \<Rightarrow> result
                 | Inr s \<Rightarrow> let result = result @ [s] in if length result \<ge> max_entries then result
                     else ptr_array_loop plat k array_ptr max_entries is result)"

definition read_user_ptr_array :: "platform \<Rightarrow> kernel \<Rightarrow> u64 \<Rightarrow> nat \<Rightarrow> bytes list" where
  "read_user_ptr_array plat k array_ptr max_entries =
    (if array_ptr = 0 then [] else ptr_array_loop plat k array_ptr max_entries [0..<max_entries + 1] [])"

section \<open>Building the address space\<close>

text \<open>Operations on the tables that end with an error code, and their composition: a step that panics ends everything.\<close>

type_synonym 'a table_op = "vm \<Rightarrow> ('a sysres \<times> vm) option"

definition table_then :: "'a table_op \<Rightarrow> ('a \<Rightarrow> 'b table_op) \<Rightarrow> 'b table_op" where
  "table_then f g v = (case f v of None \<Rightarrow> None | Some (Inl e, v) \<Rightarrow> Some (Inl e, v) | Some (Inr x, v) \<Rightarrow> g x v)"

definition table_return :: "'a sysres \<Rightarrow> 'a table_op" where
  "table_return r v = Some (r, v)"

definition map_or_einval :: "x86 \<Rightarrow> u64 \<Rightarrow> u64 \<Rightarrow> u64 \<Rightarrow> u64 \<Rightarrow> bytes \<Rightarrow> bool \<Rightarrow> bool \<Rightarrow> unit table_op" where
  "map_or_einval X t vaddr filesz memsz src writable executable v =
    (case map_and_copy_segment_to X t vaddr filesz memsz src writable executable v of
       (Ok _, v) \<Rightarrow> Some (Inr (), v)
     | (Err _, v) \<Rightarrow> Some (Inl EINVAL, v)
     | (Stuck, v) \<Rightarrow> None)"

text \<open>A segment of the program, with the base address that the first one sets.\<close>

definition exec_segment :: "x86 \<Rightarrow> u64 \<Rightarrow> bytes \<Rightarrow> u64 option \<Rightarrow> elf_phdr \<Rightarrow> u64 option table_op" where
  "exec_segment X t data load_base ph =
    (if ph_type ph \<noteq> PT_LOAD then table_return (Inr load_base)
     else if ph_vaddr ph \<ge> USER_SPACE_END then table_return (Inl EINVAL)
     else if ph_memsz ph > 0 \<and> (case checked_add (ph_vaddr ph) (ph_memsz ph) of Some e \<Rightarrow> e > USER_SPACE_END | None \<Rightarrow> True)
     then table_return (Inl EINVAL)
     else case checked_add (ph_offset ph) (ph_filesz ph) of
         None \<Rightarrow> table_return (Inl EINVAL)
       | Some src_end \<Rightarrow>
           if unat src_end > length data then table_return (Inl EINVAL)
           else table_then (map_or_einval X t (ph_vaddr ph) (ph_filesz ph) (ph_memsz ph)
                  (take (unat (ph_filesz ph)) (drop (unat (ph_offset ph)) data)) (ph_flags ph AND 2 \<noteq> 0) (ph_flags ph AND 1 \<noteq> 0)) (\<lambda>_.
                table_return (Inr (case load_base of Some b \<Rightarrow> Some b | None \<Rightarrow> Some (saturating_sub (ph_vaddr ph) (ph_offset ph))))))"

fun exec_segments :: "x86 \<Rightarrow> u64 \<Rightarrow> bytes \<Rightarrow> elf_header \<Rightarrow> nat list \<Rightarrow> u64 option \<Rightarrow> u64 option table_op" where
  "exec_segments X t data h [] load_base v = Some (Inr load_base, v)"
| "exec_segments X t data h (i # is) load_base v =
    (case phdr_offset h i of
       None \<Rightarrow> Some (Inl EINVAL, v)
     | Some off_hdr \<Rightarrow>
         if off_hdr \<ge> length data then Some (Inl EINVAL, v)
         else case parse_phdr data off_hdr of
             Found ph \<Rightarrow> table_then (exec_segment X t data load_base ph) (exec_segments X t data h is) v
           | Absent \<Rightarrow> exec_segments X t data h is load_base v
           | Panics \<Rightarrow> None)"

definition load_program :: "x86 \<Rightarrow> u64 \<Rightarrow> bytes \<Rightarrow> elf_header \<Rightarrow> u64 table_op" where
  "load_program X t data h =
    (if e_machine h \<noteq> EM_X86_64 \<or> e_phentsize h = 0 then table_return (Inl EINVAL)
     else table_then (exec_segments X t data h [0..<unat (e_phnum h)] None) (\<lambda>base.
       table_return (Inr (case base of Some b \<Rightarrow> b | None \<Rightarrow> 0))))"

definition auxv_entries :: "u64 \<Rightarrow> elf_header \<Rightarrow> u64 \<Rightarrow> (u64 \<times> u64) list" where
  "auxv_entries phdr_vaddr h entry =
    [(3, phdr_vaddr), (4, ucast (e_phentsize h)), (5, ucast (e_phnum h)), (6, 4096), (7, 0), (8, 0), (9, entry), (11, 0), (12, 0), (13, 0),
     (14, 0), (16, 0), (17, 100), (23, 0), (25, 0), (31, 0), (0, 0)]"

definition map_initial_stack :: "x86 \<Rightarrow> u64 \<Rightarrow> initial_user_stack \<Rightarrow> unit table_op" where
  "map_initial_stack X t st =
    table_then (map_or_einval X t (ius_base st) 0 (of_nat (USER_STACK_SIZE_PAGES - 1) * 4096) [] True False) (\<lambda>_.
      map_or_einval X t (ius_end st - 4096) 4096 4096 (ius_page st) True False)"

definition heap_base_of :: "u64 \<Rightarrow> u64" where
  "heap_base_of aslr_seed = saturating_add HEAP_BASE_MIN (aslr_offset_pages (aslr_seed XOR 0x4a116b5c) HEAP_ASLR_MAX_PAGES * 4096)"

definition map_initial_heap :: "x86 \<Rightarrow> u64 \<Rightarrow> u64 \<Rightarrow> unit table_op" where
  "map_initial_heap X t aslr_seed = map_or_einval X t (heap_base_of aslr_seed) 0 0x2000 [] True False"

definition map_initial_tls :: "x86 \<Rightarrow> u64 \<Rightarrow> u64 \<Rightarrow> u64 table_op" where
  "map_initial_tls X t aslr_seed =
    (let tls_base = saturating_add TLS_BASE_MIN (aslr_offset_pages (aslr_seed XOR 0x19d73c6a) TLS_ASLR_MAX_PAGES * 4096)
     in table_then (map_or_einval X t tls_base INITIAL_TLS_SIZE INITIAL_TLS_SIZE
          (overwrite_front (replicate (unat INITIAL_TLS_SIZE) 0) (to_le_bytes tls_base)) True False) (\<lambda>_. table_return (Inr tls_base)))"

text \<open>A step whose failure is only logged: whether it succeeded.\<close>

definition attempt :: "unit table_op \<Rightarrow> bool table_op" where
  "attempt f v = (case f v of None \<Rightarrow> None | Some (Inl _, v) \<Rightarrow> Some (Inr False, v) | Some (Inr _, v) \<Rightarrow> Some (Inr True, v))"

section \<open>The initialiser of a service\<close>

text \<open>Indexing past the end of the file panics; the panic is \<^term>\<open>None\<close>.\<close>

definition slice_field :: "bytes \<Rightarrow> nat \<Rightarrow> nat \<Rightarrow> 'a::len word option" where
  "slice_field data off n = (if off + n \<le> length data then Some (field data off n) else None)"

text \<open>Offset, size and entry size of the symbol table, offset and size of its strings.\<close>

fun find_symtab :: "bytes \<Rightarrow> nat \<Rightarrow> nat \<Rightarrow> nat \<Rightarrow> nat list \<Rightarrow> (nat \<times> nat \<times> nat \<times> nat \<times> nat) option" where
  "find_symtab data shoff shentsz shnum [] = Some (0, 0, 0, 0, 0)"
| "find_symtab data shoff shentsz shnum (si # is) =
    (let sh_off = shoff + si * shentsz
     in if sh_off + shentsz > length data then Some (0, 0, 0, 0, 0)
        else do {
          sh_type \<leftarrow> slice_field data (sh_off + 4) 4 :: u32 option;
          sh_offset \<leftarrow> slice_field data (sh_off + 24) 8 :: u64 option;
          sh_size \<leftarrow> slice_field data (sh_off + 32) 8 :: u64 option;
          sh_link \<leftarrow> slice_field data (sh_off + 40) 4 :: u32 option;
          sh_entsize \<leftarrow> slice_field data (sh_off + 56) 8 :: u64 option;
          if sh_type = 2 then
            (if unat sh_link < shnum then do {
               strtab_offset \<leftarrow> slice_field data (shoff + unat sh_link * shentsz + 24) 8 :: u64 option;
               strtab_size \<leftarrow> slice_field data (shoff + unat sh_link * shentsz + 32) 8 :: u64 option;
               Some (unat sh_offset, unat sh_size, unat sh_entsize, unat strtab_offset, unat strtab_size) }
             else Some (unat sh_offset, unat sh_size, unat sh_entsize, 0, 0))
          else find_symtab data shoff shentsz shnum is })"

fun find_symbol :: "bytes \<Rightarrow> bytes \<Rightarrow> nat \<Rightarrow> nat \<Rightarrow> nat \<Rightarrow> nat \<Rightarrow> nat list \<Rightarrow> u64 option option" where
  "find_symbol data name symtab_offset entsize strtab_offset strtab_size [] = Some None"
| "find_symbol data name symtab_offset entsize strtab_offset strtab_size (i # is) =
    (let sym_off = symtab_offset + i * entsize
     in if sym_off + entsize \<ge> 2 ^ 64 then None
        else if sym_off + entsize > length data then Some None
        else do {
          st_name \<leftarrow> slice_field data sym_off 4 :: u32 option;
          st_value \<leftarrow> slice_field data (sym_off + 8) 8 :: u64 option;
          if unat st_name < strtab_size then
            (let name_off = strtab_offset + unat st_name
             in if name_off \<ge> 2 ^ 64 then None
                else if name_off < length data \<and> takeWhile (\<lambda>b. b \<noteq> 0) (drop name_off data) = name then Some (Some st_value)
                else find_symbol data name symtab_offset entsize strtab_offset strtab_size is)
          else find_symbol data name symtab_offset entsize strtab_offset strtab_size is })"

definition find_sinit :: "bytes \<Rightarrow> elf_header \<Rightarrow> u64 option option" where
  "find_sinit data h =
    (let shoff = unat (e_shoff h); shentsz = unat (e_shentsize h); shnum = unat (e_shnum h)
     in if \<not> (shoff > 0 \<and> shentsz > 0 \<and> shnum > 0) then Some None
        else if shoff + shentsz * shnum \<ge> 2 ^ 64 then None
        else if length data < shoff + shentsz * shnum then Some None
        else do {
          (symtab_offset, symtab_size, entsize, strtab_offset, strtab_size) \<leftarrow> find_symtab data shoff shentsz shnum [0..<shnum];
          if symtab_offset > 0 \<and> strtab_offset > 0 \<and> entsize > 0
          then find_symbol data (str_bytes ''__sinit'') symtab_offset entsize strtab_offset strtab_size [0..<symtab_size div entsize]
          else Some None })"

text \<open>The stub that calls the initialiser and then jumps to the entry point: movabs rax, call rax, movabs rax, jmp rax.\<close>

definition sinit_stub :: "u64 \<Rightarrow> u64 \<Rightarrow> bytes" where
  "sinit_stub sinit entry = [0x48, 0xB8] @ to_le_bytes sinit @ [0xFF, 0xD0] @ [0x48, 0xB8] @ to_le_bytes entry @ [0xFF, 0xE0]"

section \<open>Starting a program as a new process\<close>

record exec_image =
  xi_entry :: u64
  xi_stack :: initial_user_stack
  xi_heap_mapped :: bool

definition last_component :: "bytes \<Rightarrow> bytes" where
  "last_component path = last (split_on SLASH path)"

definition program_args :: "bytes \<Rightarrow> bytes list \<Rightarrow> bytes list" where
  "program_args exec_path args =
    (let base_name = last_component exec_path
     in (case strip_suffix base_name (str_bytes ''.elf'') of Some s \<Rightarrow> s | None \<Rightarrow> base_name) # args)"

definition install_stub :: "x86 \<Rightarrow> u64 \<Rightarrow> u64 option \<Rightarrow> u64 \<Rightarrow> u64 \<Rightarrow> u64 table_op" where
  "install_stub X t sinit_addr stack_end entry =
    (case sinit_addr of
       None \<Rightarrow> table_return (Inr entry)
     | Some sinit \<Rightarrow> (case checked_add stack_end 4096 of
           None \<Rightarrow> table_return (Inl EINVAL)
         | Some stub_addr \<Rightarrow> table_then (attempt (map_or_einval X t stub_addr 24 4096 (sinit_stub sinit entry) False True)) (\<lambda>mapped.
             table_return (Inr (if mapped then stub_addr else entry)))))"

definition build_image :: "x86 \<Rightarrow> u64 \<Rightarrow> bytes \<Rightarrow> elf_header \<Rightarrow> u64 \<Rightarrow> u64 \<Rightarrow> bytes \<Rightarrow> bytes list \<Rightarrow> exec_image table_op" where
  "build_image X t data h entry aslr_seed exec_path args =
    table_then (load_program X t data h) (\<lambda>load_base.
      case (if ends_with exec_path DOT_SERVICE then find_sinit data h else Some None) of
        None \<Rightarrow> (\<lambda>v. None)
      | Some sinit_addr \<Rightarrow>
          (case build_initial_user_stack aslr_seed (program_args exec_path args) [] exec_path
              (auxv_entries (saturating_add load_base (e_phoff h)) h entry) of
             Inl code \<Rightarrow> table_return (Inl code)
           | Inr st \<Rightarrow>
               table_then (map_initial_stack X t st) (\<lambda>_.
               table_then (attempt (map_initial_heap X t aslr_seed)) (\<lambda>heap_pre_mapped.
               table_then (install_stub X t sinit_addr (ius_end st) entry) (\<lambda>entry.
                 table_return (Inr \<lparr>xi_entry = entry, xi_stack = st, xi_heap_mapped = heap_pre_mapped\<rparr>))))))"

definition exec_process :: "exec_image \<Rightarrow> u64 \<Rightarrow> u64 \<Rightarrow> bytes \<Rightarrow> bytes \<Rightarrow> process_id option \<Rightarrow> exec_state \<Rightarrow> process \<times> exec_state" where
  "exec_process img t aslr_seed proc_name exec_path parent_override s =
    (let k = xs_kernel s;
         parent_pid = (case parent_override of Some p \<Rightarrow> Some p | None \<Rightarrow> current_pid k);
         (p, next) = process_new proc_name (resolve_exec_privilege s proc_name exec_path) parent_pid 0 (k_next_pid k);
         st = xi_stack img;
         p = p\<lparr>p_page_table := Some t, p_stack_bottom := ius_base st, p_stack_top := ius_end st + 4096\<rparr>;
         p = (case Option.bind parent_pid (get_process k) of Some parent \<Rightarrow> set_cwd (process_cwd parent) p | None \<Rightarrow> p);
         p = (if xi_heap_mapped img then p\<lparr>p_heap_start := heap_base_of aslr_seed, p_heap_end := heap_base_of aslr_seed + 0x2000\<rparr> else p)
     in (p, on_kernel (\<lambda>k. k\<lparr>k_next_pid := next\<rparr>) s))"

definition release_manager :: "bool \<Rightarrow> process_id \<Rightarrow> exec_state \<Rightarrow> exec_state" where
  "release_manager is_core_service pid s = (if is_core_service \<and> xs_manager_pid s = pid then s\<lparr>xs_manager_pid := 0\<rparr> else s)"

text \<open>
  The thread of the new process. Without a kernel stack the table is destroyed by the code and then by the guard, which is still armed.
\<close>

definition exec_thread :: "platform \<Rightarrow> exec_image \<Rightarrow> u64 \<Rightarrow> bytes \<Rightarrow> process_id \<Rightarrow> u64 \<Rightarrow> bool \<Rightarrow> exec_state \<Rightarrow> u64 \<times> exec_state" where
  "exec_thread plat img t proc_name pid fs_base is_core_service s =
    (let k = xs_kernel s
     in case allocate_kernel_stack (plat_unmap_guard plat) (plat_pool_base plat) EXEC_KERNEL_STACK_SIZE (k_kstacks k) of
          (None, ks) \<Rightarrow>
            (ENOMEM, on_kernel (\<lambda>k. destroy_page_table plat t (destroy_page_table plat t k))
              (release_manager is_core_service pid (on_kernel (\<lambda>k. remove_process pid (k\<lparr>k_kstacks := ks\<rparr>)) s)))
        | (Some kstack, ks) \<Rightarrow>
            let (th, next, _) = thread_new_usermode (plat_exit_handler plat) (plat_usermode_trampoline plat) pid proc_name (xi_entry img)
                  (ius_rsp (xi_stack img)) kstack EXEC_KERNEL_STACK_SIZE (k_next_tid k)
            in case add_thread (th\<lparr>t_fs_base := fs_base\<rparr>) (k\<lparr>k_kstacks := ks, k_next_tid := next\<rparr>) of
                 (None, k) \<Rightarrow>
                   (EINVAL, on_kernel (destroy_page_table plat t)
                     (release_manager is_core_service pid (s\<lparr>xs_kernel := remove_process pid k\<rparr>)))
               | (Some _, k) \<Rightarrow> (pid, s\<lparr>xs_kernel := if sc_enabled (k_sched k) then yield_now plat k else k\<rparr>))"

definition start_program ::
  "platform \<Rightarrow> exec_image \<Rightarrow> u64 \<Rightarrow> u64 \<Rightarrow> bytes \<Rightarrow> bytes \<Rightarrow> process_id option \<Rightarrow> exec_state \<Rightarrow> (u64 \<times> exec_state) option" where
  "start_program plat img t aslr_seed proc_name exec_path parent_override s =
    (let (p, s) = exec_process img t aslr_seed proc_name exec_path parent_override s;
         pid = p_id p; is_core_service = ends_with proc_name (str_bytes ''core.service'')
     in case map_initial_tls (plat_x86 plat) t aslr_seed (k_vm (xs_kernel s)) of
          None \<Rightarrow> None
        | Some (Inl code, v) \<Rightarrow> Some (code, on_kernel (\<lambda>k. destroy_page_table plat t (drop_process p (k\<lparr>k_vm := v\<rparr>))) s)
        | Some (Inr fs_base, v) \<Rightarrow>
            let s = on_kernel (\<lambda>k. k\<lparr>k_vm := v\<rparr>) s
            in if is_core_service \<and> xs_manager_pid s \<noteq> 0
               then Some (EINVAL, on_kernel (\<lambda>k. destroy_page_table plat t (drop_process p k)) s)
               else let s = (if is_core_service then s\<lparr>xs_manager_pid := pid\<rparr> else s)
                    in case add_process p (xs_kernel s) of
                         (None, k) \<Rightarrow> Some (EINVAL, on_kernel (destroy_page_table plat t) (release_manager is_core_service pid (s\<lparr>xs_kernel := k\<rparr>)))
                       | (Some _, k) \<Rightarrow> Some (exec_thread plat img t proc_name pid fs_base is_core_service (s\<lparr>xs_kernel := k\<rparr>)))"

definition exec_with_data ::
  "platform \<Rightarrow> exec_env \<Rightarrow> bytes \<Rightarrow> bytes \<Rightarrow> bytes \<Rightarrow> bytes list \<Rightarrow> process_id option \<Rightarrow> exec_state \<Rightarrow> (u64 \<times> exec_state) option" where
  "exec_with_data plat env data proc_name exec_path args parent_override s =
    (let (aslr_seed, s) = next_aslr_seed plat env proc_name s
     in case (entry_point data, parse_elf_header data) of
          (Some entry, Some h) \<Rightarrow>
            if entry = 0 then Some (EINVAL, s)
            else (case create_user_page_table (plat_x86 plat) (k_vm (xs_kernel s)) of
                (Stuck, v) \<Rightarrow> None
              | (Err _, v) \<Rightarrow> Some (EINVAL, on_kernel (\<lambda>k. k\<lparr>k_vm := v\<rparr>) s)
              | (Ok t, v) \<Rightarrow> (case build_image (plat_x86 plat) t data h entry aslr_seed exec_path args v of
                    None \<Rightarrow> None
                  | Some (Inl code, v) \<Rightarrow> Some (code, on_kernel (\<lambda>k. destroy_page_table plat t (k\<lparr>k_vm := v\<rparr>)) s)
                  | Some (Inr img, v) \<Rightarrow>
                      start_program plat img t aslr_seed proc_name exec_path parent_override (on_kernel (\<lambda>k. k\<lparr>k_vm := v\<rparr>) s)))
        | _ \<Rightarrow> Some (EINVAL, s))"

section \<open>System calls that start a process\<close>

definition exec_internal :: "platform \<Rightarrow> exec_env \<Rightarrow> bytes \<Rightarrow> bytes option \<Rightarrow> bytes list \<Rightarrow> exec_state \<Rightarrow> (u64 \<times> exec_state) option" where
  "exec_internal plat env path name_override args s =
    (let proc_name = (case name_override of Some n \<Rightarrow> n | None \<Rightarrow> last_component path);
         proc_name = (if proc_name = str_bytes ''net'' \<or> proc_name = str_bytes ''net.elf'' \<or> ends_with path (str_bytes ''/bin/drivers/net.elf'')
           then str_bytes ''netdrv'' else proc_name)
     in case initfs_read (env_images env) path of
          Found data \<Rightarrow> exec_with_data plat env data proc_name path args None s
        | Panics \<Rightarrow> None
        | Absent \<Rightarrow> (case read_all env path of
              Found data \<Rightarrow> exec_with_data plat env data proc_name path args None s
            | Panics \<Rightarrow> None
            | Absent \<Rightarrow> Some (ENOENT, s)))"

definition exec_kernel_with_name :: "platform \<Rightarrow> exec_env \<Rightarrow> bytes \<Rightarrow> bytes \<Rightarrow> exec_state \<Rightarrow> (u64 \<times> exec_state) option" where
  "exec_kernel_with_name plat env path name s = exec_internal plat env path (Some name) [] s"

definition exec_kernel_path :: "platform \<Rightarrow> u64 \<Rightarrow> exec_state \<Rightarrow> bytes sysres" where
  "exec_kernel_path plat path_ptr s =
    (if path_ptr = 0 then Inr (str_bytes ''/hello.bin'')
     else case read_user_cstring plat (xs_kernel s) path_ptr 256 of Inl _ \<Rightarrow> Inl EINVAL | Inr path \<Rightarrow> Inr path)"

definition exec_kernel :: "platform \<Rightarrow> exec_env \<Rightarrow> u64 \<Rightarrow> u64 \<Rightarrow> exec_state \<Rightarrow> (u64 \<times> exec_state) option" where
  "exec_kernel plat env path_ptr args_ptr s =
    (case exec_kernel_path plat path_ptr s of
       Inl e \<Rightarrow> Some (e, s)
     | Inr path \<Rightarrow>
         if ends_with path DOT_SERVICE \<and> \<not> caller_can_launch_service s then Some (EPERM, s)
         else case read_nul_args_from_user plat (xs_kernel s) args_ptr 512 64 of
             Inl e \<Rightarrow> Some (e, s)
           | Inr args \<Rightarrow> exec_internal plat env path None args s)"

definition MAX_EXEC_BUFFER :: u64 where "MAX_EXEC_BUFFER = 32 * 1024 * 1024"

definition exec_from_buffer :: "platform \<Rightarrow> exec_env \<Rightarrow> u64 \<Rightarrow> u64 \<Rightarrow> exec_state \<Rightarrow> (u64 \<times> exec_state) option" where
  "exec_from_buffer plat env buf_ptr buf_len s =
    (let k = xs_kernel s
     in if \<not> caller_can_launch_service s then Some (EPERM, s)
        else if buf_ptr = 0 \<or> buf_len = 0 \<or> buf_len > MAX_EXEC_BUFFER then Some (EINVAL, s)
        else if \<not> validate_user_ptr plat k buf_ptr buf_len then Some (EFAULT, s)
        else case copy_from_user plat k buf_ptr (unat buf_len) of
            Inl e \<Rightarrow> Some (e, s)
          | Inr data \<Rightarrow> exec_with_data plat env data (str_bytes ''user_exec'') (str_bytes ''user_exec'') [] None s)"

text \<open>The checks that the calls with a path share, and what they read, in the order of the code: the path, the arguments, the buffer.\<close>

definition named_buffer :: "platform \<Rightarrow> u64 \<Rightarrow> u64 \<Rightarrow> u64 \<Rightarrow> u64 option \<Rightarrow> exec_state \<Rightarrow> (bytes \<times> bytes list \<times> bytes) sysres" where
  "named_buffer plat buf_ptr buf_len path_ptr args_ptr s =
    (let k = xs_kernel s
     in if \<not> caller_can_launch_service s then Inl EPERM
        else if buf_ptr = 0 \<or> buf_len = 0 \<or> buf_len > MAX_EXEC_BUFFER \<or> path_ptr = 0 then Inl EINVAL
        else if \<not> validate_user_ptr plat k buf_ptr buf_len then Inl EFAULT
        else case read_user_cstring plat k path_ptr 256 of
            Inl _ \<Rightarrow> Inl EINVAL
          | Inr path \<Rightarrow> (case (case args_ptr of None \<Rightarrow> Inr [] | Some a \<Rightarrow> read_nul_args_from_user plat k a 512 64) of
                Inl e \<Rightarrow> Inl e
              | Inr args \<Rightarrow> (case copy_from_user plat k buf_ptr (unat buf_len) of
                    Inl e \<Rightarrow> Inl e
                  | Inr data \<Rightarrow> Inr (path, args, data))))"

definition exec_from_buffer_named :: "platform \<Rightarrow> exec_env \<Rightarrow> u64 \<Rightarrow> u64 \<Rightarrow> u64 \<Rightarrow> exec_state \<Rightarrow> (u64 \<times> exec_state) option" where
  "exec_from_buffer_named plat env buf_ptr buf_len path_ptr s =
    (case named_buffer plat buf_ptr buf_len path_ptr None s of
       Inl e \<Rightarrow> Some (e, s)
     | Inr (path, args, data) \<Rightarrow> exec_with_data plat env data (last_component path) path [] None s)"

definition exec_from_buffer_named_args :: "platform \<Rightarrow> exec_env \<Rightarrow> u64 \<Rightarrow> u64 \<Rightarrow> u64 \<Rightarrow> u64 \<Rightarrow> exec_state \<Rightarrow> (u64 \<times> exec_state) option" where
  "exec_from_buffer_named_args plat env buf_ptr buf_len path_ptr args_ptr s =
    (case named_buffer plat buf_ptr buf_len path_ptr (Some args_ptr) s of
       Inl e \<Rightarrow> Some (e, s)
     | Inr (path, args, data) \<Rightarrow> exec_with_data plat env data (last_component path) path args None s)"

text \<open>The parent that the caller asks for: only a core process may name another process.\<close>

definition requested_parent :: "u64 \<Rightarrow> exec_state \<Rightarrow> process_id option sysres" where
  "requested_parent requester_tid s =
    (let k = xs_kernel s
     in if requester_tid = 0 then Inr None
        else case current_pid k of
            None \<Rightarrow> Inl EPERM
          | Some caller_pid \<Rightarrow> (case get_thread k requester_tid of
                None \<Rightarrow> Inl EINVAL
              | Some t \<Rightarrow>
                  let caller_is_core = (case get_process k caller_pid of Some p \<Rightarrow> p_privilege p = PrivCore | None \<Rightarrow> False)
                  in if t_process_id t \<noteq> caller_pid \<and> \<not> caller_is_core then Inl EPERM else Inr (Some (t_process_id t))))"

definition exec_from_buffer_named_args_with_requester ::
  "platform \<Rightarrow> exec_env \<Rightarrow> u64 \<Rightarrow> u64 \<Rightarrow> u64 \<Rightarrow> u64 \<Rightarrow> u64 \<Rightarrow> exec_state \<Rightarrow> (u64 \<times> exec_state) option" where
  "exec_from_buffer_named_args_with_requester plat env buf_ptr buf_len path_ptr args_ptr requester_tid s =
    (case named_buffer plat buf_ptr buf_len path_ptr (Some args_ptr) s of
       Inl e \<Rightarrow> Some (e, s)
     | Inr (path, args, data) \<Rightarrow> (case requested_parent requester_tid s of
           Inl e \<Rightarrow> Some (e, s)
         | Inr parent \<Rightarrow> exec_with_data plat env data (last_component path) path args parent s))"

section \<open>Replacing the program of the current process\<close>

text \<open>A call that succeeds does not return: it jumps to the entry point with the new stack pointer.\<close>

datatype execve_result = ExecveError u64 | ExecveJump u64 u64

definition build_execve_image ::
  "platform \<Rightarrow> kernel \<Rightarrow> u64 \<Rightarrow> bytes \<Rightarrow> elf_header \<Rightarrow> u64 \<Rightarrow> bytes \<Rightarrow> u64 \<Rightarrow> u64 \<Rightarrow> (initial_user_stack \<times> u64) table_op" where
  "build_execve_image plat k t data h aslr_seed path argv envp =
    (let X = plat_x86 plat
     in table_then (load_program X t data h) (\<lambda>load_base.
       case checked_add load_base (e_phoff h) of
         None \<Rightarrow> (\<lambda>v. None)
       | Some phdr_vaddr \<Rightarrow> (\<lambda>v.
           let argv_strings = read_user_ptr_array plat (k\<lparr>k_vm := v\<rparr>) argv 256;
               argv_strings = (if argv_strings = [] then [path] else argv_strings);
               envp_strings = read_user_ptr_array plat (k\<lparr>k_vm := v\<rparr>) envp 1024
           in (case build_initial_user_stack aslr_seed argv_strings envp_strings path (auxv_entries phdr_vaddr h (e_entry h)) of
                 Inl code \<Rightarrow> table_return (Inl code)
               | Inr st \<Rightarrow>
                   table_then (map_initial_stack X t st) (\<lambda>_.
                   table_then (map_initial_heap X t aslr_seed) (\<lambda>_.
                   table_then (map_initial_tls X t aslr_seed) (\<lambda>fs_base. table_return (Inr (st, fs_base)))))) v)))"

definition replace_image :: "u64 \<Rightarrow> u64 \<Rightarrow> initial_user_stack \<Rightarrow> process \<Rightarrow> process" where
  "replace_image t aslr_seed st p =
    p\<lparr>p_page_table := Some t, p_heap_start := heap_base_of aslr_seed, p_heap_end := heap_base_of aslr_seed + 0x2000,
      p_stack_bottom := ius_base st, p_stack_top := ius_end st + 4096\<rparr>"

definition close_on_exec :: "process_id \<Rightarrow> kernel \<Rightarrow> kernel" where
  "close_on_exec pid k =
    (case get_process k pid of
       None \<Rightarrow> k
     | Some p \<Rightarrow> (case close_cloexec_fds (p_fd_table p) (k_remote k) of (fds, remote) \<Rightarrow>
         (modify_process pid (\<lambda>p. p\<lparr>p_fd_table := fds\<rparr>) k)\<lparr>k_remote := remote\<rparr>))"

definition jump_to_usermode :: "platform \<Rightarrow> kernel \<Rightarrow> kernel" where
  "jump_to_usermode plat k =
    (let (fs_base, user_cr3) = (case Option.bind (current_thread_id k) (get_thread k) of
           None \<Rightarrow> (0, 0)
         | Some t \<Rightarrow> (t_fs_base t, case Option.bind (get_process k (t_process_id t)) p_page_table of Some pt \<Rightarrow> pt | None \<Rightarrow> 0));
         k = k\<lparr>k_fs_base := fs_base\<rparr>
     in if user_cr3 \<noteq> 0 then k\<lparr>k_vm := switch_page_table (plat_x86 plat) user_cr3 (k_vm k)\<rparr> else k)"

definition enter_image :: "platform \<Rightarrow> thread_id \<Rightarrow> process_id \<Rightarrow> u64 \<Rightarrow> u64 \<Rightarrow> initial_user_stack \<Rightarrow> u64 \<Rightarrow> kernel \<Rightarrow> kernel" where
  "enter_image plat tid pid t aslr_seed st fs_base k =
    (let k = modify_thread tid (\<lambda>th. th\<lparr>t_fs_base := fs_base\<rparr>) k;
         old_pt = Option.bind (get_process k pid) p_page_table;
         k = modify_process pid (replace_image t aslr_seed st) k;
         k = (case old_pt of Some old \<Rightarrow> if old \<noteq> t then destroy_page_table plat old k else k | None \<Rightarrow> k);
         k = close_on_exec pid k
     in jump_to_usermode plat (k\<lparr>k_vm := switch_page_table (plat_x86 plat) t (k_vm k)\<rparr>))"

definition execve :: "platform \<Rightarrow> exec_env \<Rightarrow> u64 \<Rightarrow> u64 \<Rightarrow> u64 \<Rightarrow> exec_state \<Rightarrow> (execve_result \<times> exec_state) option" where
  "execve plat env path_ptr argv envp s =
    (if path_ptr = 0 then Some (ExecveError EINVAL, s)
     else case read_user_cstring plat (xs_kernel s) path_ptr 256 of
         Inl _ \<Rightarrow> Some (ExecveError EINVAL, s)
       | Inr path \<Rightarrow>
           let (aslr_seed, s) = next_aslr_seed plat env path s; k = xs_kernel s
           in if ends_with path DOT_SERVICE \<and> \<not> caller_can_launch_service s then Some (ExecveError EPERM, s)
              else case initfs_read (env_images env) path of
                  Panics \<Rightarrow> None
                | Absent \<Rightarrow> Some (ExecveError ENOENT, s)
                | Found data \<Rightarrow> (case parse_elf_header data of
                      None \<Rightarrow> Some (ExecveError EINVAL, s)
                    | Some h \<Rightarrow> (case create_user_page_table (plat_x86 plat) (k_vm k) of
                          (Stuck, v) \<Rightarrow> None
                        | (Err _, v) \<Rightarrow> Some (ExecveError EINVAL, s\<lparr>xs_kernel := k\<lparr>k_vm := v\<rparr>\<rparr>)
                        | (Ok t, v) \<Rightarrow> (case build_execve_image plat k t data h aslr_seed path argv envp v of
                              None \<Rightarrow> None
                            | Some (Inl code, v) \<Rightarrow> Some (ExecveError code, s\<lparr>xs_kernel := destroy_page_table plat t (k\<lparr>k_vm := v\<rparr>)\<rparr>)
                            | Some (Inr (st, fs_base), v) \<Rightarrow>
                                let k = k\<lparr>k_vm := v\<rparr>
                                in case Option.bind (current_thread_id k) (get_thread k) of
                                     None \<Rightarrow> Some (ExecveError EINVAL, s\<lparr>xs_kernel := destroy_page_table plat t k\<rparr>)
                                   | Some th \<Rightarrow> Some (ExecveJump (e_entry h) (ius_rsp st),
                                       s\<lparr>xs_kernel := enter_image plat (k_current k) (t_process_id th) t aslr_seed st fs_base k\<rparr>)))))"

section \<open>What a call changes\<close>

text \<open>
  The processes of a state that are not those of another one. Starting a program adds at most the new process, with the privilege that
  its name and its path give.
\<close>

definition processes :: "exec_state \<Rightarrow> process set" where
  "processes s = set (process_table_iter (k_procs (xs_kernel s)))"

lemma live_update_subset: "set (live (xs[i := y])) \<subseteq> set (live xs) \<union> set_option y"
  using set_update_subset_insert[of xs i y] by (cases y) (auto simp: set_live)

lemma process_table_add_iter: "process_table_add t p = (r, t') \<Longrightarrow> set (process_table_iter t') \<subseteq> insert p (set (process_table_iter t))"
  by (auto simp: process_table_add_def process_table_iter_def split: if_splits option.splits
      dest: live_update_subset[of "pt_processes t" _ "Some p", THEN subsetD])

lemma slot_take_subset: "slot_take P xs = Some (p, ys) \<Longrightarrow> set (live ys) \<subseteq> set (live xs)"
  by (induction P xs arbitrary: ys rule: slot_take.induct) (fastforce split: if_splits)+

lemma process_table_remove_iter: "set (process_table_iter (snd (process_table_remove t pid))) \<subseteq> set (process_table_iter t)"
  using slot_take_subset by (fastforce simp: process_table_remove_def process_table_iter_def split: option.splits prod.splits)

lemma exec_procs_simps [simp]:
  "k_procs (drop_process p k) = k_procs k" "k_procs (destroy_page_table plat t k) = k_procs k"
  "xs_kernel (on_kernel f s) = f (xs_kernel s)" "xs_kernel (release_manager b pid s) = xs_kernel s"
  "xs_manager_pid (on_kernel f s) = xs_manager_pid s"
  by (simp_all add: drop_process_def destroy_page_table_def on_kernel_def release_manager_def)

lemma remove_process_iter: "set (process_table_iter (k_procs (remove_process pid k))) \<subseteq> set (process_table_iter (k_procs k))"
  using process_table_remove_iter[of "k_procs k" pid] by (auto simp: remove_process_def split: prod.splits option.splits)

lemma add_process_iter:
  "add_process p k = (r, k') \<Longrightarrow> set (process_table_iter (k_procs k')) \<subseteq> insert p (set (process_table_iter (k_procs k)))"
  using process_table_add_iter[of "k_procs k" p] by (fastforce simp: add_process_def split: prod.splits option.splits)

lemma schedule_procs: "k_procs (snd (schedule k)) = k_procs k"
  by (auto simp: schedule_def Let_def modify_thread_def split: option.split)

lemma switch_into_procs [simp]: "k_procs (switch_into plat n k) = k_procs k"
  by (auto simp: switch_into_def set_current_thread_def split: option.split)

lemma yield_with_procs:
  assumes "\<And>c n k. k_procs (switch c n k) = k_procs k"
  shows "k_procs (yield_with switch k) = k_procs k"
  using schedule_procs[of k] by (auto simp: yield_with_def Let_def assms split: option.split prod.split)

lemma reclaim_thread_procs [simp]: "k_procs (reclaim_thread plat tid k) = k_procs k"
  by (auto simp: reclaim_thread_def remove_thread_def clear_futex_waiter_def release_kernel_stack_def Let_def split: prod.split option.split)

lemma switch_to_thread_procs [simp]: "k_procs (switch_to_thread plat c n k) = k_procs k"
  by (auto simp: switch_to_thread_def terminate_thread_def Let_def yield_with_procs set_current_thread_def modify_thread_def split: option.split)

lemma yield_now_procs [simp]: "k_procs (yield_now plat k) = k_procs k"
  by (simp add: yield_now_def yield_with_procs)

lemma exec_thread_processes: "exec_thread plat img t name pid fs b s = (r, s') \<Longrightarrow> processes s' \<subseteq> processes s"
  using remove_process_iter
  by (fastforce simp: exec_thread_def processes_def Let_def add_thread_def split: prod.splits option.splits if_splits)

lemma exec_process_new:
  assumes "exec_process img t seed name path parent s = (p, s')"
  shows "p_privilege p = resolve_exec_privilege s name path" "processes s' = processes s" "xs_manager_pid s' = xs_manager_pid s"
  using assms by (auto simp: exec_process_def process_new_def set_cwd_def processes_def Let_def split: prod.splits option.splits if_splits)

lemma start_program_processes:
  assumes "start_program plat img t seed name path parent s = Some (r, s')" "p \<in> processes s'"
  shows "p \<in> processes s \<or> p_privilege p = resolve_exec_privilege s name path"
proof -
  obtain q s1 where q: "exec_process img t seed name path parent s = (q, s1)" by fastforce
  have "processes s' \<subseteq> insert q (processes s1)"
    using assms(1) exec_thread_processes add_process_iter
    by (fastforce simp: start_program_def q Let_def processes_def split: prod.splits option.splits sum.splits if_splits)
  then show ?thesis using exec_process_new[OF q] assms(2) by auto
qed

lemma next_aslr_seed_keeps:
  "next_aslr_seed plat env tag s = (seed, s') \<Longrightarrow> xs_kernel s' = xs_kernel s \<and> xs_manager_pid s' = xs_manager_pid s"
  by (auto simp: next_aslr_seed_def Let_def)

lemma vm_keeps_rights:
  "caller_is_service_or_core (on_kernel (\<lambda>k. k\<lparr>k_vm := v\<rparr>) s) = caller_is_service_or_core s"
  "processes (on_kernel (\<lambda>k. k\<lparr>k_vm := v\<rparr>) s) = processes s"
  by (simp_all add: caller_is_service_or_core_def processes_def current_pid_def current_thread_id_def get_thread_def get_process_def[abs_def])

lemma exec_with_data_processes:
  assumes "exec_with_data plat env data name path args parent s = Some (r, s')" "p \<in> processes s'"
  shows "p \<in> processes s \<or> p_privilege p = resolve_exec_privilege s name path"
proof -
  obtain seed s1 where n: "next_aslr_seed plat env name s = (seed, s1)" by fastforce
  have k: "xs_kernel s1 = xs_kernel s" using next_aslr_seed_keeps[OF n] by simp
  have same: "processes s1 = processes s" "resolve_exec_privilege s1 name path = resolve_exec_privilege s name path"
    by (simp_all add: processes_def resolve_exec_privilege_def caller_is_service_or_core_def k)
  consider "processes s' = processes s1"
    | img t v where "start_program plat img t seed name path parent (on_kernel (\<lambda>k. k\<lparr>k_vm := v\<rparr>) s1) = Some (r, s')"
    using assms(1) unfolding exec_with_data_def n Let_def
    by (auto simp: processes_def split: option.splits prod.splits kres.splits sum.splits if_splits)
  then show ?thesis
  proof cases
    case 2
    from start_program_processes[OF this assms(2)] show ?thesis
      using same by (simp add: vm_keeps_rights resolve_exec_privilege_def)
  qed (use assms(2) same in simp)
qed

lemma split_on_nonempty [simp]: "split_on c xs \<noteq> []"
  by (induction c xs rule: split_on.induct) (auto simp: Let_def split: list.splits)

lemma split_on_single: "split_on c xs = [p] \<Longrightarrow> p = xs"
  by (induction c xs arbitrary: p rule: split_on.induct) (auto split: list.splits if_splits)

lemma last_component_suffix: "suffix (last_component path) path"
proof -
  have "suffix (last (split_on c xs)) xs" for c :: u8 and xs
    by (induction c xs rule: split_on.induct) (auto intro: suffix_ConsI dest: split_on_single split: list.splits)
  then show ?thesis by (simp add: last_component_def)
qed

lemma plain_name:
  assumes "\<not> ends_with path DOT_SERVICE"
  shows "\<not> ends_with (last_component path) DOT_SERVICE" "\<not> ends_with (str_bytes ''netdrv'') DOT_SERVICE"
proof -
  show "\<not> ends_with (last_component path) DOT_SERVICE"
    using assms suffix_order.trans[OF _ last_component_suffix[of path]] by (auto simp: ends_with_def)
  show "\<not> ends_with (str_bytes ''netdrv'') DOT_SERVICE"
    using suffix_length_le[of DOT_SERVICE "str_bytes ''netdrv''"] by (auto simp: ends_with_def DOT_SERVICE_def)
qed

lemma exec_internal_processes:
  assumes "exec_internal plat env path None args s = Some (r, s')" "p \<in> processes s'"
  shows "p \<in> processes s \<or> (\<exists>name \<in> {last_component path, str_bytes ''netdrv''}. p_privilege p = resolve_exec_privilege s name path)"
  using assms exec_with_data_processes[of plat env _ _ path args None s r s' p]
  by (fastforce simp: exec_internal_def Let_def split: answer.splits if_splits)

section \<open>Properties\<close>


text \<open>The first process of the sample kernel asks for the default program, which no image has.\<close>

definition sample_exec :: exec_state where
  "sample_exec = \<lparr>xs_kernel = sample_kernel, xs_aslr_counter = 0, xs_manager_pid = 7\<rparr>"

definition empty_env :: exec_env where
  "empty_env = \<lparr>env_images = \<lparr>im_initfs = [], im_rootfs = []\<rparr>, env_fs_ops = None, env_random = None\<rparr>"


end
