(* ===== verification/Spec2Isabelle.thy ===== *)
theory Spec2Isabelle
  imports Fifo Mappings Small_Image Small_Program Exec
begin

text \<open>
  A verification development of the mochiOS kernel, \<^verbatim>\<open>src/src/core\<close>. The kernel runs threads of several processes on one processor. A
  timer and the threads themselves make it choose the next thread; threads call it to exchange messages, wait, signal each other, map
  memory and start programs. It keeps everything in static tables of fixed size.

  \<^bold>\<open>How the model reads.\<close> A struct is a record, an enum a datatype, an integer of the code a word of its width, with the wrap-around, the
  saturation or the check that the code has; a \<^emph>\<open>usize\<close> that only counts is a natural number. Stateful code takes the state and returns the
  new one. A Rust \<^emph>\<open>Result\<close> of the kernel is \<^typ>\<open>'a kres\<close>, whose third case \<^term>\<open>Stuck\<close> is a panic or a lock that is never given
  back; in other places such an end is \<^term>\<open>None\<close> or \<^term>\<open>Panics\<close>. A system call returns its error code on the left of a
  sum. A loop that waits is modelled by one turn of it, which returns or yields; a call that may end its thread has an outcome that says so.
  The processor, the \<^verbatim>\<open>x86_64\<close> crate, the entropy of the machine and loaded modules are parameters; the hypotheses on them
  state documented behaviour and are shown to hold of a concrete instance by the witnesses.

  \<^bold>\<open>Foundations.\<close> \<^verbatim>\<open>Prelude\<close>: Rust arithmetic, arrays and lists of options. \<^verbatim>\<open>Bytes\<close>: strings, UTF-8 and little-endian words with their
  round trip. \<^verbatim>\<open>Ring\<close>: ring buffers and the interface of a bounded queue. \<^verbatim>\<open>Slot_Table\<close>: tables of optional slots and the interface of a
  table with identifiers. \<^verbatim>\<open>Kresult\<close> (\<^verbatim>\<open>result.rs\<close>) and \<^verbatim>\<open>Errno\<close> (\<^verbatim>\<open>syscall/types.rs\<close>): errors. \<^verbatim>\<open>Memory\<close>: physical memory.

  \<^bold>\<open>Tables.\<close> \<^verbatim>\<open>Fifo\<close> (\<^verbatim>\<open>util/fifo.rs\<close>) is refined to a bounded list. \<^verbatim>\<open>Ids\<close>, \<^verbatim>\<open>Process_Table\<close>, \<^verbatim>\<open>Thread_Queue\<close>, \<^verbatim>\<open>Signal_State\<close>, \<^verbatim>\<open>Fd_Table\<close> and
  \<^verbatim>\<open>Kstack\<close> model \<^verbatim>\<open>task/\<close>: lookup after insertion and removal, slot generations, reaping, the next signal, sharing of remote files by
  fork, and kernel stacks that do not overlap, with the case in which they do. \<^verbatim>\<open>Mailbox\<close> (\<^verbatim>\<open>syscall/ipc.rs\<close>), \<^verbatim>\<open>Pipe\<close> (\<^verbatim>\<open>syscall/pipe.rs\<close>)
  and \<^verbatim>\<open>Wait_Queue\<close> (\<^verbatim>\<open>syscall/time.rs\<close>, \<^verbatim>\<open>syscall/process.rs\<close>) model queues: order of messages, a pipe as a stream of bytes, who is
  woken. The interfaces are locales: the bounded queue is interpreted on the interrupt queue and the mailbox ring, the table with
  identifiers on processes and threads, the timed waiters on sleepers and futex waiters.

  \<^bold>\<open>Memory.\<close> \<^verbatim>\<open>Frame\<close> (\<^verbatim>\<open>mem/frame.rs\<close>): no frame is given out twice, and device memory is never usable memory. \<^verbatim>\<open>Paging\<close> and
  \<^verbatim>\<open>Page_Tables\<close> (\<^verbatim>\<open>mem/paging.rs\<close>, \<^verbatim>\<open>mem/user.rs\<close>): walking tables, copying from and to user memory, mapping, loading segments, address
  spaces and user stacks. A copy reads exactly the bytes of the range, writes only where the user may write, and is read back unchanged.

  \<^bold>\<open>The kernel.\<close> \<^verbatim>\<open>Kernel\<close> puts the tables into one record. \<^verbatim>\<open>Scheduler\<close> (\<^verbatim>\<open>task/scheduler.rs\<close>, \<^verbatim>\<open>task/context.rs\<close>, \<^verbatim>\<open>interrupt/timer.rs\<close>)
  has the steps of scheduling as an inductive relation: in every state it reaches the processor runs the current thread, and a ready
  thread runs within a bounded number of turns. \<^verbatim>\<open>Usercopy\<close> (\<^verbatim>\<open>syscall/mod.rs\<close>) reaches user memory. \<^verbatim>\<open>Sample_Kernel\<close> is a small
  running kernel for the witnesses.

  \<^bold>\<open>System calls.\<close> \<^verbatim>\<open>Ipc\<close>: a message arrives unchanged and wakes its receiver. \<^verbatim>\<open>Signals\<close> (\<^verbatim>\<open>syscall/signal.rs\<close>): the frame of a handler is
  undone by its return, \<^emph>\<open>SIGKILL\<close> cannot be caught and ends a process. \<^verbatim>\<open>Process_Calls\<close> (\<^verbatim>\<open>syscall/process.rs\<close>, \<^verbatim>\<open>syscall/time.rs\<close>): exit and
  wait, fork, futexes, the heap. \<^verbatim>\<open>Mappings\<close>: anonymous mappings do not overlap.

  \<^bold>\<open>Programs.\<close> \<^verbatim>\<open>Initfs\<close> (\<^verbatim>\<open>init/fs.rs\<close>) is the ext2 reader of the boot images: its directory walks end and it never panics, for
  every image; it returns the bytes of the block map, and what a listing names can be looked up. \<^verbatim>\<open>Elf\<close> (\<^verbatim>\<open>elf/loader.rs\<close>, \<^verbatim>\<open>task/elf.rs\<close>): an
  image that loads is well formed, and relocations stay inside it. \<^verbatim>\<open>Exec_Stack\<close> and \<^verbatim>\<open>Exec\<close> (\<^verbatim>\<open>syscall/exec.rs\<close>, \<^verbatim>\<open>read_all\<close> of
  \<^verbatim>\<open>kmod/fs.rs\<close>): a program reads back its arguments from its first stack, and the exec call gives no rights away. The witnesses of
  these parts are in \<^verbatim>\<open>Small_Image\<close>, \<^verbatim>\<open>Small_Program\<close> and \<^verbatim>\<open>Exec\<close>.

  \<^bold>\<open>Bounds.\<close> No fuel is used. The loops over pages, bytes and headers are total functions; the directory walks are partial functions
  that are proved to return; the reads of a module end because a file of more than 64 MiB is refused. Sizes of tables are those of the code.

  \<^bold>\<open>Limits of the model.\<close> There is one processor and a critical section is one step, so races between processors are not covered. Plain sums
  that overflow are panics, as in a build with overflow checks. Reads of structures from a file do not depend on their alignment.
  The heap of the kernel never runs out, and the log is not part of the state.

  \<^bold>\<open>Not modelled.\<close> Assembly and machine set-up (\<^verbatim>\<open>cpu.rs\<close>, \<^verbatim>\<open>interrupt/idt.rs\<close>, \<^verbatim>\<open>mem/gdt.rs\<close>, \<^verbatim>\<open>mem/tss.rs\<close>, the entry code of system calls);
  output (console, screen, log); the locks, whose effect is the atomicity above; the kernel heap, which wraps a crate. The start of the boot
  services in \<^verbatim>\<open>task/elf.rs\<close>, the file system calls and \<^verbatim>\<open>exec_from_fs_stream\<close>, which talk to a service over messages, the process group, polling
  and terminal calls (\<^verbatim>\<open>syscall/pgroup.rs\<close>, \<^verbatim>\<open>syscall/tty.rs\<close>), and port and device access (\<^verbatim>\<open>syscall/privileged.rs\<close>, \<^verbatim>\<open>syscall/io_port.rs\<close>,
  \<^verbatim>\<open>syscall/mmio.rs\<close>) could be modelled in the same way and are not. The boot loader, modules, drivers, services, utilities and the
  user library, outside \<^verbatim>\<open>src/src/core\<close>, are not covered.
\<close>

end
